(* ===== verification/Xv6_Prelude.thy ===== *)
theory Xv6_Prelude
  imports Main "HOL-Library.Word"
begin

text \<open>
  Shared infrastructure of the development.

  A kernel function is a \<open>kmon\<close> computation: it takes the kernel state and either finishes with a
  result and a new state (\<open>Done\<close>), stops the machine with the message given to \<open>panic\<close> in
  \<^verbatim>\<open>kernel/printf.c\<close> (\<open>Panic\<close>), performs an access the C program has no right to make (null
  pointer, index out of an array: \<open>Fault\<close>), gives up the CPU inside \<open>sched\<close> (\<open>Asleep\<close>, with the
  state it leaves behind for the other threads), or busy-waits for another CPU (\<open>Spins\<close>).
  Statements are sequenced with \<open>bnd\<close>.

  \<open>wp f Q s\<close> is the total-correctness weakest precondition: from state \<open>s\<close> the computation \<open>f\<close>
  finishes (no panic, no fault, no sleep) and \<open>Q\<close> holds of the result and the new state. The rules
  of the collection \<open>kwp\<close> push \<open>wp\<close> through the statements, so that \<open>simp\<close> computes with it.
\<close>

unbundle bit_operations_syntax

type_synonym byte = "8 word"
type_synonym uint = "32 word"
type_synonym uint64 = "64 word"

named_theorems kwp "weakest preconditions of kernel statements"
named_theorems kdef "definitions of kernel operations, for unfolding"

section \<open>The kernel monad\<close>

datatype ('a, 's) outcome = Done 'a 's | Panic string | Fault | Asleep 's | Spins

type_synonym ('s, 'a) kmon = "'s \<Rightarrow> ('a, 's) outcome"

definition ret :: "'a \<Rightarrow> ('s, 'a) kmon" where
  "ret x = (\<lambda>s. Done x s)"

definition bnd :: "('s, 'a) kmon \<Rightarrow> ('a \<Rightarrow> ('s, 'b) kmon) \<Rightarrow> ('s, 'b) kmon" where
  "bnd m f = (\<lambda>s. case m s of Done x t \<Rightarrow> f x t | Panic e \<Rightarrow> Panic e | Fault \<Rightarrow> Fault | Asleep t \<Rightarrow> Asleep t | Spins \<Rightarrow> Spins)"

definition gets :: "('s \<Rightarrow> 'a) \<Rightarrow> ('s, 'a) kmon" where
  "gets f = (\<lambda>s. Done (f s) s)"

definition modify :: "('s \<Rightarrow> 's) \<Rightarrow> ('s, unit) kmon" where
  "modify f = (\<lambda>s. Done () (f s))"

definition panic :: "string \<Rightarrow> ('s, 'a) kmon" where
  "panic msg = (\<lambda>s. Panic msg)"

definition fault :: "('s, 'a) kmon" where
  "fault = (\<lambda>s. Fault)"

definition spins :: "('s, 'a) kmon" where
  "spins = (\<lambda>s. Spins)"

text \<open>\<open>for (i = ...) body\<close> over the listed indices, without a \<open>break\<close>.\<close>

primrec for_each :: "'i list \<Rightarrow> ('i \<Rightarrow> ('s, unit) kmon) \<Rightarrow> ('s, unit) kmon" where
  "for_each [] f = ret ()"
| "for_each (i # is) f = bnd (f i) (\<lambda>_. for_each is f)"

definition wp :: "('s, 'a) kmon \<Rightarrow> ('a \<Rightarrow> 's \<Rightarrow> bool) \<Rightarrow> 's \<Rightarrow> bool" where
  "wp f Q s = (case f s of Done r t \<Rightarrow> Q r t | _ \<Rightarrow> False)"

subsection \<open>Rules\<close>

lemma wp_ret [kwp, simp]: "wp (ret x) Q s = Q x s"
  by (simp add: wp_def ret_def)

lemma wp_Done_fun [simp]: "wp (Done x) Q s = Q x s"
  by (simp add: wp_def)

lemma wp_bnd [kwp, simp]: "wp (bnd m f) Q s = wp m (\<lambda>x. wp (f x) Q) s"
  by (simp add: wp_def bnd_def split: outcome.splits)

lemma wp_gets [kwp, simp]: "wp (gets f) Q s = Q (f s) s"
  by (simp add: wp_def gets_def)

lemma wp_modify [kwp, simp]: "wp (modify f) Q s = Q () (f s)"
  by (simp add: wp_def modify_def)

lemma wp_panic [kwp, simp]: "\<not> wp (panic e) Q s"
  by (simp add: wp_def panic_def)

lemma wp_fault [kwp, simp]: "\<not> wp fault Q s"
  by (simp add: wp_def fault_def)

lemma wp_spins [kwp, simp]: "\<not> wp spins Q s"
  by (simp add: wp_def spins_def)

lemma wp_if [kwp, simp]: "wp (if b then f else g) Q s = (if b then wp f Q s else wp g Q s)"
  by simp

lemma wp_case_option [kwp, simp]:
  "wp (case x of None \<Rightarrow> f | Some y \<Rightarrow> g y) Q s = (case x of None \<Rightarrow> wp f Q s | Some y \<Rightarrow> wp (g y) Q s)"
  by (simp split: option.split)

lemma wp_case_prod [kwp, simp]:
  "wp (case x of (a, b) \<Rightarrow> f a b) Q s = (case x of (a, b) \<Rightarrow> wp (f a b) Q s)"
  by (simp split: prod.split)

lemma wp_mono: "wp f Q s \<Longrightarrow> (\<And>r t. Q r t \<Longrightarrow> R r t) \<Longrightarrow> wp f R s"
  by (auto simp: wp_def split: outcome.splits)

lemma wp_conj: "wp f Q s \<Longrightarrow> wp f R s \<Longrightarrow> wp f (\<lambda>r t. Q r t \<and> R r t) s"
  by (auto simp: wp_def split: outcome.splits)

lemma wp_Done: "f s = Done r t \<Longrightarrow> wp f Q s = Q r t"
  by (simp add: wp_def)

lemma wp_eq_Done: "wp f (\<lambda>r t. r = x \<and> t = y) s \<longleftrightarrow> f s = Done x y"
  by (auto simp: wp_def split: outcome.splits)

lemma wp_obtain: "wp f Q s \<longleftrightarrow> (\<exists>r t. f s = Done r t \<and> Q r t)"
  by (auto simp: wp_def split: outcome.splits)

lemma wp_DoneD: "wp f Q s \<Longrightarrow> f s = Done r t \<Longrightarrow> Q r t"
  by (simp add: wp_def)

lemma wp_obtain_unit: "wp f Q s \<longleftrightarrow> (\<exists>t. f s = Done () t \<and> Q () t)"
  by (auto simp: wp_def split: outcome.splits)

text \<open>The same rules without the state, under a binder.\<close>

lemma wp_bnd_fun: "wp (bnd m f) Q = wp m (\<lambda>x. wp (f x) Q)"
  by (simp add: fun_eq_iff)

lemma wp_modify_fun: "wp (modify f) Q = (\<lambda>s. Q () (f s))"
  by (simp add: fun_eq_iff)

text \<open>Running a statement whose outcome is known.\<close>

lemma bnd_Done [simp]: "m s = Done x t \<Longrightarrow> bnd m f s = f x t"
  by (simp add: bnd_def)

lemma bnd_Panic [simp]: "m s = Panic e \<Longrightarrow> bnd m f s = Panic e"
  by (simp add: bnd_def)

lemma bnd_Fault [simp]: "m s = Fault \<Longrightarrow> bnd m f s = Fault"
  by (simp add: bnd_def)

lemma bnd_Asleep [simp]: "m s = Asleep t \<Longrightarrow> bnd m f s = Asleep t"
  by (simp add: bnd_def)

lemma run_ret: "ret x s = Done x s"
  by (simp add: ret_def)

lemma run_ret_eq [simp]: "ret x s = r \<longleftrightarrow> Done x s = r"
  by (simp add: ret_def)

lemma run_gets [simp]: "gets f s = Done (f s) s"
  by (simp add: gets_def)

lemma run_modify [simp]: "modify f s = Done () (f s)"
  by (simp add: modify_def)

lemma run_panic [simp]: "panic e s = Panic e"
  by (simp add: panic_def)

lemma run_fault [simp]: "fault s = Fault"
  by (simp add: fault_def)

lemma bnd_Spins [simp]: "m s = Spins \<Longrightarrow> bnd m f s = Spins"
  by (simp add: bnd_def)

lemma run_spins [simp]: "spins s = Spins"
  by (simp add: spins_def)

text \<open>Running a sequence on a given state.\<close>

lemma bnd_ret [simp]: "bnd (ret x) f s = f x s" "bnd (Done x) f s = f x s"
  by (simp_all add: bnd_def ret_def)

lemma bnd_gets [simp]: "bnd (gets g) f s = f (g s) s"
  by (simp add: bnd_def)

lemma bnd_modify [simp]: "bnd (modify h) f s = f () (h s)"
  by (simp add: bnd_def)

lemma bnd_stop [simp]: "bnd (panic e) f s = Panic e" "bnd fault f s = Fault" "bnd spins f s = Spins"
  by (simp_all add: bnd_def)

lemma bnd_ret_left: "bnd (ret x) f = f x"
  by (simp add: fun_eq_iff)

lemma if_run: "(if b then f else g) s = (if b then f s else g s)"
  by simp

lemma bnd_assoc: "bnd (bnd m f) g = bnd m (\<lambda>x. bnd (f x) g)"
  by (auto simp: bnd_def fun_eq_iff split: outcome.split)

lemma bnd_Done_elim:
  assumes "bnd m f s = Done r t"
  obtains x s' where "m s = Done x s'" "f x s' = Done r t"
  using assms by (auto simp: bnd_def split: outcome.splits)

text \<open>A loop keeps what its body keeps.\<close>

lemma wp_for_each:
  assumes body: "\<And>i t. i \<in> set is \<Longrightarrow> I t \<Longrightarrow> wp (f i) (\<lambda>_. I) t"
    and start: "I s"
  shows "wp (for_each is f) (\<lambda>_. I) s"
  using assms
proof (induction "is" arbitrary: s)
  case Nil
  then show ?case by simp
next
  case (Cons i "is")
  have "wp (f i) (\<lambda>_. I) s" using Cons.prems by simp
  then show ?case
    using Cons.IH Cons.prems(1) by (auto elim!: wp_mono)
qed

text \<open>
  A loop body that is a pure update \<open>g i\<close> of the state folds into one update.
\<close>

lemma for_each_fold:
  assumes "\<And>i t. i \<in> set is \<Longrightarrow> f i t = Done () (g i t)"
  shows "for_each is f s = Done () (fold g is s)"
  using assms by (induction "is" arbitrary: s) auto

lemma for_each_append [simp]: "for_each (xs @ ys) f = bnd (for_each xs f) (\<lambda>_. for_each ys f)"
  proof (induction xs)
  case Nil
  then show ?case by (simp add: fun_eq_iff)
next
  case (Cons x xs)
  then show ?case by (simp add: bnd_assoc)
qed

text \<open>A counting loop whose state after \<open>i\<close> rounds is \<open>G i\<close>.\<close>

lemma for_each_upt:
  assumes "\<And>i. i < n \<Longrightarrow> f i (G i) = Done () (G (Suc i))"
  shows "for_each [0..<n] f (G 0) = Done () (G n)"
  using assms
proof (induction n)
  case 0
  then show ?case by (simp add: ret_def)
next
  case (Suc n)
  then have "for_each [0..<n] f (G 0) = Done () (G n)" "f n (G n) = Done () (G (Suc n))" by simp_all
  then show ?case unfolding upt_Suc_append [OF le0] for_each_append by (simp add: bnd_def ret_def)
qed

lemma wp_for_upt:
  assumes "\<And>i t. i < n \<Longrightarrow> I i t \<Longrightarrow> wp (f i) (\<lambda>_. I (Suc i)) t" "I 0 s"
  shows "wp (for_each [0..<n] f) (\<lambda>_. I n) s"
  using assms
proof (induction n)
  case 0
  then show ?case by simp
next
  case (Suc n)
  then have "wp (for_each [0..<n] f) (\<lambda>_. I n) s" by simp
  then have "wp (for_each [0..<n] f) (\<lambda>_ t. wp (f n) (\<lambda>_. I (Suc n)) t) s"
    using Suc.prems(1) by (auto elim: wp_mono)
  then show ?case unfolding upt_Suc_append [OF le0] for_each_append by (auto elim!: wp_mono)
qed

section \<open>Generic lemmas on lists and words\<close>

lemma fold_fun_upd_nth:
  "fold (\<lambda>i m. m(i := g i)) is m x = (if x \<in> set is then g x else m x)"
  by (induction "is" arbitrary: m) auto

lemma list_update_map_upt:
  "i < n \<Longrightarrow> (map f [0..<n])[i := v] = map (f(i := v)) [0..<n]"
  by (rule nth_equalityI) (auto simp: nth_list_update)

lemma find_SomeD: "List.find P xs = Some x \<Longrightarrow> x \<in> set xs \<and> P x"
  by (auto simp: find_Some_iff)

lemma unat_plus_of_nat:
  assumes "unat (a :: 'a :: len word) + n < 2 ^ LENGTH('a)"
  shows "unat (a + of_nat n) = unat a + n"
proof -
  have "n < 2 ^ LENGTH('a)" using assms by simp
  then show ?thesis using assms by (simp add: unat_word_ariths unat_of_nat)
qed

lemma word_eq_unat: "(a :: 'a :: len word) = b \<longleftrightarrow> unat a = unat b"
  by (metis word_unat_eq_iff)

end
