(* ===== verification/Xv6_Mem.thy ===== *)
theory Xv6_Mem
  imports Xv6_Prelude
begin

text \<open>
  Physical memory and the C library of the kernel (\<^verbatim>\<open>kernel/string.c\<close>).

  Memory is a function from the addresses of aligned 8-byte cells to their 64-bit contents:
  page-table entries, saved registers and the links of the free-page list are such cells. Bytes
  are the little-endian lanes of a cell (\<open>load8\<close>, \<open>store8\<close>).
\<close>

type_synonym pmem = "uint64 \<Rightarrow> uint64"

definition cell :: "uint64 \<Rightarrow> uint64" where
  "cell a = a AND NOT 7"

definition lane :: "uint64 \<Rightarrow> nat" where
  "lane a = 8 * unat (a AND 7)"

definition load8 :: "pmem \<Rightarrow> uint64 \<Rightarrow> byte" where
  "load8 m a = ucast (drop_bit (lane a) (m (cell a)))"

definition store8 :: "pmem \<Rightarrow> uint64 \<Rightarrow> byte \<Rightarrow> pmem" where
  "store8 m a b = m(cell a := (m (cell a) AND NOT (push_bit (lane a) (mask 8))) OR push_bit (lane a) (ucast b))"

lemma lane_less: "lane a < 64"
proof -
  have "unat (a AND 7) \<le> unat (7 :: uint64)"
    by (rule word_and_le1 [THEN word_le_nat_alt [THEN iffD1]])
  then show ?thesis by (simp add: lane_def)
qed

lemma lane_le: "lane a \<le> 56"
proof -
  have "unat (a AND 7) \<le> unat (7 :: uint64)"
    by (rule word_and_le1 [THEN word_le_nat_alt [THEN iffD1]])
  then show ?thesis by (simp add: lane_def)
qed

lemma cell_lane_eq: "cell a = cell b \<Longrightarrow> lane a = lane b \<Longrightarrow> a = b"
proof -
  assume c: "cell a = cell b" and "lane a = lane b"
  then have "a AND 7 = b AND 7" by (simp add: lane_def word_eq_unat)
  then have "(a AND NOT 7) OR (a AND 7) = (b AND NOT 7) OR (b AND 7)"
    using c by (simp add: cell_def)
  then show "a = b" by (simp add: bit.conj_disj_distrib [symmetric])
qed

lemma lane_cases: "lane a = lane b \<or> lane a + 8 \<le> lane b \<or> lane b + 8 \<le> lane a"
  unfolding lane_def by presburger

lemma bit_load8: "bit (load8 m a) i \<longleftrightarrow> i < 8 \<and> bit (m (cell a)) (lane a + i)"
  by (auto simp: load8_def bit_simps)

lemma bit_lane_update:
  assumes "l \<le> 56"
  shows "bit ((w AND NOT (push_bit l (mask 8))) OR push_bit l (ucast (b :: byte)) :: uint64) n
    \<longleftrightarrow> n < 64 \<and> (if l \<le> n \<and> n < l + 8 then bit b (n - l) else bit w n)"
proof (cases "n < 64")
  case True
  have "bit b (n - l) \<Longrightarrow> n - l < 8" using bit_imp_le_length [of b "n - l"] by simp
  with True assms show ?thesis
    by (auto simp: bit_or_iff bit_and_iff bit_not_iff bit_push_bit_iff bit_mask_iff bit_ucast_iff)
next
  case False
  then show ?thesis using bit_imp_le_length by fastforce
qed

lemma load8_store8: "load8 (store8 m a b) x = (if x = a then b else load8 m x)"
proof (rule bit_word_eqI)
  fix i assume i: "i < LENGTH(8)"
  show "bit (load8 (store8 m a b) x) i = bit (if x = a then b else load8 m x) i"
  proof (cases "cell x = cell a")
    case False
    then have "x \<noteq> a" by auto
    with False show ?thesis by (simp add: bit_load8 store8_def)
  next
    case True
    have la: "lane a \<le> 56" and lx: "lane x \<le> 56" by (rule lane_le)+
    show ?thesis
    proof (cases "x = a")
      case True
      with i la show ?thesis
        by (simp add: bit_load8 store8_def bit_lane_update)
    next
      case False
      then have "lane x \<noteq> lane a" using cell_lane_eq \<open>cell x = cell a\<close> by blast
      then have "lane a + 8 \<le> lane x \<or> lane x + 8 \<le> lane a" using lane_cases [of x a] by auto
      with i la lx False \<open>cell x = cell a\<close> show ?thesis
        by (auto simp: bit_load8 store8_def bit_lane_update)
    qed
  qed
qed

lemma store8_other: "cell x \<noteq> cell a \<Longrightarrow> store8 m a b (cell x) = m (cell x)"
  by (simp add: store8_def)

section \<open>Memory functions of kernel/string.c\<close>

definition memset :: "pmem \<Rightarrow> uint64 \<Rightarrow> uint \<Rightarrow> nat \<Rightarrow> pmem" where
  "memset m dst c n = fold (\<lambda>i m. store8 m (dst + of_nat i) (ucast c)) [0..<n] m"

fun memcmp :: "pmem \<Rightarrow> uint64 \<Rightarrow> uint64 \<Rightarrow> nat \<Rightarrow> int" where
  "memcmp m s1 s2 0 = 0"
| "memcmp m s1 s2 (Suc n) =
     (if load8 m s1 \<noteq> load8 m s2 then uint (load8 m s1) - uint (load8 m s2)
      else memcmp m (s1 + 1) (s2 + 1) n)"

text \<open>The two loops of \<open>memmove\<close>: towards higher and towards lower addresses.\<close>

fun copy_up :: "pmem \<Rightarrow> uint64 \<Rightarrow> uint64 \<Rightarrow> nat \<Rightarrow> pmem" where
  "copy_up m d s 0 = m"
| "copy_up m d s (Suc n) = copy_up (store8 m d (load8 m s)) (d + 1) (s + 1) n"

fun copy_down :: "pmem \<Rightarrow> uint64 \<Rightarrow> uint64 \<Rightarrow> nat \<Rightarrow> pmem" where
  "copy_down m d s 0 = m"
| "copy_down m d s (Suc n) = copy_down (store8 m (d - 1) (load8 m (s - 1))) (d - 1) (s - 1) n"

definition memmove :: "pmem \<Rightarrow> uint64 \<Rightarrow> uint64 \<Rightarrow> nat \<Rightarrow> pmem" where
  "memmove m dst src n =
     (if src < dst \<and> src + of_nat n > dst
      then copy_down m (dst + of_nat n) (src + of_nat n) n
      else copy_up m dst src n)"

definition memcpy :: "pmem \<Rightarrow> uint64 \<Rightarrow> uint64 \<Rightarrow> nat \<Rightarrow> pmem" where
  "memcpy m dst src n = memmove m dst src n"

subsection \<open>What they compute, byte by byte\<close>

text \<open>\<open>unat (a - d) < n\<close> says that \<open>a\<close> is one of the \<open>n\<close> addresses from \<open>d\<close> on.\<close>

lemma unat_diff_Suc:
  fixes a d :: uint64
  assumes "Suc n \<le> 2 ^ 64"
  shows "unat (a - d) < Suc n \<longleftrightarrow> a = d \<or> unat (a - (d + 1)) < n"
proof (cases "a = d")
  case True
  then show ?thesis by simp
next
  case False
  then have "a - d \<noteq> 0" by simp
  then have "unat (a - d - 1) = unat (a - d) - 1" "0 < unat (a - d)"
    by (simp_all add: unat_minus_one unat_gt_0)
  with False show ?thesis by (simp add: diff_diff_eq [symmetric]) arith
qed

lemma unat_self_diff_less:
  fixes d :: uint64
  assumes "Suc n \<le> 2 ^ 64"
  shows "\<not> unat (d - (d + 1)) < n"
proof -
  have "d - (d + 1) = - 1" by simp
  then have "unat (d - (d + 1)) = unat (- 1 :: uint64)" by (simp only:)
  also have "\<dots> = 2 ^ 64 - 1"
    by (simp add: unsigned_minus_1_eq_mask mask_eq_exp_minus_1)
  finally have "unat (d - (d + 1)) = 2 ^ 64 - 1" .
  with assms show ?thesis by simp
qed

lemma eq_plus_of_nat_iff:
  fixes a d :: uint64
  assumes "n < 2 ^ 64"
  shows "a = d + of_nat n \<longleftrightarrow> unat (a - d) = n"
proof
  assume "a = d + of_nat n"
  then show "unat (a - d) = n" using assms by (simp add: unat_of_nat)
next
  assume "unat (a - d) = n"
  then have "a - d = of_nat n" by auto
  then show "a = d + of_nat n" by (simp add: algebra_simps)
qed

lemma memset_Suc: "memset m dst c (Suc n) = store8 (memset m dst c n) (dst + of_nat n) (ucast c)"
  by (simp add: memset_def)

lemma load8_memset:
  "n \<le> 2 ^ 64 \<Longrightarrow> load8 (memset m dst c n) a = (if unat (a - dst) < n then ucast c else load8 m a)"
proof (induction n)
  case 0
  then show ?case by (simp add: memset_def)
next
  case (Suc n)
  have "a = dst + of_nat n \<longleftrightarrow> unat (a - dst) = n"
    using Suc.prems by (intro eq_plus_of_nat_iff) simp
  with Suc show ?case by (auto simp: memset_Suc load8_store8)
qed

lemma load8_copy_up:
  assumes "n \<le> 2 ^ 64"
    and "\<And>k. 0 < k \<Longrightarrow> k < n \<Longrightarrow> d \<noteq> s + of_nat k"
  shows "load8 (copy_up m d s n) a = (if unat (a - d) < n then load8 m (s + (a - d)) else load8 m a)"
  using assms
proof (induction n arbitrary: m d s)
  case 0
  then show ?case by simp
next
  case (Suc n)
  let ?m = "store8 m d (load8 m s)"
  have sep: "d + 1 \<noteq> (s + 1) + of_nat k" if "0 < k" "k < n" for k
    using Suc.prems(2) [of k] that by (auto simp: add.commute add.left_commute)
  have IH: "load8 (copy_up ?m (d + 1) (s + 1) n) a =
      (if unat (a - (d + 1)) < n then load8 ?m (s + 1 + (a - (d + 1))) else load8 ?m a)"
    using Suc.IH [OF _ sep] Suc.prems(1) by simp
  show ?case
  proof (cases "a = d")
    case True
    then show ?thesis using IH unat_self_diff_less [OF Suc.prems(1), of d]
      by (simp add: load8_store8)
  next
    case False
    have "s + (a - d) \<noteq> d" if lt: "unat (a - d) < Suc n"
    proof -
      have "0 < unat (a - d)" using False by (simp add: unat_gt_0)
      then show ?thesis using Suc.prems(2) [of "unat (a - d)"] lt by force
    qed
    then show ?thesis
      using IH False unat_diff_Suc [OF Suc.prems(1), of a d]
      by (simp add: load8_store8 algebra_simps)
  qed
qed

lemma load8_copy_down:
  assumes "n \<le> 2 ^ 64"
    and "\<And>k. 0 < k \<Longrightarrow> k < n \<Longrightarrow> s \<noteq> d + of_nat k"
  shows "load8 (copy_down m (d + of_nat n) (s + of_nat n) n) a =
    (if unat (a - d) < n then load8 m (s + (a - d)) else load8 m a)"
  using assms
proof (induction n arbitrary: m)
  case 0
  then show ?case by simp
next
  case (Suc n)
  let ?m = "store8 m (d + of_nat n) (load8 m (s + of_nat n))"
  have eq: "a = d + of_nat n \<longleftrightarrow> unat (a - d) = n"
    using Suc.prems by (intro eq_plus_of_nat_iff) simp
  have IH: "load8 (copy_down ?m (d + of_nat n) (s + of_nat n) n) a =
      (if unat (a - d) < n then load8 ?m (s + (a - d)) else load8 ?m a)"
    using Suc.IH [of ?m] Suc.prems by simp
  have keep: "s + (a - d) \<noteq> d + of_nat n" if lt: "unat (a - d) < n"
  proof
    assume "s + (a - d) = d + of_nat n"
    then have "s = d + (of_nat n - (a - d))" by (simp add: algebra_simps)
    moreover have "of_nat n - (a - d) = of_nat (n - unat (a - d))"
      using lt by (simp add: of_nat_diff)
    ultimately have "s = d + of_nat (n - unat (a - d))" by (simp only:)
    moreover have "0 < n - unat (a - d)" "n - unat (a - d) < Suc n" using lt by auto
    ultimately show False using Suc.prems(2) by blast
  qed
  have step: "copy_down m (d + of_nat (Suc n)) (s + of_nat (Suc n)) (Suc n) =
      copy_down ?m (d + of_nat n) (s + of_nat n) n"
    by (simp add: algebra_simps)
  show ?case
    unfolding step IH using eq keep
    by (auto simp: load8_store8 less_Suc_eq)
qed

lemma load8_memmove:
  assumes src: "unat src + n < 2 ^ 64" and dst: "unat dst + n < 2 ^ 64"
  shows "load8 (memmove m dst src n) a = (if unat (a - dst) < n then load8 m (src + (a - dst)) else load8 m a)"
proof (cases "src < dst \<and> src + of_nat n > dst")
  case True
  have "src \<noteq> dst + of_nat k" if "0 < k" "k < n" for k
  proof -
    have "unat (dst + of_nat k) = unat dst + k"
      using that dst by (intro unat_plus_of_nat) simp
    then show ?thesis using True that by (auto simp: word_less_nat_alt)
  qed
  with True show ?thesis using src by (simp add: memmove_def load8_copy_down)
next
  case False
  have "dst \<noteq> src + of_nat k" if "0 < k" "k < n" for k
  proof
    assume eq: "dst = src + of_nat k"
    have "unat (src + of_nat k) = unat src + k" "unat (src + of_nat n) = unat src + n"
      using that src by (auto intro!: unat_plus_of_nat)
    with eq False that show False by (auto simp: word_less_nat_alt)
  qed
  then have "load8 (copy_up m dst src n) a = (if unat (a - dst) < n then load8 m (src + (a - dst)) else load8 m a)"
    using src by (intro load8_copy_up) auto
  with False show ?thesis by (simp only: memmove_def if_False)
qed

subsection \<open>What they do to whole cells\<close>

definition aligned8 :: "uint64 \<Rightarrow> bool" where
  "aligned8 a \<longleftrightarrow> a AND 7 = 0"

lemma bit_7: "bit (7 :: uint64) n \<longleftrightarrow> n < 3"
proof -
  have "(7 :: uint64) = mask 3" by (simp add: mask_eq_exp_minus_1)
  then have "bit (7 :: uint64) n = bit (mask 3 :: uint64) n" by (rule arg_cong)
  then show ?thesis by (simp only: bit_mask_iff) auto
qed

lemma bit_cell: "bit (cell a) n \<longleftrightarrow> 3 \<le> n \<and> bit a n"
  using bit_imp_le_length [of a n] by (simp only: cell_def bit_and_iff bit_not_iff bit_7) auto

lemma aligned8_bits: "aligned8 a \<longleftrightarrow> (\<forall>n < 3. \<not> bit a n)"
proof
  assume "aligned8 a"
  show "\<forall>n < 3. \<not> bit a n"
  proof (intro allI impI)
    fix n :: nat assume "n < 3"
    have "bit (a AND 7) n = bit (0 :: uint64) n" using \<open>aligned8 a\<close> by (simp only: aligned8_def)
    then show "\<not> bit a n" using \<open>n < 3\<close> by (simp only: bit_and_iff bit_7) simp
  qed
next
  assume *: "\<forall>n < 3. \<not> bit a n"
  show "aligned8 a" unfolding aligned8_def
    by (rule bit_word_eqI) (simp only: bit_and_iff bit_7 bit_0_eq, use * in auto)
qed

lemma small_bits:
  assumes "i < 8" "bit (of_nat i :: uint64) n"
  shows "n < 3"
proof (rule ccontr)
  assume "\<not> n < 3"
  have "take_bit 3 (of_nat i :: uint64) = of_nat (take_bit 3 i)" by (simp add: of_nat_take_bit)
  also have "take_bit 3 i = i" using assms(1) by (simp add: take_bit_nat_eq_self)
  finally have "bit (take_bit 3 (of_nat i :: uint64)) n" using assms(2) by simp
  with \<open>\<not> n < 3\<close> show False by (simp add: bit_take_bit_iff)
qed

lemma cell_lane_plus:
  assumes "aligned8 a" "i < 8"
  shows "cell (a + of_nat i) = a" "lane (a + of_nat i) = 8 * i"
proof -
  have dis: "\<not> bit a n \<or> \<not> bit (of_nat i :: uint64) n" for n
    using assms small_bits [of i n] by (auto simp: aligned8_bits)
  then have sum: "a + of_nat i = a OR of_nat i" by (rule disjunctive_add)
  show "cell (a + of_nat i) = a"
  proof (rule bit_word_eqI)
    fix n assume "n < LENGTH(64)"
    then show "bit (cell (a + of_nat i)) n = bit a n"
      using assms small_bits [of i n]
      by (auto simp: bit_cell sum bit_or_iff aligned8_bits not_less)
  qed
  have "(a + of_nat i) AND 7 = of_nat i"
  proof (rule bit_word_eqI)
    fix n assume "n < LENGTH(64)"
    have "bit ((a + of_nat i) AND 7) n \<longleftrightarrow> (bit a n \<or> bit (of_nat i :: uint64) n) \<and> n < 3"
      by (simp only: sum bit_or_iff bit_and_iff bit_7)
    then show "bit ((a + of_nat i) AND 7) n = bit (of_nat i :: uint64) n"
      using assms small_bits [of i n] by (auto simp: aligned8_bits)
  qed
  then show "lane (a + of_nat i) = 8 * i" using assms(2) by (simp add: lane_def unat_of_nat)
qed

lemma cell_eqI:
  assumes "aligned8 a" and eq: "\<And>i. i < 8 \<Longrightarrow> load8 m (a + of_nat i) = load8 m' (a + of_nat i)"
  shows "m a = m' a"
proof (rule bit_word_eqI)
  fix n assume n: "n < LENGTH(64)"
  let ?i = "n div 8"
  have i: "?i < 8" using n by simp
  have "bit (load8 m (a + of_nat ?i)) (n mod 8) = bit (load8 m' (a + of_nat ?i)) (n mod 8)"
    using eq [OF i] by simp
  then show "bit (m a) n = bit (m' a) n"
    using cell_lane_plus [OF assms(1) i] by (simp add: bit_load8)
qed

text \<open>The cell whose eight bytes are all \<open>b\<close>.\<close>

definition rep8 :: "byte \<Rightarrow> uint64" where
  "rep8 b = fold (\<lambda>i w. w OR push_bit (8 * i) (ucast b)) [0..<8] 0"

lemma load8_rep8:
  assumes "m a = rep8 b" "aligned8 a" "i < 8"
  shows "load8 m (a + of_nat i) = b"
proof (rule bit_word_eqI)
  fix n assume n: "n < LENGTH(8)"
  have up: "[0..<8] = [0, 1, 2, 3, 4, 5, 6, 7 :: nat]" by (simp add: upt_rec)
  have b: "bit b k \<Longrightarrow> k < 8" for k using bit_imp_le_length [of b k] by simp
  have "i = 0 \<or> i = 1 \<or> i = 2 \<or> i = 3 \<or> i = 4 \<or> i = 5 \<or> i = 6 \<or> i = 7" using assms(3) by auto
  then have "bit (rep8 b) (8 * i + n) = bit b n"
    using n by (elim disjE) (auto simp: rep8_def up bit_or_iff bit_push_bit_iff bit_ucast_iff dest: b)
  then show "bit (load8 m (a + of_nat i)) n = bit b n"
    using n by (simp add: bit_load8 cell_lane_plus [OF assms(2,3)] assms(1))
qed

lemma rep8_0 [simp]: "rep8 0 = 0"
  by (simp add: rep8_def upt_rec)

lemma store8_unaligned: "\<not> aligned8 x \<Longrightarrow> store8 m a b x = m x"
proof -
  have "aligned8 (cell a)" by (simp add: aligned8_bits bit_cell)
  then show "\<not> aligned8 x \<Longrightarrow> store8 m a b x = m x" by (auto simp: store8_def)
qed

lemma aligned8_unat: "aligned8 a \<longleftrightarrow> 8 dvd unat a"
proof -
  have "a AND 7 = a AND mask 3" by (simp add: mask_eq_exp_minus_1)
  also have "\<dots> = take_bit 3 a" by (simp only: take_bit_eq_mask)
  finally have "aligned8 a \<longleftrightarrow> unat (take_bit 3 a) = 0" by (simp only: aligned8_def unat_eq_0)
  also have "unat (take_bit 3 a) = unat a mod 8" by (simp add: take_bit_eq_mod unat_mod_distrib)
  finally show ?thesis by (simp add: dvd_eq_mod_eq_0)
qed

lemma aligned8_uint: "aligned8 a \<longleftrightarrow> 8 dvd uint a"
proof -
  have "int 8 dvd int (unat a) \<longleftrightarrow> 8 dvd unat a" by (rule int_dvd_int_iff)
  then show ?thesis by (simp add: aligned8_unat)
qed

lemma aligned8_diff: "aligned8 a \<Longrightarrow> aligned8 b \<Longrightarrow> aligned8 (a - b)"
proof -
  assume "aligned8 a" "aligned8 b"
  then have "8 dvd uint a - uint b" by (simp add: aligned8_uint)
  moreover have "(8 :: int) dvd 2 ^ 64" by simp
  ultimately have "8 dvd (uint a - uint b) mod 2 ^ 64" by (rule dvd_mod)
  then show "aligned8 (a - b)" by (simp add: aligned8_uint uint_word_ariths)
qed

lemma unat_plus_lane:
  assumes "aligned8 y" "i < 8"
  shows "unat (y + of_nat i) = unat y + i"
proof -
  obtain k where k: "unat y = 8 * k" using assms(1) by (auto simp: aligned8_unat)
  have "8 * k < 2 ^ 64" using k unsigned_less [of y, where 'a = nat] by simp
  then show ?thesis using k assms(2) by (intro unat_plus_of_nat) simp
qed

lemma range_cell:
  assumes "aligned8 x" "aligned8 d" "8 dvd n" "i < 8"
  shows "unat (x + of_nat i - d) < n \<longleftrightarrow> unat (x - d) < n"
proof -
  have al: "aligned8 (x - d)" using assms by (intro aligned8_diff)
  then obtain k where k: "unat (x - d) = 8 * k" by (auto simp: aligned8_unat)
  obtain j where j: "n = 8 * j" using assms(3) by auto
  have "x + of_nat i - d = (x - d) + of_nat i" by simp
  then have "unat (x + of_nat i - d) = 8 * k + i" using unat_plus_lane [OF al assms(4)] k by (simp only:)
  with k j assms(4) show ?thesis by simp arith
qed

lemma memset_cell:
  assumes "aligned8 x" "aligned8 dst" "8 dvd n" "n \<le> 2 ^ 64"
  shows "memset m dst c n x = (if unat (x - dst) < n then rep8 (ucast c) else m x)"
proof -
  let ?m = "if unat (x - dst) < n then m(x := rep8 (ucast c)) else m"
  have "memset m dst c n x = ?m x"
  proof (rule cell_eqI [OF assms(1), of "memset m dst c n" ?m])
    fix i :: nat assume i: "i < 8"
    show "load8 (memset m dst c n) (x + of_nat i) = load8 ?m (x + of_nat i)"
      using range_cell [OF assms(1-3) i] load8_rep8 [of "m(x := rep8 (ucast c))" x "ucast c" i] i assms
      by (simp add: load8_memset)
  qed
  then show ?thesis by simp
qed

lemma memmove_cell:
  assumes "aligned8 x" "aligned8 dst" "aligned8 src" "8 dvd n"
    and "unat src + n < 2 ^ 64" "unat dst + n < 2 ^ 64"
  shows "memmove m dst src n x = (if unat (x - dst) < n then m (src + (x - dst)) else m x)"
proof -
  let ?m = "if unat (x - dst) < n then m(x := m (src + (x - dst))) else m"
  have al: "aligned8 (src + (x - dst))"
    using aligned8_diff [of src "dst - x"] aligned8_diff [of dst x] assms by (simp add: algebra_simps)
  have "memmove m dst src n x = ?m x"
  proof (rule cell_eqI [OF assms(1), of "memmove m dst src n" ?m])
    fix i :: nat assume i: "i < 8"
    have eq: "src + (x + of_nat i - dst) = src + (x - dst) + of_nat i" by simp
    have "load8 m (src + (x + of_nat i - dst)) = load8 (m(x := m (src + (x - dst)))) (x + of_nat i)"
      unfolding eq load8_def cell_lane_plus [OF al i] cell_lane_plus [OF assms(1) i] by simp
    then show "load8 (memmove m dst src n) (x + of_nat i) = load8 ?m (x + of_nat i)"
      using range_cell [OF assms(1,2,4) i] assms by (simp add: load8_memmove)
  qed
  then show ?thesis by simp
qed

section \<open>String functions of kernel/string.c\<close>

text \<open>
  Strings live in byte arrays, here lists; reading or writing past the end of the array is \<open>None\<close>.
\<close>

fun strlen :: "byte list \<Rightarrow> nat option" where
  "strlen [] = None"
| "strlen (c # cs) = (if c = 0 then Some 0 else map_option Suc (strlen cs))"

fun strncmp :: "byte list \<Rightarrow> byte list \<Rightarrow> nat \<Rightarrow> int option" where
  "strncmp p q 0 = Some 0"
| "strncmp (a # p) (b # q) (Suc n) =
     (if a \<noteq> 0 \<and> a = b then strncmp p q n else Some (uint a - uint b))"
| "strncmp p q (Suc n) = None"

fun strncpy :: "byte list \<Rightarrow> nat \<Rightarrow> byte list option" where
  "strncpy t 0 = Some []"
| "strncpy [] (Suc n) = None"
| "strncpy (c # t) (Suc n) =
     (if c = 0 then Some (0 # replicate n 0) else map_option (Cons c) (strncpy t n))"

text \<open>\<open>safestrcpy s t n\<close>: the new contents of the destination array \<open>s\<close>.\<close>

fun safestrcpy :: "byte list \<Rightarrow> byte list \<Rightarrow> nat \<Rightarrow> byte list option" where
  "safestrcpy s t 0 = Some s"
| "safestrcpy (_ # s) t (Suc 0) = Some (0 # s)"
| "safestrcpy (_ # s) (c # t) (Suc (Suc n)) =
     (if c = 0 then (case s of [] \<Rightarrow> None | _ # s' \<Rightarrow> Some (0 # 0 # s'))
      else map_option (Cons c) (safestrcpy s t (Suc n)))"
| "safestrcpy s t n = None"

text \<open>The C string held by an array: what comes before the first NUL.\<close>

definition cstr :: "byte list \<Rightarrow> byte list" where
  "cstr bs = takeWhile (\<lambda>b. b \<noteq> 0) bs"

lemma strlen_cstr: "0 \<in> set bs \<Longrightarrow> strlen bs = Some (length (cstr bs))"
  by (induction bs) (auto simp: cstr_def)

lemma cstr_Nil [simp]: "cstr [] = []"
  by (simp add: cstr_def)

lemma cstr_Cons [simp]: "cstr (c # cs) = (if c = 0 then [] else c # cstr cs)"
  by (simp add: cstr_def)

lemma strncmp_refl: "0 \<in> set p \<or> n \<le> length p \<Longrightarrow> strncmp p p n = Some 0"
proof (induction p arbitrary: n)
  case Nil
  then show ?case by simp
next
  case (Cons a p)
  then show ?case by (cases n) auto
qed

lemma strncmp_zero_iff:
  assumes "0 \<in> set p \<or> n \<le> length p" and "0 \<in> set q \<or> n \<le> length q"
  shows "strncmp p q n = Some 0 \<longleftrightarrow> take n (cstr p) = take n (cstr q)"
  using assms
proof (induction p q n rule: strncmp.induct)
  case (2 a p b q n)
  then show ?case by (cases "a = b") (auto simp: word_uint_eq_iff [symmetric])
qed auto

lemma strncpy_length: "strncpy t n = Some bs \<Longrightarrow> length bs = n"
  by (induction t n arbitrary: bs rule: strncpy.induct) (auto split: if_splits)

lemma strncpy_total: "0 \<in> set t \<Longrightarrow> \<exists>bs. strncpy t n = Some bs"
  by (induction t n rule: strncpy.induct) auto

lemma strncpy_cstr: "strncpy t n = Some bs \<Longrightarrow> take n (cstr bs) = take n (cstr t)"
  by (induction t n arbitrary: bs rule: strncpy.induct) (auto split: if_splits)

lemma safestrcpy_cstr:
  assumes "0 \<in> set t" and "0 < n" and "n \<le> length s"
  shows "\<exists>r. safestrcpy s t n = Some r \<and> length r = length s \<and>
    0 \<in> set (take n r) \<and> cstr r = take (n - 1) (cstr t)"
  using assms
proof (induction s t n rule: safestrcpy.induct)
  case (3 x s c t n)
  show ?case
  proof (cases "c = 0")
    case True
    with 3 show ?thesis by (cases s) auto
  next
    case False
    with 3 obtain r where "safestrcpy s t (Suc n) = Some r" "length r = length s"
      "0 \<in> set (take (Suc n) r)" "cstr r = take n (cstr t)" by auto
    with False show ?thesis by auto
  qed
qed auto

end
