(* ===== verification/Xv6_Spinlock.thy ===== *)
theory Xv6_Spinlock
  imports Xv6_Prelude
begin

text \<open>
  Spin locks (\<^verbatim>\<open>kernel/spinlock.c\<close>).

  The first part follows the file for any number of harts: every lock word, every hart's
  \<open>struct cpu\<close> fields \<open>noff\<close> and \<open>intena\<close> and its interrupt-enable bit \<open>SSTATUS.SIE\<close> are state;
  \<open>h\<close> is the hart that runs (\<open>r_tp()\<close>). The second part interleaves the memory accesses of all
  harts and proves mutual exclusion. The third part is the view one CPU has of the locks it holds,
  which the rest of the kernel model uses, with the proof that the code implements it.
\<close>

datatype slid = SBuf nat | SInode nat

datatype lockid =
    LKmem | LPid | LTid | LWait | LProc nat | LThread nat nat | LTicks | LBsem nat
  | LSleep slid | LBcache | LLog | LItable | LFtable | LPipe uint64 | LCons | LUart | LPr | LVdisk

section \<open>kernel/spinlock.c\<close>

record spinlock =
  lk_locked :: bool
  lk_cpu :: "nat option"

record cpu =
  c_noff :: nat
  c_intena :: bool

record smp =
  locks :: "lockid \<Rightarrow> spinlock"
  cpus :: "nat \<Rightarrow> cpu"
  sie :: "nat \<Rightarrow> bool"

definition intr_get :: "nat \<Rightarrow> 'z smp_scheme \<Rightarrow> bool" where
  "intr_get h s = sie s h"

definition intr_off :: "nat \<Rightarrow> 'z smp_scheme \<Rightarrow> 'z smp_scheme" where
  "intr_off h s = s\<lparr>sie := (sie s)(h := False)\<rparr>"

definition intr_on :: "nat \<Rightarrow> 'z smp_scheme \<Rightarrow> 'z smp_scheme" where
  "intr_on h s = s\<lparr>sie := (sie s)(h := True)\<rparr>"

definition initlock :: "lockid \<Rightarrow> 'z smp_scheme \<Rightarrow> 'z smp_scheme" where
  "initlock l s = s\<lparr>locks := (locks s)(l := \<lparr>lk_locked = False, lk_cpu = None\<rparr>)\<rparr>"

definition holding :: "nat \<Rightarrow> lockid \<Rightarrow> 'z smp_scheme \<Rightarrow> bool" where
  "holding h l s \<longleftrightarrow> lk_locked (locks s l) \<and> lk_cpu (locks s l) = Some h"

definition push_off :: "nat \<Rightarrow> 'z smp_scheme \<Rightarrow> 'z smp_scheme" where
  "push_off h s =
     (let old = intr_get h s; s1 = intr_off h s; c = cpus s1 h;
          c1 = (if c_noff c = 0 then c\<lparr>c_intena := old\<rparr> else c)
      in s1\<lparr>cpus := (cpus s1)(h := c1\<lparr>c_noff := c_noff c1 + 1\<rparr>)\<rparr>)"

definition pop_off :: "nat \<Rightarrow> ('z smp_scheme, unit) kmon" where
  "pop_off h = (\<lambda>s.
     let c = cpus s h in
     if intr_get h s then Panic ''pop_off - interruptible''
     else if c_noff c < 1 then Panic ''pop_off''
     else let c1 = c\<lparr>c_noff := c_noff c - 1\<rparr>; s1 = s\<lparr>cpus := (cpus s)(h := c1)\<rparr>
          in Done () (if c_noff c1 = 0 \<and> c_intena c1 then intr_on h s1 else s1))"

text \<open>
  \<open>acquire\<close> in three pieces: up to the loop, one \<open>__sync_lock_test_and_set\<close> (which returns the old
  value), and the assignment after the loop. A hart that finds the word set keeps swapping 1 for 1:
  alone, it spins forever.
\<close>

definition acquire_enter :: "nat \<Rightarrow> lockid \<Rightarrow> ('z smp_scheme, unit) kmon" where
  "acquire_enter h l =
     bnd (modify (push_off h)) (\<lambda>_.
     bnd (gets (holding h l)) (\<lambda>mine.
     if mine then panic ''acquire'' else ret ()))"

definition test_and_set :: "lockid \<Rightarrow> ('z smp_scheme, bool) kmon" where
  "test_and_set l = (\<lambda>s. Done (lk_locked (locks s l))
     (s\<lparr>locks := (locks s)(l := (locks s l)\<lparr>lk_locked := True\<rparr>)\<rparr>))"

definition set_owner :: "lockid \<Rightarrow> nat option \<Rightarrow> 'z smp_scheme \<Rightarrow> 'z smp_scheme" where
  "set_owner l w s = s\<lparr>locks := (locks s)(l := (locks s l)\<lparr>lk_cpu := w\<rparr>)\<rparr>"

definition lock_clear :: "lockid \<Rightarrow> 'z smp_scheme \<Rightarrow> 'z smp_scheme" where
  "lock_clear l s = s\<lparr>locks := (locks s)(l := (locks s l)\<lparr>lk_locked := False\<rparr>)\<rparr>"

definition acquire :: "nat \<Rightarrow> lockid \<Rightarrow> ('z smp_scheme, unit) kmon" where
  "acquire h l =
     bnd (acquire_enter h l) (\<lambda>_.
     bnd (test_and_set l) (\<lambda>old.
     if old then spins else modify (set_owner l (Some h))))"

definition release :: "nat \<Rightarrow> lockid \<Rightarrow> ('z smp_scheme, unit) kmon" where
  "release h l =
     bnd (gets (holding h l)) (\<lambda>mine.
     if \<not> mine then panic ''release''
     else bnd (modify (set_owner l None)) (\<lambda>_.
          bnd (modify (lock_clear l)) (\<lambda>_.
          pop_off h)))"

lemmas spin_defs = intr_get_def intr_off_def intr_on_def holding_def push_off_def pop_off_def
  acquire_enter_def test_and_set_def set_owner_def lock_clear_def acquire_def release_def Let_def

text \<open>Matched \<open>push_off\<close>/\<open>pop_off\<close> leave the interrupt-enable bit and the depth as they were.\<close>

lemma push_pop_off:
  assumes "c_noff (cpus s h) > 0 \<longrightarrow> \<not> sie s h"
  shows "\<exists>t. pop_off h (push_off h s) = Done () t \<and> sie t = sie s \<and>
    c_noff (cpus t h) = c_noff (cpus s h) \<and> locks t = locks s"
  using assms by (auto simp: spin_defs fun_upd_idem)

section \<open>Interleaving all harts\<close>

text \<open>
  Where a hart is inside the lock code: outside of it, about to swap, swapped but not yet recorded
  as owner, past \<open>lk->cpu = 0\<close> in \<open>release\<close>, or past the store that frees the word.
\<close>

datatype lkpc = Run | Swapping lockid | Won lockid | Leaving lockid | Popping

record lksys = smp +
  pc :: "nat \<Rightarrow> lkpc"

definition lksys_init :: lksys where
  "lksys_init = \<lparr>locks = (\<lambda>_. \<lparr>lk_locked = False, lk_cpu = None\<rparr>),
     cpus = (\<lambda>_. \<lparr>c_noff = 0, c_intena = False\<rparr>), sie = (\<lambda>_. False), pc = (\<lambda>_. Run)\<rparr>"

abbreviation at :: "nat \<Rightarrow> lkpc \<Rightarrow> lksys \<Rightarrow> lksys" where
  "at h p s \<equiv> s\<lparr>pc := (pc s)(h := p)\<rparr>"

text \<open>
  One rule per shared-memory access of the code; \<open>intr\<close> is code outside the locks that switches
  interrupts on or off, which the kernel does only with no lock held.
\<close>

inductive lkstep :: "lksys \<Rightarrow> lksys \<Rightarrow> bool" where
  enter: "pc s h = Run \<Longrightarrow> acquire_enter h l s = Done () t \<Longrightarrow> lkstep s (at h (Swapping l) t)"
| lose: "pc s h = Swapping l \<Longrightarrow> test_and_set l s = Done True t \<Longrightarrow> lkstep s t"
| win: "pc s h = Swapping l \<Longrightarrow> test_and_set l s = Done False t \<Longrightarrow> lkstep s (at h (Won l) t)"
| own: "pc s h = Won l \<Longrightarrow> lkstep s (at h Run (set_owner l (Some h) s))"
| leave: "pc s h = Run \<Longrightarrow> holding h l s \<Longrightarrow> lkstep s (at h (Leaving l) (set_owner l None s))"
| clear: "pc s h = Leaving l \<Longrightarrow> lkstep s (at h Popping (lock_clear l s))"
| pop: "pc s h = Popping \<Longrightarrow> pop_off h s = Done () t \<Longrightarrow> lkstep s (at h Run t)"
| intr: "pc s h = Run \<Longrightarrow> c_noff (cpus s h) = 0 \<Longrightarrow> lkstep s (s\<lparr>sie := (sie s)(h := b)\<rparr>)"

inductive lkreach :: "lksys \<Rightarrow> bool" where
  start: "lkreach lksys_init"
| step: "lkreach s \<Longrightarrow> lkstep s t \<Longrightarrow> lkreach t"

text \<open>Hart \<open>h\<close> is in the critical section of \<open>l\<close>: from the swap that won to the store that frees.\<close>

definition inside :: "lksys \<Rightarrow> nat \<Rightarrow> lockid \<Rightarrow> bool" where
  "inside s h l \<longleftrightarrow> pc s h = Won l \<or> pc s h = Leaving l \<or> holding h l s"

definition pending :: "lkpc \<Rightarrow> nat" where
  "pending p = (case p of Swapping _ \<Rightarrow> 1 | Popping \<Rightarrow> 1 | _ \<Rightarrow> 0)"

definition lk_inv :: "lksys \<Rightarrow> bool" where
  "lk_inv s \<longleftrightarrow>
     (\<forall>h l. inside s h l \<longrightarrow> lk_locked (locks s l)) \<and>
     (\<forall>h h' l. inside s h l \<longrightarrow> inside s h' l \<longrightarrow> h = h') \<and>
     (\<forall>h l. pc s h = Won l \<or> pc s h = Leaving l \<longrightarrow> lk_cpu (locks s l) = None) \<and>
     (\<forall>l. \<not> lk_locked (locks s l) \<longrightarrow> lk_cpu (locks s l) = None) \<and>
     (\<forall>h. finite {l. inside s h l}) \<and>
     (\<forall>h. c_noff (cpus s h) = card {l. inside s h l} + pending (pc s h)) \<and>
     (\<forall>h. 0 < c_noff (cpus s h) \<longrightarrow> \<not> sie s h)"

lemma lk_invD:
  assumes "lk_inv s"
  shows lk_inv_locked: "inside s h l \<Longrightarrow> lk_locked (locks s l)"
    and lk_inv_unique: "inside s h l \<Longrightarrow> inside s h' l \<Longrightarrow> h = h'"
    and lk_inv_noowner: "pc s h = Won l \<or> pc s h = Leaving l \<Longrightarrow> lk_cpu (locks s l) = None"
    and lk_inv_free: "\<not> lk_locked (locks s l) \<Longrightarrow> lk_cpu (locks s l) = None"
    and lk_inv_finite: "finite {l. inside s h l}"
    and lk_inv_noff: "c_noff (cpus s h) = card {l. inside s h l} + pending (pc s h)"
    and lk_inv_sie: "0 < c_noff (cpus s h) \<Longrightarrow> \<not> sie s h"
  using assms unfolding lk_inv_def by blast+

lemma lk_inv_init: "lk_inv lksys_init"
  by (simp add: lk_inv_def lksys_init_def inside_def holding_def pending_def)

text \<open>A step that leaves every critical section as it was keeps the invariant.\<close>

lemma lk_inv_same_inside:
  assumes inv: "lk_inv s" and ins: "\<And>h' l'. inside t h' l' = inside s h' l'"
    and locked: "\<And>l'. lk_locked (locks t l') = lk_locked (locks s l')"
    and owner: "\<And>h' l'. pc t h' = Won l' \<or> pc t h' = Leaving l' \<Longrightarrow> lk_cpu (locks t l') = None"
    and free: "\<And>l'. \<not> lk_locked (locks t l') \<Longrightarrow> lk_cpu (locks t l') = None"
    and here: "c_noff (cpus t h) = card {l. inside s h l} + pending (pc t h)"
    and here_sie: "0 < c_noff (cpus t h) \<Longrightarrow> \<not> sie t h"
    and other: "\<And>h'. h' \<noteq> h \<Longrightarrow> cpus t h' = cpus s h' \<and> sie t h' = sie s h' \<and> pc t h' = pc s h'"
  shows "lk_inv t"
  unfolding lk_inv_def ins locked
proof (intro conjI allI impI)
  fix h'
  show "c_noff (cpus t h') = card {l. inside s h' l} + pending (pc t h')"
    using here other [of h'] lk_inv_noff [OF inv, of h'] by (cases "h' = h") auto
  show "\<not> sie t h'" if "0 < c_noff (cpus t h')"
    using here_sie other [of h'] lk_inv_sie [OF inv, of h'] that by (cases "h' = h") auto
qed (use lk_inv_locked [OF inv] lk_inv_unique [OF inv] lk_inv_finite [OF inv] owner free locked in blast)+

lemma step_enter:
  assumes inv: "lk_inv s" and pc: "pc s h = Run" and e: "acquire_enter h l s = Done () t"
  shows "lk_inv (at h (Swapping l) t)"
proof -
  let ?u = "at h (Swapping l) t"
  from e have t: "t = push_off h s"
    by (auto simp: acquire_enter_def split: if_splits)
  have parts: "locks ?u = locks s" "sie ?u = (sie s)(h := False)" "pc ?u = (pc s)(h := Swapping l)"
    "c_noff (cpus ?u h) = Suc (c_noff (cpus s h))" "\<And>h'. h' \<noteq> h \<Longrightarrow> cpus ?u h' = cpus s h'"
    by (auto simp: t spin_defs)
  show ?thesis
  proof (rule lk_inv_same_inside [OF inv, where h = h])
    fix h' l' show "inside ?u h' l' = inside s h' l'"
      using pc unfolding inside_def holding_def parts by auto
  next
    fix h' l' assume "pc ?u h' = Won l' \<or> pc ?u h' = Leaving l'"
    then show "lk_cpu (locks ?u l') = None"
      using lk_inv_noowner [OF inv, of h' l'] unfolding parts by (auto split: if_splits)
  next
    show "c_noff (cpus ?u h) = card {l. inside s h l} + pending (pc ?u h)"
      using lk_inv_noff [OF inv, of h] pc unfolding parts by (simp add: pending_def)
  next
    fix l' assume "\<not> lk_locked (locks ?u l')"
    then show "lk_cpu (locks ?u l') = None" unfolding parts by (rule lk_inv_free [OF inv])
  qed (use parts in auto)
qed

lemma step_win:
  assumes inv: "lk_inv s" and pc: "pc s h = Swapping l" and e: "test_and_set l s = Done False t"
  shows "lk_inv (at h (Won l) t)"
proof -
  let ?u = "at h (Won l) t"
  from e have free: "\<not> lk_locked (locks s l)"
    and t: "t = s\<lparr>locks := (locks s)(l := (locks s l)\<lparr>lk_locked := True\<rparr>)\<rparr>"
    by (auto simp: test_and_set_def)
  have none: "\<not> inside s h' l" for h'
    using free lk_inv_locked [OF inv] by blast
  have cpu: "lk_cpu (locks s l) = None" by (rule lk_inv_free [OF inv free])
  have ins: "inside ?u h' l' \<longleftrightarrow> inside s h' l' \<or> (h' = h \<and> l' = l)" for h' l'
    using pc cpu by (auto simp: t inside_def holding_def)
  have set_h: "{l'. inside ?u h l'} = insert l {l'. inside s h l'}" by (auto simp: ins)
  have set_o: "h' \<noteq> h \<Longrightarrow> {l'. inside ?u h' l'} = {l'. inside s h' l'}" for h' by (auto simp: ins)
  have noff: "c_noff (cpus ?u h') = card {l. inside ?u h' l} + pending (pc ?u h')" for h'
  proof (cases "h' = h")
    case True
    with set_h none lk_inv_noff [OF inv, of h] lk_inv_finite [OF inv, of h] pc show ?thesis
      by (simp add: t pending_def)
  next
    case False
    with set_o [OF False] lk_inv_noff [OF inv, of h'] show ?thesis by (simp add: t)
  qed
  have fin: "finite {l. inside ?u h' l}" for h'
    using set_h set_o [of h'] lk_inv_finite [OF inv] by (cases "h' = h") auto
  show ?thesis
    unfolding lk_inv_def
  proof (intro conjI allI impI)
    fix h' l' assume "inside ?u h' l'"
    then have "inside s h' l' \<or> l' = l" unfolding ins by blast
    then show "lk_locked (locks ?u l')" using lk_inv_locked [OF inv, of h' l'] by (auto simp: t)
  next
    fix h1 h2 l' assume "inside ?u h1 l'" "inside ?u h2 l'"
    then show "h1 = h2" using lk_inv_unique [OF inv] none by (auto simp: ins)
  next
    fix h' l' assume "pc ?u h' = Won l' \<or> pc ?u h' = Leaving l'"
    then show "lk_cpu (locks ?u l') = None"
      using lk_inv_noowner [OF inv, of h' l'] cpu by (auto simp: t split: if_splits)
  next
    fix l' assume "\<not> lk_locked (locks ?u l')"
    then show "lk_cpu (locks ?u l') = None"
      using lk_inv_free [OF inv, of l'] by (auto simp: t split: if_splits)
  next
    fix h' assume "0 < c_noff (cpus ?u h')"
    then show "\<not> sie ?u h'" using lk_inv_sie [OF inv, of h'] by (simp add: t)
  qed (rule fin noff)+
qed

lemma step_own:
  assumes inv: "lk_inv s" and pc: "pc s h = Won l"
  shows "lk_inv (at h Run (set_owner l (Some h) s))"
proof -
  have mine: "inside s h l" using pc by (simp add: inside_def)
  have locked: "lk_locked (locks s l)" by (rule lk_inv_locked [OF inv mine])
  have cpu: "lk_cpu (locks s l) = None" using lk_inv_noowner [OF inv] pc by blast
  have only: "inside s h' l \<Longrightarrow> h' = h" for h' using lk_inv_unique [OF inv _ mine] by blast
  have other: "pc s h' = Won l \<or> pc s h' = Leaving l \<Longrightarrow> h' = h" for h'
    using only [of h'] by (auto simp: inside_def)
  let ?u = "at h Run (set_owner l (Some h) s)"
  have parts: "locks ?u = (locks s)(l := (locks s l)\<lparr>lk_cpu := Some h\<rparr>)" "sie ?u = sie s"
    "pc ?u = (pc s)(h := Run)" "cpus ?u = cpus s"
    by (simp_all add: set_owner_def)
  show ?thesis
  proof (rule lk_inv_same_inside [OF inv, where h = h])
    fix h' l' show "inside ?u h' l' = inside s h' l'"
      using pc locked cpu unfolding inside_def holding_def parts by auto
  next
    fix h' l' assume "pc ?u h' = Won l' \<or> pc ?u h' = Leaving l'"
    then have *: "h' \<noteq> h" "pc s h' = Won l' \<or> pc s h' = Leaving l'"
      unfolding parts by (auto split: if_splits)
    then have "l' \<noteq> l" using other by blast
    then show "lk_cpu (locks ?u l') = None"
      using lk_inv_noowner [OF inv *(2)] unfolding parts by simp
  next
    fix l' assume "\<not> lk_locked (locks ?u l')"
    then show "lk_cpu (locks ?u l') = None"
      using lk_inv_free [OF inv, of l'] locked unfolding parts by (auto split: if_splits)
  next
    show "c_noff (cpus ?u h) = card {l. inside s h l} + pending (pc ?u h)"
      using lk_inv_noff [OF inv, of h] pc unfolding parts by (simp add: pending_def)
  qed (use parts lk_inv_sie [OF inv, of h] in auto)
qed

lemma step_leave:
  assumes inv: "lk_inv s" and pc: "pc s h = Run" and hold: "holding h l s"
  shows "lk_inv (at h (Leaving l) (set_owner l None s))"
proof -
  let ?u = "at h (Leaving l) (set_owner l None s)"
  have parts: "locks ?u = (locks s)(l := (locks s l)\<lparr>lk_cpu := None\<rparr>)" "sie ?u = sie s"
    "pc ?u = (pc s)(h := Leaving l)" "cpus ?u = cpus s"
    by (simp_all add: set_owner_def)
  show ?thesis
  proof (rule lk_inv_same_inside [OF inv, where h = h])
    fix h' l' show "inside ?u h' l' = inside s h' l'"
      using pc hold unfolding inside_def holding_def parts by auto
  next
    fix h' l' assume "pc ?u h' = Won l' \<or> pc ?u h' = Leaving l'"
    then show "lk_cpu (locks ?u l') = None"
      using lk_inv_noowner [OF inv, of h' l'] unfolding parts by (auto split: if_splits)
  next
    fix l' assume "\<not> lk_locked (locks ?u l')"
    then show "lk_cpu (locks ?u l') = None"
      using lk_inv_free [OF inv, of l'] unfolding parts by (auto split: if_splits)
  next
    show "c_noff (cpus ?u h) = card {l. inside s h l} + pending (pc ?u h)"
      using lk_inv_noff [OF inv, of h] pc unfolding parts by (simp add: pending_def)
  qed (use parts lk_inv_sie [OF inv, of h] in auto)
qed

lemma step_clear:
  assumes inv: "lk_inv s" and pc: "pc s h = Leaving l"
  shows "lk_inv (at h Popping (lock_clear l s))"
proof -
  let ?u = "at h Popping (lock_clear l s)"
  have mine: "inside s h l" using pc by (simp add: inside_def)
  have cpu: "lk_cpu (locks s l) = None" using lk_inv_noowner [OF inv] pc by blast
  have only: "inside s h' l \<Longrightarrow> h' = h" for h' using lk_inv_unique [OF inv _ mine] by blast
  have away: "\<not> inside s h' l" if "h' \<noteq> h" for h' using only [of h'] that by blast
  have ins: "inside ?u h' l' \<longleftrightarrow> inside s h' l' \<and> l' \<noteq> l" for h' l'
  proof (cases "h' = h")
    case True
    then show ?thesis using pc cpu by (auto simp: inside_def holding_def lock_clear_def)
  next
    case False
    then have "pc s h' \<noteq> Won l" "pc s h' \<noteq> Leaving l" using away [of h'] by (auto simp: inside_def)
    with False cpu show ?thesis by (cases "l' = l") (auto simp: inside_def holding_def lock_clear_def)
  qed
  have set_h: "{l'. inside ?u h l'} = {l'. inside s h l'} - {l}" by (auto simp: ins)
  have set_o: "h' \<noteq> h \<Longrightarrow> {l'. inside ?u h' l'} = {l'. inside s h' l'}" for h'
    using only [of h'] by (auto simp: ins)
  have noff: "c_noff (cpus ?u h') = card {l. inside ?u h' l} + pending (pc ?u h')" for h'
  proof (cases "h' = h")
    case True
    have "0 < card {l. inside s h l}"
      using mine lk_inv_finite [OF inv, of h] by (auto simp: card_gt_0_iff)
    with True set_h mine lk_inv_noff [OF inv, of h] pc show ?thesis
      by (simp add: lock_clear_def pending_def)
  next
    case False
    with set_o [OF False] lk_inv_noff [OF inv, of h'] show ?thesis by (simp add: lock_clear_def)
  qed
  have fin: "finite {l. inside ?u h' l}" for h'
    using set_h set_o [of h'] lk_inv_finite [OF inv] by (cases "h' = h") auto
  show ?thesis
    unfolding lk_inv_def
  proof (intro conjI allI impI)
    fix h' l' assume "inside ?u h' l'"
    then have "inside s h' l' \<and> l' \<noteq> l" unfolding ins .
    then show "lk_locked (locks ?u l')" using lk_inv_locked [OF inv, of h' l'] by (auto simp: lock_clear_def)
  next
    fix h1 h2 l' assume "inside ?u h1 l'" "inside ?u h2 l'"
    then show "h1 = h2" using lk_inv_unique [OF inv] by (auto simp: ins)
  next
    fix h' l' assume "pc ?u h' = Won l' \<or> pc ?u h' = Leaving l'"
    then show "lk_cpu (locks ?u l') = None"
      using lk_inv_noowner [OF inv, of h' l'] cpu by (auto simp: lock_clear_def split: if_splits)
  next
    fix l' assume "\<not> lk_locked (locks ?u l')"
    then show "lk_cpu (locks ?u l') = None"
      using lk_inv_free [OF inv, of l'] cpu by (auto simp: lock_clear_def split: if_splits)
  next
    fix h' assume "0 < c_noff (cpus ?u h')"
    then show "\<not> sie ?u h'" using lk_inv_sie [OF inv, of h'] by (simp add: lock_clear_def)
  qed (rule fin noff)+
qed

lemma step_pop:
  assumes inv: "lk_inv s" and pc: "pc s h = Popping" and e: "pop_off h s = Done () t"
  shows "lk_inv (at h Run t)"
proof -
  let ?u = "at h Run t"
  have noff: "c_noff (cpus s h) = Suc (card {l. inside s h l})"
    using lk_inv_noff [OF inv, of h] pc by (simp add: pending_def)
  have parts: "locks ?u = locks s" "pc ?u = (pc s)(h := Run)"
    "c_noff (cpus ?u h) = c_noff (cpus s h) - 1"
    "\<And>h'. h' \<noteq> h \<Longrightarrow> cpus ?u h' = cpus s h' \<and> sie ?u h' = sie s h'"
    "0 < c_noff (cpus ?u h) \<Longrightarrow> \<not> sie ?u h"
    using e by (auto simp: spin_defs split: if_splits)
  show ?thesis
  proof (rule lk_inv_same_inside [OF inv, where h = h])
    fix h' l' show "inside ?u h' l' = inside s h' l'"
      using pc unfolding inside_def holding_def parts by auto
  next
    fix h' l' assume "pc ?u h' = Won l' \<or> pc ?u h' = Leaving l'"
    then show "lk_cpu (locks ?u l') = None"
      using lk_inv_noowner [OF inv, of h' l'] unfolding parts by (auto split: if_splits)
  next
    fix l' assume "\<not> lk_locked (locks ?u l')"
    then show "lk_cpu (locks ?u l') = None" unfolding parts by (rule lk_inv_free [OF inv])
  next
    show "c_noff (cpus ?u h) = card {l. inside s h l} + pending (pc ?u h)"
      unfolding parts noff by (simp add: pending_def)
  qed (use parts in auto)
qed

lemma lkstep_inv: "lkstep s t \<Longrightarrow> lk_inv s \<Longrightarrow> lk_inv t"
proof (induction rule: lkstep.induct)
  case (lose s h l t)
  then have "t = s" by (auto simp: test_and_set_def fun_upd_idem)
  with lose show ?case by simp
next
  case (intr s h b)
  note inv = \<open>lk_inv s\<close>
  have *: "inside (s\<lparr>sie := (sie s)(h := b)\<rparr>) = inside s" by (auto simp: inside_def holding_def fun_eq_iff)
  have "card {l. inside s h l} = 0" "pending Run = 0"
    using lk_inv_noff [OF inv, of h] intr by (simp_all add: pending_def)
  then show ?case
    by (intro lk_inv_same_inside [OF inv, where h = h])
       (simp_all add: * intr lk_inv_noowner [OF inv] lk_inv_free [OF inv])
qed (blast intro: step_enter step_win step_own step_leave step_clear step_pop)+

lemma lkreach_inv: "lkreach s \<Longrightarrow> lk_inv s"
  by (induction rule: lkreach.induct) (auto intro: lk_inv_init lkstep_inv)

section \<open>The locks one CPU holds\<close>

text \<open>
  The rest of the model describes what one CPU does between the points where others can interfere,
  so it only needs the locks this CPU holds. \<open>noff\<close> is then their number, and interrupts are off
  exactly when the list is not empty. \<open>cproc\<close> and \<open>cthread\<close> are \<open>c->proc\<close> and \<open>c->thread\<close> of this CPU, as indices into
  \<open>proc\<close> and its \<open>thread_tbl\<close>.
\<close>

record mach =
  held :: "lockid list"
  cproc :: "nat option"
  cthread :: "(nat \<times> nat) option"

definition lock_acquire :: "lockid \<Rightarrow> ('z mach_scheme, unit) kmon" where
  "lock_acquire l = (\<lambda>s. if l \<in> set (held s) then Panic ''acquire'' else Done () (s\<lparr>held := l # held s\<rparr>))"

definition lock_release :: "lockid \<Rightarrow> ('z mach_scheme, unit) kmon" where
  "lock_release l = (\<lambda>s. if l \<notin> set (held s) then Panic ''release'' else Done () (s\<lparr>held := remove1 l (held s)\<rparr>))"

definition lock_holding :: "lockid \<Rightarrow> 'z mach_scheme \<Rightarrow> bool" where
  "lock_holding l s \<longleftrightarrow> l \<in> set (held s)"

definition noff :: "'z mach_scheme \<Rightarrow> nat" where
  "noff s = length (held s)"

lemma held_id [simp]: "held s = h \<Longrightarrow> s\<lparr>held := h\<rparr> = s"
  by auto

lemma wp_lock_acquire [kwp, simp]:
  "wp (lock_acquire l) Q s \<longleftrightarrow> l \<notin> set (held s) \<and> Q () (s\<lparr>held := l # held s\<rparr>)"
  by (simp add: wp_def lock_acquire_def)

lemma wp_lock_release [kwp, simp]:
  "wp (lock_release l) Q s \<longleftrightarrow> l \<in> set (held s) \<and> Q () (s\<lparr>held := remove1 l (held s)\<rparr>)"
  by (simp add: wp_def lock_release_def)

lemma run_lock_acquire: "l \<notin> set (held s) \<Longrightarrow> lock_acquire l s = Done () (s\<lparr>held := l # held s\<rparr>)"
  by (simp add: lock_acquire_def)

lemma run_lock_release: "l \<in> set (held s) \<Longrightarrow> lock_release l s = Done () (s\<lparr>held := remove1 l (held s)\<rparr>)"
  by (simp add: lock_release_def)

lemma bnd_lock_acquire [simp]:
  "l \<notin> set (held s) \<Longrightarrow> bnd (lock_acquire l) f s = f () (s\<lparr>held := l # held s\<rparr>)"
  "l \<in> set (held s) \<Longrightarrow> bnd (lock_acquire l) f s = Panic ''acquire''"
  by (simp_all add: lock_acquire_def bnd_def)

lemma bnd_lock_release [simp]:
  "l \<in> set (held s) \<Longrightarrow> bnd (lock_release l) f s = f () (s\<lparr>held := remove1 l (held s)\<rparr>)"
  "l \<notin> set (held s) \<Longrightarrow> bnd (lock_release l) f s = Panic ''release''"
  by (simp_all add: lock_release_def bnd_def)

text \<open>
  What a client of the spin locks relies on. \<open>mine s\<close> are the locks held, \<open>others s\<close> those held by
  other CPUs, \<open>depth\<close> the nesting, \<open>ok\<close> the invariant.
\<close>

locale mutex =
  fixes acq :: "'l \<Rightarrow> ('s, unit) kmon"
    and rel :: "'l \<Rightarrow> ('s, unit) kmon"
    and mine :: "'s \<Rightarrow> 'l set"
    and others :: "'s \<Rightarrow> 'l set"
    and depth :: "'s \<Rightarrow> nat"
    and ok :: "'s \<Rightarrow> bool"
  assumes acq_free: "ok s \<Longrightarrow> l \<notin> mine s \<Longrightarrow> l \<notin> others s \<Longrightarrow>
      \<exists>t. acq l s = Done () t \<and> ok t \<and> mine t = insert l (mine s) \<and> others t = others s \<and> depth t = Suc (depth s)"
    and acq_self: "ok s \<Longrightarrow> l \<in> mine s \<Longrightarrow> acq l s = Panic ''acquire''"
    and rel_mine: "ok s \<Longrightarrow> l \<in> mine s \<Longrightarrow>
      \<exists>t. rel l s = Done () t \<and> ok t \<and> mine t = mine s - {l} \<and> others t = others s \<and> depth s = Suc (depth t)"
    and rel_not_mine: "ok s \<Longrightarrow> l \<notin> mine s \<Longrightarrow> rel l s = Panic ''release''"
begin

text \<open>A balanced critical section ends with the same locks at the same depth.\<close>

lemma acq_rel_balanced:
  assumes "ok s" "l \<notin> mine s" "l \<notin> others s"
  shows "\<exists>t. bnd (acq l) (\<lambda>_. rel l) s = Done () t \<and> ok t \<and> mine t = mine s \<and> others t = others s \<and> depth t = depth s"
proof -
  obtain u where u: "acq l s = Done () u" "ok u" "mine u = insert l (mine s)" "others u = others s"
    "depth u = Suc (depth s)" using acq_free [OF assms] by blast
  obtain t where "rel l u = Done () t" "ok t" "mine t = mine u - {l}" "others t = others u" "depth u = Suc (depth t)"
    using rel_mine [of u l] u by auto
  with u assms show ?thesis by auto
qed

lemma acq_twice_panics:
  assumes "ok s" "l \<notin> mine s" "l \<notin> others s"
  shows "bnd (acq l) (\<lambda>_. acq l) s = Panic ''acquire''"
  using acq_free [OF assms] acq_self by force

end

text \<open>The code of one hart against that contract, with the other harts' locks in \<open>others\<close>.\<close>

definition mine_of :: "nat \<Rightarrow> 'z smp_scheme \<Rightarrow> lockid set" where
  "mine_of h s = {l. holding h l s}"

definition others_of :: "nat \<Rightarrow> 'z smp_scheme \<Rightarrow> lockid set" where
  "others_of h s = {l. lk_locked (locks s l) \<and> lk_cpu (locks s l) \<noteq> Some h}"

definition hart_ok :: "nat \<Rightarrow> 'z smp_scheme \<Rightarrow> bool" where
  "hart_ok h s \<longleftrightarrow> finite (mine_of h s) \<and> c_noff (cpus s h) = card (mine_of h s) \<and>
     (0 < c_noff (cpus s h) \<longrightarrow> \<not> sie s h)"

lemma acquire_free:
  assumes "hart_ok h s" "l \<notin> mine_of h s" "l \<notin> others_of h s"
  shows "\<exists>t. acquire h l s = Done () t \<and> hart_ok h t \<and> mine_of h t = insert l (mine_of h s) \<and>
    others_of h t = others_of h s \<and> c_noff (cpus t h) = Suc (c_noff (cpus s h))"
proof -
  have free: "\<not> lk_locked (locks s l)" using assms(2,3) by (auto simp: mine_of_def others_of_def holding_def)
  let ?t = "set_owner l (Some h) (snd (case test_and_set l (push_off h s) of Done x u \<Rightarrow> (x, u)))"
  have run: "acquire h l s = Done () ?t"
    using free by (simp add: spin_defs)
  have mine: "mine_of h ?t = insert l (mine_of h s)"
    by (auto simp: mine_of_def spin_defs split: if_splits)
  have others: "others_of h ?t = others_of h s"
    using free by (auto simp: others_of_def spin_defs split: if_splits)
  have noff: "c_noff (cpus ?t h) = Suc (c_noff (cpus s h))" and sie: "\<not> sie ?t h"
    by (simp_all add: spin_defs)
  have "hart_ok h ?t"
    using assms(1,2) sie by (auto simp: hart_ok_def mine noff)
  with run mine others noff show ?thesis by blast
qed

lemma pop_off_ok:
  assumes "0 < c_noff (cpus s h)" "\<not> sie s h"
  shows "\<exists>t. pop_off h s = Done () t \<and> locks t = locks s \<and> c_noff (cpus s h) = Suc (c_noff (cpus t h)) \<and>
    (0 < c_noff (cpus t h) \<longrightarrow> \<not> sie t h)"
  using assms by (simp add: pop_off_def intr_get_def intr_on_def Let_def)

lemma release_mine:
  assumes "hart_ok h s" "l \<in> mine_of h s"
  shows "\<exists>t. release h l s = Done () t \<and> hart_ok h t \<and> mine_of h t = mine_of h s - {l} \<and>
    others_of h t = others_of h s \<and> c_noff (cpus s h) = Suc (c_noff (cpus t h))"
proof -
  have hold: "holding h l s" using assms(2) by (simp add: mine_of_def)
  have pos: "0 < card (mine_of h s)" using assms by (auto simp: hart_ok_def card_gt_0_iff)
  let ?u = "lock_clear l (set_owner l None s)"
  have noff: "0 < c_noff (cpus ?u h)" and sie: "\<not> sie ?u h"
    using assms(1) pos by (simp_all add: hart_ok_def spin_defs)
  obtain t where t: "pop_off h ?u = Done () t" "locks t = locks ?u"
    "c_noff (cpus ?u h) = Suc (c_noff (cpus t h))" "0 < c_noff (cpus t h) \<longrightarrow> \<not> sie t h"
    using pop_off_ok [OF noff sie] by (elim exE conjE) rule
  have run: "release h l s = Done () t" using hold t(1) by (simp add: release_def)
  have mine: "mine_of h t = mine_of h s - {l}"
    by (auto simp: mine_of_def holding_def t(2) lock_clear_def set_owner_def split: if_splits)
  have others: "others_of h t = others_of h s"
    using hold by (auto simp: others_of_def holding_def t(2) lock_clear_def set_owner_def split: if_splits)
  have "c_noff (cpus ?u h) = c_noff (cpus s h)" by (simp add: lock_clear_def set_owner_def)
  with t assms mine pos run others show ?thesis by (auto simp: hart_ok_def)
qed

interpretation hart: mutex "acquire h" "release h" "mine_of h" "others_of h" "\<lambda>s. c_noff (cpus s h)" "hart_ok h"
proof
  fix s :: "'z smp_scheme" and l
  assume "hart_ok h s"
  show "l \<in> mine_of h s \<Longrightarrow> acquire h l s = Panic ''acquire''"
    by (simp add: mine_of_def spin_defs)
  show "l \<notin> mine_of h s \<Longrightarrow> release h l s = Panic ''release''"
    by (simp add: mine_of_def release_def)
qed (use acquire_free release_mine in blast)+

interpretation view: mutex lock_acquire lock_release "\<lambda>s. set (held s)" "\<lambda>s. {}" noff "\<lambda>s. distinct (held s)"
proof
  fix s :: "'z mach_scheme" and l
  assume ok: "distinct (held s)"
  assume l: "l \<in> set (held s)"
  then have "length (held s) = Suc (length (remove1 l (held s)))"
    using length_pos_if_in_set [OF l] by (simp add: length_remove1)
  with ok l show "\<exists>t. lock_release l s = Done () t \<and> distinct (held t) \<and> set (held t) = set (held s) - {l} \<and>
      {} = {} \<and> noff s = Suc (noff t)"
    by (simp add: lock_release_def noff_def distinct_remove1)
qed (auto simp: lock_acquire_def lock_release_def noff_def)

text \<open>The per-CPU view simulates the code: same panics, same locks, same depth.\<close>

definition lock_view :: "nat \<Rightarrow> 'y smp_scheme \<Rightarrow> 'z mach_scheme \<Rightarrow> bool" where
  "lock_view h c a \<longleftrightarrow> hart_ok h c \<and> distinct (held a) \<and> set (held a) = mine_of h c"

lemma lock_view_noff: "lock_view h c a \<Longrightarrow> c_noff (cpus c h) = noff a"
  using distinct_card [of "held a"] by (auto simp: lock_view_def hart_ok_def noff_def)

text \<open>
  C14. The view that one CPU has of its locks is implemented by \<open>acquire\<close>: when no other hart holds
  the lock, the code takes it exactly when the view does, and panics exactly when the view panics.
\<close>

theorem acquire_refines_view:
  assumes "lock_view h c a" "l \<notin> others_of h c"
  shows "case lock_acquire l a of
      Done u a' \<Rightarrow> \<exists>c'. acquire h l c = Done u c' \<and> lock_view h c' a' \<and> others_of h c' = others_of h c
    | Panic e \<Rightarrow> acquire h l c = Panic e
    | _ \<Rightarrow> False"
proof (cases "l \<in> set (held a)")
  case True
  with assms have "acquire h l c = Panic ''acquire''"
    using hart.acq_self by (auto simp: lock_view_def)
  with True show ?thesis by (simp add: lock_acquire_def)
next
  case False
  with assms obtain c' where "acquire h l c = Done () c'" "hart_ok h c'"
    "mine_of h c' = insert l (mine_of h c)" "others_of h c' = others_of h c"
    using hart.acq_free [of h c l] by (auto simp: lock_view_def)
  with False assms show ?thesis by (auto simp: lock_acquire_def lock_view_def)
qed

lemma lock_view_release:
  assumes "lock_view h c a"
  shows "case lock_release l a of
      Done u a' \<Rightarrow> \<exists>c'. release h l c = Done u c' \<and> lock_view h c' a' \<and> others_of h c' = others_of h c
    | Panic e \<Rightarrow> release h l c = Panic e
    | _ \<Rightarrow> False"
proof (cases "l \<in> set (held a)")
  case False
  with assms have "release h l c = Panic ''release''"
    using hart.rel_not_mine by (auto simp: lock_view_def)
  with False show ?thesis by (simp add: lock_release_def)
next
  case True
  with assms obtain c' where "release h l c = Done () c'" "hart_ok h c'"
    "mine_of h c' = mine_of h c - {l}" "others_of h c' = others_of h c"
    using hart.rel_mine [of h c l] by (auto simp: lock_view_def)
  with True assms show ?thesis by (auto simp: lock_release_def lock_view_def distinct_remove1)
qed

lemma spin_other: "l \<in> others_of h c \<Longrightarrow> acquire h l c = Spins"
  by (auto simp: others_of_def spin_defs)

theorem acquire_refines_view_witness:
  "case lock_acquire LKmem \<lparr>held = [], cproc = None, cthread = None\<rparr> of
      Done u a' \<Rightarrow> \<exists>c'. acquire 0 LKmem lksys_init = Done u c' \<and> lock_view 0 c' a' \<and>
        others_of 0 c' = others_of 0 lksys_init
    | Panic e \<Rightarrow> acquire 0 LKmem lksys_init = Panic e
    | _ \<Rightarrow> False"
  by (rule acquire_refines_view)
    (simp_all add: lock_view_def hart_ok_def mine_of_def others_of_def lksys_init_def holding_def)

text \<open>
  C1. In every interleaving of the lock code of any number of harts, at most one hart is in the
  critical section of a lock; while it is there, the lock word is set and the hart's interrupts are
  off, so no interrupt handler of that hart can try to take the lock again.
\<close>

theorem mutual_exclusion:
  assumes "lkreach s" "inside s h l"
  shows "(\<forall>h'. inside s h' l \<longrightarrow> h' = h) \<and> lk_locked (locks s l) \<and> \<not> sie s h"
proof -
  note i = lk_invD [OF lkreach_inv [OF assms(1)]]
  have "card {l. inside s h l} > 0" using i(5) [of h] assms(2) by (auto simp: card_gt_0_iff)
  then have "0 < c_noff (cpus s h)" using i(6) [of h] by simp
  then show ?thesis using i(1,2,7) assms(2) by blast
qed

definition demo_swapping :: lksys where
  "demo_swapping = at 0 (Swapping LKmem) (push_off 0 lksys_init)"

definition demo_won :: lksys where
  "demo_won = at 0 (Won LKmem) (demo_swapping\<lparr>locks := (locks demo_swapping)(LKmem := (locks demo_swapping LKmem)\<lparr>lk_locked := True\<rparr>)\<rparr>)"

lemma demo_won_reach: "lkreach demo_won"
proof -
  have "lkstep lksys_init demo_swapping" unfolding demo_swapping_def
    by (rule lkstep.enter) (simp_all add: lksys_init_def spin_defs)
  then have "lkreach demo_swapping" using lkreach.intros by blast
  moreover have "lkstep demo_swapping demo_won" unfolding demo_won_def
    by (rule lkstep.win [where l = LKmem]) (simp_all add: demo_swapping_def lksys_init_def spin_defs)
  ultimately show ?thesis by (rule lkreach.step)
qed

theorem mutual_exclusion_witness:
  "\<not> inside demo_won 1 LKmem \<and> lk_locked (locks demo_won LKmem) \<and> \<not> sie demo_won 0"
proof -
  have "inside demo_won 0 LKmem" by (simp add: inside_def demo_won_def)
  from mutual_exclusion [OF demo_won_reach this] show ?thesis by auto
qed

end
