(* ===== verification/Xv6_Layout.thy ===== *)
theory Xv6_Layout
  imports Xv6_Mem
begin

text \<open>
  Address arithmetic: the macros of \<^verbatim>\<open>kernel/riscv.h\<close>, \<^verbatim>\<open>kernel/memlayout.h\<close> and
  \<^verbatim>\<open>kernel/param.h\<close> on 64-bit words, and what they compute.
\<close>

section \<open>Constants\<close>

definition PGSIZE :: uint64 where [simp]: "PGSIZE = 4096"
definition PGSHIFT :: nat where [simp]: "PGSHIFT = 12"
definition KERNBASE :: uint64 where [simp]: "KERNBASE = 0x80000000"
definition PHYSTOP :: uint64 where [simp]: "PHYSTOP = KERNBASE + 128 * 1024 * 1024"
definition UART0 :: uint64 where [simp]: "UART0 = 0x10000000"
definition VIRTIO0 :: uint64 where [simp]: "VIRTIO0 = 0x10001000"
definition PLIC :: uint64 where [simp]: "PLIC = 0x0c000000"
definition MAXVA :: uint64 where [simp]: "MAXVA = push_bit (9 + 9 + 9 + 12 - 1) 1"
definition TRAMPOLINE :: uint64 where [simp]: "TRAMPOLINE = MAXVA - PGSIZE"
definition TRAPFRAME :: uint64 where [simp]: "TRAPFRAME = TRAMPOLINE - PGSIZE"
definition NPROC :: nat where [simp]: "NPROC = 64"
definition NTHREAD :: nat where [simp]: "NTHREAD = 8"
definition NOFILE :: nat where [simp]: "NOFILE = 16"

definition PTE_V :: uint64 where [simp]: "PTE_V = push_bit 0 1"
definition PTE_R :: uint64 where [simp]: "PTE_R = push_bit 1 1"
definition PTE_W :: uint64 where [simp]: "PTE_W = push_bit 2 1"
definition PTE_X :: uint64 where [simp]: "PTE_X = push_bit 3 1"
definition PTE_U :: uint64 where [simp]: "PTE_U = push_bit 4 1"

section \<open>Macros\<close>

definition PGROUNDUP :: "uint64 \<Rightarrow> uint64" where
  "PGROUNDUP sz = (sz + PGSIZE - 1) AND NOT (PGSIZE - 1)"

definition PGROUNDDOWN :: "uint64 \<Rightarrow> uint64" where
  "PGROUNDDOWN a = a AND NOT (PGSIZE - 1)"

definition PA2PTE :: "uint64 \<Rightarrow> uint64" where
  "PA2PTE pa = push_bit 10 (drop_bit 12 pa)"

definition PTE2PA :: "uint64 \<Rightarrow> uint64" where
  "PTE2PA pte = push_bit 12 (drop_bit 10 pte)"

definition PTE_FLAGS :: "uint64 \<Rightarrow> uint64" where
  "PTE_FLAGS pte = pte AND 0x3FF"

definition PXSHIFT :: "nat \<Rightarrow> nat" where
  "PXSHIFT level = PGSHIFT + 9 * level"

definition PX :: "nat \<Rightarrow> uint64 \<Rightarrow> uint64" where
  "PX level va = drop_bit (PXSHIFT level) va AND 0x1FF"

definition KSTACK :: "nat \<Rightarrow> nat \<Rightarrow> uint64" where
  "KSTACK p t = TRAMPOLINE - of_nat ((p + 1) * NTHREAD + t) * 2 * PGSIZE"

section \<open>Page arithmetic\<close>

lemma and_not_mask: "(x :: 'a :: len word) AND NOT (mask n) = push_bit n (drop_bit n x)"
  by (rule bit_word_eqI) (auto simp: bit_simps)

lemma unat_push_drop: "unat (push_bit n (drop_bit n (x :: 'a :: len word))) = 2 ^ n * (unat x div 2 ^ n)"
proof -
  have "2 ^ n * (unat x div 2 ^ n) \<le> unat x" by simp
  also have "\<dots> < 2 ^ LENGTH('a)" by simp
  finally have "2 ^ n * (unat x div 2 ^ n) < 2 ^ LENGTH('a)" .
  moreover have "unat (push_bit n (drop_bit n x)) = take_bit LENGTH('a) (push_bit n (drop_bit n (unat x)))"
    by (simp only: unsigned_push_bit_eq unat_drop_bit_eq)
  moreover have "push_bit n (drop_bit n (unat x)) = 2 ^ n * (unat x div 2 ^ n)"
    by (simp add: push_bit_eq_mult drop_bit_eq_div mult.commute)
  ultimately show ?thesis by (simp add: take_bit_nat_eq_self)
qed

lemma PGROUNDDOWN_alt: "PGROUNDDOWN a = push_bit 12 (drop_bit 12 a)"
proof -
  have "PGROUNDDOWN a = a AND NOT (mask 12)" by (simp add: PGROUNDDOWN_def mask_eq_exp_minus_1)
  then show ?thesis by (simp only: and_not_mask)
qed

lemma PGROUNDUP_alt: "PGROUNDUP a = PGROUNDDOWN (a + 4095)"
  by (simp add: PGROUNDUP_def PGROUNDDOWN_def algebra_simps)

lemma unat_PGROUNDDOWN: "unat (PGROUNDDOWN a) = 4096 * (unat a div 4096)"
  using unat_push_drop [of 12 a] by (simp add: PGROUNDDOWN_alt)

lemma PGROUNDDOWN_le: "PGROUNDDOWN a \<le> a"
  by (simp add: word_le_nat_alt unat_PGROUNDDOWN)

definition page_aligned :: "uint64 \<Rightarrow> bool" where
  "page_aligned a \<longleftrightarrow> a mod PGSIZE = 0"

lemma page_aligned_unat: "page_aligned a \<longleftrightarrow> 4096 dvd unat a"
  by (simp add: page_aligned_def word_eq_unat unat_mod_distrib dvd_eq_mod_eq_0)

lemma PGROUNDDOWN_aligned [simp]: "page_aligned (PGROUNDDOWN a)"
  by (simp add: page_aligned_unat unat_PGROUNDDOWN)

lemma PGROUNDDOWN_of_aligned [simp]: "page_aligned a \<Longrightarrow> PGROUNDDOWN a = a"
  by (auto simp: page_aligned_unat word_eq_unat unat_PGROUNDDOWN)

lemma PGROUNDDOWN_idem [simp]: "PGROUNDDOWN (PGROUNDDOWN a) = PGROUNDDOWN a"
  by simp

text \<open>The addresses of the page at \<open>a\<close> are those that round down to \<open>a\<close>.\<close>

lemma in_page_iff:
  assumes "page_aligned a"
  shows "unat (x - a) < 4096 \<longleftrightarrow> PGROUNDDOWN x = a"
proof
  obtain k where k: "unat a = 4096 * k" using assms by (auto simp: page_aligned_unat)
  have a_max: "unat a + 4095 < 2 ^ 64"
  proof -
    have "4096 * k < 2 ^ 64" using k unsigned_less [of a, where 'a = nat] by simp
    then have "k < 2 ^ 52" by simp
    then show ?thesis using k by simp
  qed
  {
    assume lt: "unat (x - a) < 4096"
    have "x = a + of_nat (unat (x - a))" by simp
    then have "unat x = unat a + unat (x - a)"
      using lt a_max unat_plus_of_nat [of a "unat (x - a)"] by simp
    then have "unat x div 4096 = k" using k lt by simp
    then show "PGROUNDDOWN x = a" by (simp add: word_eq_unat unat_PGROUNDDOWN k)
  next
    assume "PGROUNDDOWN x = a"
    then have "4096 * (unat x div 4096) = unat a" by (simp add: unat_PGROUNDDOWN [symmetric])
    moreover have "unat x = 4096 * (unat x div 4096) + unat x mod 4096" by simp
    ultimately have "unat a \<le> unat x" "unat x - unat a < 4096" by linarith+
    then show "unat (x - a) < 4096" by (simp add: unat_sub word_le_nat_alt)
  }
qed

lemma page_aligned_8: "page_aligned a \<Longrightarrow> aligned8 a"
  by (auto simp: page_aligned_unat aligned8_unat intro: dvd_trans)

text \<open>Filling and copying whole pages, cell by cell.\<close>

lemma memset_page:
  assumes "page_aligned pa" "aligned8 x"
  shows "memset m pa c 4096 x = (if PGROUNDDOWN x = pa then rep8 (ucast c) else m x)"
  using memset_cell [of x pa 4096 m c] assms in_page_iff [of pa x] by (simp add: page_aligned_8)

lemma page_aligned_bound:
  assumes "page_aligned a" "a < b" "page_aligned b"
  shows "unat a + 4096 \<le> unat b"
proof -
  obtain i j where "unat a = 4096 * i" "unat b = 4096 * j"
    using assms unfolding page_aligned_unat dvd_def by blast
  moreover have "unat a < unat b" using assms(2) by (simp add: word_less_nat_alt)
  ultimately show ?thesis by simp
qed

lemma memmove_page:
  assumes "page_aligned dst" "page_aligned src" "aligned8 x" "dst < PHYSTOP" "src < PHYSTOP"
  shows "memmove m dst src 4096 x = (if PGROUNDDOWN x = dst then m (src + (x - dst)) else m x)"
proof -
  have "unat src + 4096 < 2 ^ 64" "unat dst + 4096 < 2 ^ 64"
    using assms(4,5) by (simp_all add: word_less_nat_alt)
  then show ?thesis
    using memmove_cell [of x dst src 4096 m] assms in_page_iff [of dst x] by (simp add: page_aligned_8)
qed

lemma unat_PGROUNDUP:
  assumes "unat a + 4096 \<le> 2 ^ 64"
  shows "unat (PGROUNDUP a) = (unat a + 4095) div 4096 * 4096"
  using assms by (simp add: PGROUNDUP_alt unat_PGROUNDDOWN unat_word_ariths)

lemma PGROUNDUP_aligned: "page_aligned (PGROUNDUP a)"
  by (simp add: PGROUNDUP_alt PGROUNDDOWN_aligned)

lemma PGROUNDUP_bounds:
  assumes "unat a + 4096 \<le> 2 ^ 64"
  shows "a \<le> PGROUNDUP a" "unat (PGROUNDUP a) < unat a + 4096"
  using unat_PGROUNDUP [OF assms] div_mult_mod_eq [of "unat a + 4095" 4096]
    mod_less_divisor [of 4096 "unat a + 4095"]
  unfolding word_le_nat_alt by linarith+

lemma PGROUNDUP_of_aligned:
  assumes "page_aligned a" "unat a + 4096 \<le> 2 ^ 64"
  shows "PGROUNDUP a = a"
proof -
  obtain k where "unat a = 4096 * k" using assms(1) unfolding page_aligned_unat dvd_def by blast
  then show ?thesis using unat_PGROUNDUP [OF assms(2)] by (simp add: word_eq_unat)
qed

lemma page_aligned_uint: "page_aligned a \<longleftrightarrow> 4096 dvd uint a"
proof -
  have "4096 dvd unat a \<longleftrightarrow> int 4096 dvd int (unat a)" by (rule int_dvd_int_iff [symmetric])
  then show ?thesis by (simp add: page_aligned_unat)
qed

lemma page_aligned_add: "page_aligned a \<Longrightarrow> page_aligned b \<Longrightarrow> page_aligned (a + b)"
  unfolding page_aligned_uint uint_word_ariths by (intro dvd_mod) auto

lemma page_aligned_diff: "page_aligned a \<Longrightarrow> page_aligned b \<Longrightarrow> page_aligned (a - b)"
  unfolding page_aligned_uint uint_word_ariths by (intro dvd_mod) auto

section \<open>Kernel stacks\<close>

lemma unat_KSTACK:
  assumes "p < NPROC" "t < NTHREAD"
  shows "unat (KSTACK p t) = 2 ^ 38 - 4096 - ((p + 1) * 8 + t) * 8192"
proof -
  define k where "k = (p + 1) * 8 + t"
  have k: "k < 600" using assms by (simp add: k_def)
  have "KSTACK p t = of_nat (2 ^ 38 - 4096 - k * 8192)"
    using k by (simp add: KSTACK_def k_def of_nat_diff)
  moreover have "2 ^ 38 - 4096 - k * 8192 < (2::nat) ^ 64" by simp
  ultimately show ?thesis by (simp add: unat_of_nat k_def)
qed

text \<open>
  C29. Every thread of every process has a kernel stack page of its own: the pages are aligned, above the
  physical memory and below the trap frame page, and between two of them, and below each, there is at
  least one page that is not a stack, the guard page.
\<close>

theorem kstacks_separate:
  assumes "p < NPROC" "t < NTHREAD" "p' < NPROC" "t' < NTHREAD" "(p, t) \<noteq> (p', t')"
  shows "page_aligned (KSTACK p t) \<and> unat PHYSTOP + 4096 \<le> unat (KSTACK p t) \<and>
    unat (KSTACK p t) + 2 * 4096 \<le> unat TRAPFRAME \<and>
    (unat (KSTACK p t) + 2 * 4096 \<le> unat (KSTACK p' t') \<or> unat (KSTACK p' t') + 2 * 4096 \<le> unat (KSTACK p t))"
proof -
  define k k' where "k = (p + 1) * 8 + t" and "k' = (p' + 1) * 8 + t'"
  have k: "k < 600" "k' < 600" "8 \<le> k" using assms by (simp_all add: k_def k'_def)
  have ne: "k \<noteq> k'"
  proof
    assume "k = k'"
    then have "(p + 1) * 8 + t = (p' + 1) * 8 + t'" by (simp add: k_def k'_def)
    then have "p = p' \<and> t = t'" using assms(2,4) by simp presburger
    then show False using assms(5) by simp
  qed
  have u: "unat (KSTACK p t) = 2 ^ 38 - 4096 - k * 8192" "unat (KSTACK p' t') = 2 ^ 38 - 4096 - k' * 8192"
    using assms by (simp_all add: unat_KSTACK k_def k'_def)
  have "4096 dvd (2 ^ 38 - 4096 - k * 8192 :: nat)" by (intro dvd_diff_nat) (auto intro: dvd_mult)
  then have "page_aligned (KSTACK p t)" by (simp add: page_aligned_unat u)
  moreover have "unat PHYSTOP + 4096 \<le> unat (KSTACK p t)" "unat (KSTACK p t) + 2 * 4096 \<le> unat TRAPFRAME"
    using k by (simp_all add: u)
  moreover have "unat (KSTACK p t) + 2 * 4096 \<le> unat (KSTACK p' t') \<or> unat (KSTACK p' t') + 2 * 4096 \<le> unat (KSTACK p t)"
    proof -
    have "unat (KSTACK p t) + k * 8192 = 2 ^ 38 - 4096" "unat (KSTACK p' t') + k' * 8192 = 2 ^ 38 - 4096" using k unfolding u by simp_all
    moreover have "k * 8192 + 8192 \<le> k' * 8192 \<or> k' * 8192 + 8192 \<le> k * 8192" using ne by linarith
    ultimately show ?thesis by linarith
  qed
  ultimately show ?thesis by blast
qed


theorem kstacks_separate_witness:
  "unat (KSTACK 0 7) + 2 * 4096 \<le> unat (KSTACK 0 6) \<and> unat (KSTACK 63 7) + 2 * 4096 \<le> unat TRAPFRAME"
  using kstacks_separate [of 0 7 0 6] kstacks_separate [of 63 7 0 0] by (simp add: unat_KSTACK)

end
