(* ===== verification/Xv6_Kalloc.thy ===== *)
theory Xv6_Kalloc
  imports Xv6_Layout Xv6_Spinlock "HOL-Library.Multiset"
begin

text \<open>
  The physical page allocator (\<^verbatim>\<open>kernel/kalloc.c\<close>).

  The free pages form a list linked through their own first words, as \<open>struct run\<close> does. \<open>kend\<close> is
  the linker symbol \<open>end\<close>, the first address after the kernel image, a parameter of the model.
\<close>

record kmem = mach +
  mem :: pmem
  freelist :: uint64
  kend :: uint64

definition ld :: "uint64 \<Rightarrow> ('z kmem_scheme, uint64) kmon" where
  "ld a = gets (\<lambda>s. mem s a)"

definition st :: "uint64 \<Rightarrow> uint64 \<Rightarrow> ('z kmem_scheme, unit) kmon" where
  "st a v = modify (\<lambda>s. s\<lparr>mem := (mem s)(a := v)\<rparr>)"

definition memset_k :: "uint64 \<Rightarrow> uint \<Rightarrow> nat \<Rightarrow> ('z kmem_scheme, unit) kmon" where
  "memset_k dst c n = modify (\<lambda>s. s\<lparr>mem := memset (mem s) dst c n\<rparr>)"

definition memmove_k :: "uint64 \<Rightarrow> uint64 \<Rightarrow> nat \<Rightarrow> ('z kmem_scheme, unit) kmon" where
  "memmove_k dst src n = modify (\<lambda>s. s\<lparr>mem := memmove (mem s) dst src n\<rparr>)"

section \<open>kernel/kalloc.c\<close>

definition kfree :: "uint64 \<Rightarrow> ('z kmem_scheme, unit) kmon" where
  "kfree pa =
     bnd (gets kend) (\<lambda>kernel_end.
     if pa mod PGSIZE \<noteq> 0 \<or> pa < kernel_end \<or> pa \<ge> PHYSTOP then panic ''kfree''
     else
     bnd (memset_k pa 1 (unat PGSIZE)) (\<lambda>_.
     bnd (lock_acquire LKmem) (\<lambda>_.
     bnd (gets freelist) (\<lambda>fl.
     bnd (st pa fl) (\<lambda>_.
     bnd (modify (\<lambda>s. s\<lparr>freelist := pa\<rparr>)) (\<lambda>_.
     lock_release LKmem))))))"

definition kalloc :: "('z kmem_scheme, uint64) kmon" where
  "kalloc =
     bnd (lock_acquire LKmem) (\<lambda>_.
     bnd (gets freelist) (\<lambda>r.
     bnd (if r \<noteq> 0 then bnd (ld r) (\<lambda>nxt. modify (\<lambda>s. s\<lparr>freelist := nxt\<rparr>)) else ret ()) (\<lambda>_.
     bnd (lock_release LKmem) (\<lambda>_.
     bnd (if r \<noteq> 0 then memset_k r 5 (unat PGSIZE) else ret ()) (\<lambda>_.
     ret r)))))"

text \<open>
  The loop of \<open>freerange\<close>, with fuel: \<open>p += PGSIZE\<close> could wrap around for an end address near
  \<open>2 ^ 64\<close>; \<open>freerange\<close> gives more fuel than any range that does not wrap can use.
\<close>

fun freerange_loop :: "nat \<Rightarrow> uint64 \<Rightarrow> uint64 \<Rightarrow> ('z kmem_scheme, unit) kmon" where
  "freerange_loop 0 p pa_end = spins"
| "freerange_loop (Suc fuel) p pa_end =
     (if p + PGSIZE \<le> pa_end
      then bnd (kfree p) (\<lambda>_. freerange_loop fuel (p + PGSIZE) pa_end)
      else ret ())"

definition freerange :: "uint64 \<Rightarrow> uint64 \<Rightarrow> ('z kmem_scheme, unit) kmon" where
  "freerange pa_start pa_end = freerange_loop (Suc (unat pa_end)) (PGROUNDUP pa_start) pa_end"

definition kinit :: "('z kmem_scheme, unit) kmon" where
  "kinit = bnd (gets kend) (\<lambda>kernel_end. freerange kernel_end PHYSTOP)"

lemma wp_ld [kwp, simp]: "wp (ld a) Q s = Q (mem s a) s"
  by (simp add: ld_def)

lemma wp_st [kwp, simp]: "wp (st a v) Q s = Q () (s\<lparr>mem := (mem s)(a := v)\<rparr>)"
  by (simp add: st_def)

lemma wp_memset_k [kwp, simp]: "wp (memset_k d c n) Q s = Q () (s\<lparr>mem := memset (mem s) d c n\<rparr>)"
  by (simp add: memset_k_def)

lemma wp_memmove_k [kwp, simp]: "wp (memmove_k d a n) Q s = Q () (s\<lparr>mem := memmove (mem s) d a n\<rparr>)"
  by (simp add: memmove_k_def)

lemma bnd_mem [simp]:
  "bnd (ld a) f s = f (mem s a) s"
  by (simp add: ld_def)

lemma bnd_mem_write [simp]:
  "bnd (st a v) f s = f () (s\<lparr>mem := (mem s)(a := v)\<rparr>)"
  "bnd (memset_k a c n) f s = f () (s\<lparr>mem := memset (mem s) a c n\<rparr>)"
  "bnd (memmove_k a b n) f s = f () (s\<lparr>mem := memmove (mem s) a b n\<rparr>)"
  by (simp_all add: st_def memset_k_def memmove_k_def)

section \<open>The free list\<close>

fun flist :: "pmem \<Rightarrow> uint64 \<Rightarrow> uint64 list \<Rightarrow> bool" where
  "flist m p [] \<longleftrightarrow> p = 0"
| "flist m p (a # as) \<longleftrightarrow> p = a \<and> a \<noteq> 0 \<and> flist m (m a) as"

definition frame_ok :: "uint64 \<Rightarrow> uint64 \<Rightarrow> bool" where
  "frame_ok e a \<longleftrightarrow> page_aligned a \<and> e \<le> a \<and> a < PHYSTOP"

text \<open>\<open>ps\<close> are the free pages, most recently freed first.\<close>

definition kmem_inv :: "uint64 list \<Rightarrow> 'z kmem_scheme \<Rightarrow> bool" where
  "kmem_inv ps s \<longleftrightarrow> flist (mem s) (freelist s) ps \<and> distinct ps \<and> 0 < kend s \<and>
     (\<forall>a \<in> set ps. frame_ok (kend s) a)"

lemma flist_cong: "(\<And>a. a \<in> set ps \<Longrightarrow> m' a = m a) \<Longrightarrow> flist m' p ps = flist m p ps"
  by (induction ps arbitrary: p) auto

lemma flist_unique: "flist m p as \<Longrightarrow> flist m p bs \<Longrightarrow> as = bs"
proof (induction as arbitrary: p bs)
  case Nil
  then show ?case by (cases bs) auto
next
  case (Cons a as)
  then show ?case by (cases bs) auto
qed

lemma frame_ok_nonzero: "0 < e \<Longrightarrow> frame_ok e a \<Longrightarrow> a \<noteq> 0"
  by (auto simp: frame_ok_def)

lemma frame_okD: "frame_ok e a \<Longrightarrow> page_aligned a" "frame_ok e a \<Longrightarrow> aligned8 a"
  by (auto simp: frame_ok_def page_aligned_8)

text \<open>Memory outside one page.\<close>

definition same_outside :: "uint64 set \<Rightarrow> pmem \<Rightarrow> pmem \<Rightarrow> bool" where
  "same_outside A m m' \<longleftrightarrow> (\<forall>x. aligned8 x \<longrightarrow> PGROUNDDOWN x \<notin> A \<longrightarrow> m' x = m x)"

lemma same_outside_refl [simp]: "same_outside A m m"
  by (simp add: same_outside_def)

lemma same_outside_trans: "same_outside A m m' \<Longrightarrow> same_outside A m' m'' \<Longrightarrow> same_outside A m m''"
  by (simp add: same_outside_def)

lemma same_outside_mono: "same_outside A m m' \<Longrightarrow> A \<subseteq> B \<Longrightarrow> same_outside B m m'"
  by (auto simp: same_outside_def)

lemma same_outside_memset: "page_aligned pa \<Longrightarrow> same_outside {pa} m (memset m pa c 4096)"
  by (simp add: same_outside_def memset_page)

lemma same_outside_upd: "PGROUNDDOWN a \<in> A \<Longrightarrow> same_outside A m m' \<Longrightarrow> same_outside A m (m'(a := v))"
  by (auto simp: same_outside_def)

lemma same_outsideD: "same_outside A m m' \<Longrightarrow> aligned8 x \<Longrightarrow> PGROUNDDOWN x \<notin> A \<Longrightarrow> m' x = m x"
  by (simp add: same_outside_def)

text \<open>Only memory and the head of the free list differ.\<close>

definition mem_only :: "'z kmem_scheme \<Rightarrow> 'z kmem_scheme \<Rightarrow> bool" where
  "mem_only s t \<longleftrightarrow> (\<exists>m f. t = s\<lparr>mem := m, freelist := f\<rparr>)"

lemma mem_only_refl [simp]: "mem_only s s"
  by (auto simp: mem_only_def intro!: exI [of _ "mem s"] exI [of _ "freelist s"])

lemma mem_only_upd [simp]:
  "mem_only s (t\<lparr>mem := m\<rparr>) \<longleftrightarrow> mem_only s t" "mem_only s (t\<lparr>freelist := f\<rparr>) \<longleftrightarrow> mem_only s t"
  by (cases s; cases t; auto simp: mem_only_def)+

lemma mem_only_trans: "mem_only s t \<Longrightarrow> mem_only t u \<Longrightarrow> mem_only s u"
  unfolding mem_only_def by (elim exE, hypsubst, simp, blast)

lemma mem_onlyD:
  assumes "mem_only s t"
  shows "kend t = kend s" "held t = held s" "cproc t = cproc s" "cthread t = cthread s"
    "kmem.more t = kmem.more s"
  using assms by (auto simp: mem_only_def)

lemma wp_kfree:
  assumes inv: "kmem_inv ps s" and pa: "frame_ok (kend s) pa" "pa \<notin> set ps" and lk: "LKmem \<notin> set (held s)"
  shows "wp (kfree pa) (\<lambda>_ t. kmem_inv (pa # ps) t \<and> same_outside {pa} (mem s) (mem t) \<and>
    mem_only s t) s"
proof -
  have al: "page_aligned pa" using pa(1) by (rule frame_okD)
  let ?m = "(memset (mem s) pa 1 4096)(pa := freelist s)"
  have out: "same_outside {pa} (mem s) ?m"
    using al by (auto intro: same_outside_upd same_outside_memset)
  have "?m a = mem s a" if "a \<in> set ps" for a
    using that out pa(2) inv frame_okD [of "kend s" a] by (auto simp: kmem_inv_def dest: same_outsideD)
  then have "flist ?m (freelist s) ps" using inv flist_cong [of ps ?m "mem s"] by (simp add: kmem_inv_def)
  then have "kmem_inv (pa # ps) (s\<lparr>mem := ?m, freelist := pa\<rparr>)"
    using inv pa frame_ok_nonzero by (auto simp: kmem_inv_def)
  with out lk pa(1) show ?thesis
    by (simp add: kfree_def frame_ok_def page_aligned_def not_less not_le)
qed

lemma wp_kalloc_some:
  assumes inv: "kmem_inv (a # ps) s" and lk: "LKmem \<notin> set (held s)"
  shows "wp kalloc (\<lambda>r t. r = a \<and> kmem_inv ps t \<and> same_outside {a} (mem s) (mem t) \<and>
    mem_only s t) s"
proof -
  have a: "frame_ok (kend s) a" "a \<noteq> 0" "a \<notin> set ps" "freelist s = a"
    using inv by (auto simp: kmem_inv_def)
  let ?m = "memset (mem s) a 5 4096"
  have out: "same_outside {a} (mem s) ?m" using a(1) by (intro same_outside_memset frame_okD)
  have "?m x = mem s x" if "x \<in> set ps" for x
    using that out a(3) inv frame_okD [of "kend s" x] by (auto simp: kmem_inv_def dest: same_outsideD)
  then have "flist ?m (mem s a) ps" using inv flist_cong [of ps ?m "mem s"] by (simp add: kmem_inv_def)
  then have "kmem_inv ps (s\<lparr>freelist := mem s a, mem := ?m\<rparr>)"
    using inv by (auto simp: kmem_inv_def)
  with out lk a show ?thesis by (simp add: kalloc_def)
qed

lemma wp_kalloc_none:
  assumes "kmem_inv [] s" and "LKmem \<notin> set (held s)"
  shows "kalloc s = Done 0 s"
  unfolding wp_eq_Done [symmetric] using assms by (simp add: kalloc_def kmem_inv_def)

section \<open>Building the free list at boot\<close>

definition frames :: "uint64 \<Rightarrow> nat \<Rightarrow> uint64 list" where
  "frames p n = map (\<lambda>i. p + of_nat i * PGSIZE) [0..<n]"

lemma frames_0 [simp]: "frames p 0 = []"
  by (simp add: frames_def)

lemma frames_Suc: "frames p (Suc n) = p # frames (p + PGSIZE) n"
  by (simp only: frames_def upt_conv_Cons [of 0 "Suc n"] zero_less_Suc list.map map_Suc_upt [symmetric] map_map
    comp_def) (simp add: algebra_simps)

lemma wp_freerange_loop:
  assumes "kmem_inv ps s" "LKmem \<notin> set (held s)" "page_aligned p" "kend s \<le> p" "pa_end \<le> PHYSTOP"
    "n < fuel" "n = (unat pa_end - unat p) div 4096" "unat p + 4096 < 2 ^ 64" "\<forall>a \<in> set ps. a < p"
  shows "wp (freerange_loop fuel p pa_end) (\<lambda>_ t. kmem_inv (rev (frames p n) @ ps) t \<and> mem_only s t) s"
  using assms
proof (induction n arbitrary: ps s p fuel)
  case 0
  have "\<not> p + PGSIZE \<le> pa_end"
    using 0 by (simp add: word_le_nat_alt unat_word_ariths div_eq_0_iff)
  with 0 show ?case by (cases fuel) auto
next
  case (Suc n)
  obtain f where f: "fuel = Suc f" "n < f" using Suc.prems(6) by (cases fuel) auto
  have un: "unat (p + PGSIZE) = unat p + 4096" using Suc.prems(8) by (simp add: unat_word_ariths)
  have le: "unat p + 4096 \<le> unat pa_end"
  proof (rule ccontr)
    assume "\<not> ?thesis"
    then have "(unat pa_end - unat p) div 4096 = 0" by simp
    with Suc.prems(7) show False by simp
  qed
  have fr: "frame_ok (kend s) p"
    using Suc.prems(3-5) le by (auto simp: frame_ok_def word_less_nat_alt word_le_nat_alt)
  have "p \<notin> set ps" using Suc.prems(9) by auto
  note k = wp_kfree [OF Suc.prems(1) fr this Suc.prems(2)]
  have "n = (unat pa_end - unat (p + PGSIZE)) div 4096"
    using Suc.prems(7) le un le_div_geq [of 4096 "unat pa_end - unat p"] by simp
  moreover have "unat (p + PGSIZE) + 4096 < 2 ^ 64"
    using un le Suc.prems(5) by (simp add: word_le_nat_alt)
  moreover have "page_aligned (p + PGSIZE)" using Suc.prems(3) un by (simp add: page_aligned_unat)
  moreover have lt: "p < p + PGSIZE" using un by (simp add: word_less_nat_alt)
  moreover have "\<forall>a \<in> set (p # ps). a < p + PGSIZE" using lt Suc.prems(9) by auto
  ultimately have "wp (freerange_loop f (p + PGSIZE) pa_end)
      (\<lambda>_ t'. kmem_inv (rev (frames (p + PGSIZE) n) @ p # ps) t' \<and> mem_only s t') t"
    if "kmem_inv (p # ps) t" "mem_only s t" for t
    using that mem_onlyD [OF that(2)] Suc.prems(2,4,5) f(2)
    by (intro wp_mono [OF Suc.IH [of "p # ps"]]) (auto intro: mem_only_trans)
  then show ?case using k le un f(1)
    by (auto simp: word_le_nat_alt frames_Suc intro: wp_mono [OF k])
qed

text \<open>
  C15. After \<open>kinit\<close>, the free list holds every whole page between the end of the kernel and
  \<open>PHYSTOP\<close>, each once, the highest first.
\<close>

theorem kinit_frees_all:
  assumes "0 < kend s" "kend s \<le> PHYSTOP - PGSIZE" "freelist s = 0" "LKmem \<notin> set (held s)"
  defines "p \<equiv> PGROUNDUP (kend s)"
  shows "wp kinit (\<lambda>_ t. kmem_inv (rev (frames p (unat (PHYSTOP - p) div 4096))) t \<and> mem_only s t) s"
proof -
  have b: "unat (kend s) + 4096 \<le> unat PHYSTOP" using assms(2) by (simp add: word_le_nat_alt)
  then have b': "unat (kend s) + 4096 \<le> 2 ^ 64" by simp
  note p = PGROUNDUP_bounds [OF b', folded p_def]
  have "p \<le> PHYSTOP" using p(2) b by (simp add: word_le_nat_alt)
  then have "unat (PHYSTOP - p) = unat PHYSTOP - unat p" by (rule unat_sub)
  then show ?thesis
    using wp_freerange_loop [of "[]" s p PHYSTOP _ "Suc (unat PHYSTOP)"] assms(1,3,4) p b
      PGROUNDUP_aligned [of "kend s", folded p_def]
    by (simp add: kinit_def freerange_def p_def [symmetric] kmem_inv_def less_Suc_eq_le)
qed

section \<open>Clients of a page allocator\<close>

text \<open>
  What clients of a page allocator do: allocate, give back a page they own, write into the pages they
  own. The list holds the pages that clients own.
\<close>

inductive page_trace :: "('s, uint64) kmon \<Rightarrow> (uint64 \<Rightarrow> ('s, unit) kmon) \<Rightarrow>
    (uint64 \<Rightarrow> uint64 \<Rightarrow> ('s, unit) kmon) \<Rightarrow> 's \<Rightarrow> 's \<Rightarrow> uint64 list \<Rightarrow> bool"
  for alloc :: "('s, uint64) kmon" and free :: "uint64 \<Rightarrow> ('s, unit) kmon"
    and put :: "uint64 \<Rightarrow> uint64 \<Rightarrow> ('s, unit) kmon" and s0 :: 's where
  pt_start: "page_trace alloc free put s0 s0 []"
| pt_alloc: "page_trace alloc free put s0 s us \<Longrightarrow> alloc s = Done r t \<Longrightarrow> r \<noteq> 0 \<Longrightarrow>
    page_trace alloc free put s0 t (r # us)"
| pt_fail: "page_trace alloc free put s0 s us \<Longrightarrow> alloc s = Done 0 t \<Longrightarrow>
    page_trace alloc free put s0 t us"
| pt_free: "page_trace alloc free put s0 s us \<Longrightarrow> pa \<in> set us \<Longrightarrow> free pa s = Done u t \<Longrightarrow>
    page_trace alloc free put s0 t (remove1 pa us)"
| pt_write: "page_trace alloc free put s0 s us \<Longrightarrow> aligned8 x \<Longrightarrow> PGROUNDDOWN x \<in> set us \<Longrightarrow>
    put x v s = Done u t \<Longrightarrow> page_trace alloc free put s0 t us"

locale page_allocator =
  fixes alloc :: "('s, uint64) kmon"
    and free :: "uint64 \<Rightarrow> ('s, unit) kmon"
    and put :: "uint64 \<Rightarrow> uint64 \<Rightarrow> ('s, unit) kmon"
    and frees :: "uint64 list \<Rightarrow> 's \<Rightarrow> bool"
    and frame :: "'s \<Rightarrow> uint64 \<Rightarrow> bool"
  assumes frees_ok: "frees ps s \<Longrightarrow> distinct ps \<and> (\<forall>a \<in> set ps. frame s a \<and> a \<noteq> 0)"
    and alloc_some: "frees (a # ps) s \<Longrightarrow> wp alloc (\<lambda>r t. r = a \<and> frees ps t \<and> frame t = frame s) s"
    and alloc_none: "frees [] s \<Longrightarrow> alloc s = Done 0 s"
    and free_ok: "frees ps s \<Longrightarrow> frame s pa \<Longrightarrow> pa \<notin> set ps \<Longrightarrow>
      wp (free pa) (\<lambda>_ t. frees (pa # ps) t \<and> frame t = frame s) s"
    and write_ok: "frees ps s \<Longrightarrow> aligned8 x \<Longrightarrow> PGROUNDDOWN x \<notin> set ps \<Longrightarrow>
      wp (put x v) (\<lambda>_ t. frees ps t \<and> frame t = frame s) s"
begin

lemma trace_conserves:
  assumes "page_trace alloc free put s0 s us" and "frees ps s0"
  shows "\<exists>qs. frees qs s \<and> mset us + mset qs = mset ps \<and> frame s = frame s0"
  using assms(1)
proof (induction rule: page_trace.induct)
  case pt_start
  then show ?case using assms(2) by auto
next
  case (pt_alloc s us r t)
  then obtain qs where qs: "frees qs s" "mset us + mset qs = mset ps" "frame s = frame s0" by auto
  obtain q qs' where q: "qs = q # qs'" using qs(1) alloc_none pt_alloc by (cases qs) auto
  then show ?case using qs wp_DoneD [OF alloc_some pt_alloc(2), of q qs'] by (auto intro!: exI [of _ qs'])
next
  case (pt_fail s us t)
  then obtain qs where qs: "frees qs s" "mset us + mset qs = mset ps" "frame s = frame s0" by auto
  have "qs = []" using qs(1) frees_ok wp_DoneD [OF alloc_some pt_fail(2)] by (cases qs) auto
  then show ?case using qs alloc_none pt_fail(2) by (auto intro!: exI [of _ "[]"])
next
  case (pt_free s us pa u t)
  then obtain qs where qs: "frees qs s" "mset us + mset qs = mset ps" "frame s = frame s0" by auto
  have pa: "pa \<in># mset ps" "frame s0 pa" "pa \<notin> set qs"
  proof -
    show "pa \<in># mset ps" using qs(2) pt_free(2) by (metis set_mset_mset union_iff)
    then show "frame s0 pa" using frees_ok [OF assms(2)] by simp
    have "distinct (us @ qs)" using frees_ok [OF assms(2)] qs(2) by (metis mset_append mset_eq_imp_distinct_iff)
    then show "pa \<notin> set qs" using pt_free(2) by auto
  qed
  then have "frees (pa # qs) t" "frame t = frame s0"
    using wp_DoneD [OF free_ok pt_free(3), of qs] qs by auto
  then show ?case using qs(2) pt_free(2) by (auto intro!: exI [of _ "pa # qs"])
next
  case (pt_write s us x v u t)
  then obtain qs where qs: "frees qs s" "mset us + mset qs = mset ps" "frame s = frame s0" by auto
  have "distinct (us @ qs)" using frees_ok [OF assms(2)] qs(2) by (metis mset_append mset_eq_imp_distinct_iff)
  then have "PGROUNDDOWN x \<notin> set qs" using pt_write(3) by auto
  then show ?case using wp_DoneD [OF write_ok pt_write(4), of qs] qs pt_write(2) by auto
qed

lemma alloc_free_roundtrip:
  assumes "frees (a # ps) s"
  shows "wp (bnd alloc (\<lambda>r. free r)) (\<lambda>_. frees (a # ps)) s"
proof -
  have a: "frame s a" "a \<notin> set ps" using frees_ok [OF assms] by auto
  show ?thesis unfolding wp_bnd
    by (rule wp_mono [OF alloc_some [OF assms]]) (use a in \<open>auto intro!: wp_mono [OF free_ok]\<close>)
qed

end

definition kmem_frees :: "uint64 list \<Rightarrow> 'z kmem_scheme \<Rightarrow> bool" where
  "kmem_frees ps s \<longleftrightarrow> kmem_inv ps s \<and> LKmem \<notin> set (held s)"

interpretation pages: page_allocator kalloc kfree st kmem_frees "\<lambda>s. frame_ok (kend s)"
proof
  fix ps :: "uint64 list" and s :: "'z kmem_scheme"
  assume *: "kmem_frees ps s"
  then show "distinct ps \<and> (\<forall>a \<in> set ps. frame_ok (kend s) a \<and> a \<noteq> 0)"
    using frame_ok_nonzero by (auto simp: kmem_frees_def kmem_inv_def)
next
  fix a ps and s :: "'z kmem_scheme"
  assume "kmem_frees (a # ps) s"
  then have inv: "kmem_inv (a # ps) s" and lk: "LKmem \<notin> set (held s)" by (auto simp: kmem_frees_def)
  show "wp kalloc (\<lambda>r t. r = a \<and> kmem_frees ps t \<and> frame_ok (kend t) = frame_ok (kend s)) s"
  proof (rule wp_mono [OF wp_kalloc_some [OF inv lk]])
    fix r t
    assume *: "r = a \<and> kmem_inv ps t \<and> same_outside {a} (mem s) (mem t) \<and>
      mem_only s t"
    then have "kend t = kend s" "held t = held s" by (simp_all add: mem_onlyD)
    with * lk show "r = a \<and> kmem_frees ps t \<and> frame_ok (kend t) = frame_ok (kend s)"
      by (simp add: kmem_frees_def)
  qed
next
  fix s :: "'z kmem_scheme"
  assume "kmem_frees [] s"
  then show "kalloc s = Done 0 s" using wp_kalloc_none by (auto simp: kmem_frees_def)
next
  fix ps pa and s :: "'z kmem_scheme"
  assume "kmem_frees ps s" and pa: "frame_ok (kend s) pa" "pa \<notin> set ps"
  then have inv: "kmem_inv ps s" and lk: "LKmem \<notin> set (held s)" by (auto simp: kmem_frees_def)
  show "wp (kfree pa) (\<lambda>_ t. kmem_frees (pa # ps) t \<and> frame_ok (kend t) = frame_ok (kend s)) s"
  proof (rule wp_mono [OF wp_kfree [OF inv pa lk]])
    fix r t
    assume *: "kmem_inv (pa # ps) t \<and> same_outside {pa} (mem s) (mem t) \<and> mem_only s t"
    then have "kend t = kend s" "held t = held s" by (simp_all add: mem_onlyD)
    with * lk show "kmem_frees (pa # ps) t \<and> frame_ok (kend t) = frame_ok (kend s)"
      by (simp add: kmem_frees_def)
  qed
next
  fix ps x v and s :: "'z kmem_scheme"
  assume *: "kmem_frees ps s" "aligned8 x" "PGROUNDDOWN x \<notin> set ps"
  have "PGROUNDDOWN a = a" if "a \<in> set ps" for a
    using that *(1) by (auto simp: kmem_frees_def kmem_inv_def frame_ok_def)
  then have "x \<notin> set ps" using *(3) by auto
  then have "flist ((mem s)(x := v)) (freelist s) ps = flist (mem s) (freelist s) ps"
    by (intro flist_cong) auto
  with *(1) show "wp (st x v) (\<lambda>_ t. kmem_frees ps t \<and> frame_ok (kend t) = frame_ok (kend s)) s"
    by (simp add: kmem_frees_def kmem_inv_def)
qed

text \<open>
  C13. No page is lost and none is handed out twice: after any sequence of \<open>kalloc\<close>s, \<open>kfree\<close>s of
  owned pages and writes into owned pages, the pages that clients own and the free list together are
  the pages that were free at the start, each exactly once.
\<close>

theorem kalloc_conserves:
  assumes "kmem_frees ps s0" "page_trace kalloc kfree st s0 s us"
  shows "\<exists>qs. kmem_frees qs s \<and> mset us + mset qs = mset ps \<and> distinct (us @ qs)"
proof -
  obtain qs where qs: "kmem_frees qs s" "mset us + mset qs = mset ps"
    using pages.trace_conserves [OF assms(2,1)] by blast
  have "distinct ps" using pages.frees_ok [OF assms(1)] by simp
  then have "distinct (us @ qs)" using qs(2) by (metis mset_append mset_eq_imp_distinct_iff)
  with qs show ?thesis by blast
qed

definition demo_free2 :: kmem where
  "demo_free2 = \<lparr>held = [], cproc = None, cthread = None, mem = (\<lambda>_. 0)(0x80005000 := 0x80006000),
     freelist = 0x80005000, kend = 0x80004000\<rparr>"

lemma demo_frees: "kmem_frees [0x80005000, 0x80006000] demo_free2"
  by (simp add: kmem_frees_def kmem_inv_def demo_free2_def frame_ok_def page_aligned_def)

theorem kalloc_conserves_witness:
  "\<exists>s. page_trace kalloc kfree st demo_free2 s [0x80005000] \<and>
     (\<exists>qs. kmem_frees qs s \<and> mset [0x80005000] + mset qs = mset [0x80005000, 0x80006000] \<and>
       distinct ([0x80005000] @ qs))"
proof -
  obtain s where s: "kalloc demo_free2 = Done 0x80005000 s"
    using pages.alloc_some [OF demo_frees] unfolding wp_obtain by blast
  have "page_trace kalloc kfree st demo_free2 s [0x80005000]"
    using page_trace.pt_alloc [of kalloc kfree st demo_free2 demo_free2 "[]" "0x80005000" s]
      page_trace.pt_start [of kalloc kfree st demo_free2] s by simp
  then show ?thesis using kalloc_conserves [OF demo_frees] by blast
qed

theorem kinit_frees_all_witness:
  "wp kinit (\<lambda>_ t. kmem_inv (rev (frames (PGROUNDUP 0x80021040) (unat (PHYSTOP - PGROUNDUP 0x80021040) div 4096))) t \<and>
     mem_only (demo_free2\<lparr>freelist := 0, kend := 0x80021040\<rparr>) t) (demo_free2\<lparr>freelist := 0, kend := 0x80021040\<rparr>)"
  using kinit_frees_all [of "demo_free2\<lparr>freelist := 0, kend := 0x80021040\<rparr>"]
  by (simp add: demo_free2_def)

end
