(* ===== verification/Xv6_Vm.thy ===== *)
theory Xv6_Vm
  imports Xv6_Kalloc
begin

text \<open>
  Page tables (\<^verbatim>\<open>kernel/vm.c\<close> and \<open>proc_mapstacks\<close> of \<^verbatim>\<open>kernel/proc.c\<close>).

  A page-table page is a page of physical memory; \<open>pagetable[i]\<close> is the 64-bit cell at
  \<open>pagetable + 8 * i\<close>. A null pointer result is the address 0, and a store through it is \<open>fault\<close>.
\<close>

section \<open>kernel/vm.c\<close>

definition pte_addr :: "uint64 \<Rightarrow> uint64 \<Rightarrow> uint64" where
  "pte_addr pagetable i = pagetable + 8 * i"

text \<open>The loop of \<open>walk\<close>: \<open>level\<close> counts down from 2, and the level-0 entry ends it.\<close>

fun walk_loop :: "nat \<Rightarrow> uint64 \<Rightarrow> uint64 \<Rightarrow> bool \<Rightarrow> ('z kmem_scheme, uint64) kmon" where
  "walk_loop 0 pagetable va alloc = ret (pte_addr pagetable (PX 0 va))"
| "walk_loop (Suc l) pagetable va alloc =
     bnd (ld (pte_addr pagetable (PX (Suc l) va))) (\<lambda>pte.
     if pte AND PTE_V \<noteq> 0 then walk_loop l (PTE2PA pte) va alloc
     else if \<not> alloc then ret 0
     else
     bnd kalloc (\<lambda>pg.
     if pg = 0 then ret 0
     else
     bnd (memset_k pg 0 (unat PGSIZE)) (\<lambda>_.
     bnd (st (pte_addr pagetable (PX (Suc l) va)) (PA2PTE pg OR PTE_V)) (\<lambda>_.
     walk_loop l pg va alloc))))"

definition walk :: "uint64 \<Rightarrow> uint64 \<Rightarrow> bool \<Rightarrow> ('z kmem_scheme, uint64) kmon" where
  "walk pagetable va alloc =
     (if va \<ge> MAXVA then panic ''walk'' else walk_loop 2 pagetable va alloc)"

definition walkaddr :: "uint64 \<Rightarrow> uint64 \<Rightarrow> ('z kmem_scheme, uint64) kmon" where
  "walkaddr pagetable va =
     (if va \<ge> MAXVA then ret 0 else
      bnd (walk pagetable va False) (\<lambda>pte.
      if pte = 0 then ret 0 else
      bnd (ld pte) (\<lambda>e.
      if e AND PTE_V = 0 then ret 0 else
      if e AND PTE_U = 0 then ret 0 else
      ret (PTE2PA e))))"

text \<open>
  The loop of \<open>mappages\<close> runs once per page from \<open>a\<close> to \<open>fin\<close> (\<open>last\<close> in the source); the fuel is one more than the
  number of pages of the 64-bit address space between them.
\<close>

fun mappages_loop :: "nat \<Rightarrow> uint64 \<Rightarrow> uint64 \<Rightarrow> uint64 \<Rightarrow> uint64 \<Rightarrow> uint64 \<Rightarrow> ('z kmem_scheme, int) kmon" where
  "mappages_loop 0 pagetable a fin pa perm = spins"
| "mappages_loop (Suc fuel) pagetable a fin pa perm =
     bnd (walk pagetable a True) (\<lambda>pte.
     if pte = 0 then ret (- 1) else
     bnd (ld pte) (\<lambda>e.
     if e AND PTE_V \<noteq> 0 then panic ''remap'' else
     bnd (st pte (PA2PTE pa OR perm OR PTE_V)) (\<lambda>_.
     if a = fin then ret 0
     else mappages_loop fuel pagetable (a + PGSIZE) fin (pa + PGSIZE) perm)))"

definition mappages :: "uint64 \<Rightarrow> uint64 \<Rightarrow> uint64 \<Rightarrow> uint64 \<Rightarrow> uint64 \<Rightarrow> ('z kmem_scheme, int) kmon" where
  "mappages pagetable va sz pa perm =
     (let a = PGROUNDDOWN va; fin = PGROUNDDOWN (va + sz - 1)
      in mappages_loop (Suc (unat (fin - a) div 4096)) pagetable a fin pa perm)"

definition kvmmap :: "uint64 \<Rightarrow> uint64 \<Rightarrow> uint64 \<Rightarrow> uint64 \<Rightarrow> uint64 \<Rightarrow> ('z kmem_scheme, unit) kmon" where
  "kvmmap kpgtbl va pa sz perm =
     bnd (mappages kpgtbl va sz pa perm) (\<lambda>r. if r \<noteq> 0 then panic ''kvmmap'' else ret ())"

text \<open>\<open>proc_mapstacks\<close> gives each of the \<open>NTHREAD\<close> threads of each process slot a kernel stack.\<close>

definition proc_mapstacks :: "uint64 \<Rightarrow> ('z kmem_scheme, unit) kmon" where
  "proc_mapstacks kpgtbl =
     for_each [0..<NPROC] (\<lambda>p. for_each [0..<NTHREAD] (\<lambda>t.
       bnd kalloc (\<lambda>pa.
       if pa = 0 then panic ''kalloc''
       else kvmmap kpgtbl (KSTACK p t) pa PGSIZE (PTE_R OR PTE_W))))"

text \<open>\<open>etext\<close> and \<open>trampoline\<close> are addresses that the linker script provides.\<close>

definition kvmmake :: "uint64 \<Rightarrow> uint64 \<Rightarrow> ('z kmem_scheme, uint64) kmon" where
  "kvmmake etext trampoline =
     bnd kalloc (\<lambda>kpgtbl.
     if kpgtbl = 0 then fault else
     bnd (memset_k kpgtbl 0 (unat PGSIZE)) (\<lambda>_.
     bnd (kvmmap kpgtbl UART0 UART0 PGSIZE (PTE_R OR PTE_W)) (\<lambda>_.
     bnd (kvmmap kpgtbl VIRTIO0 VIRTIO0 PGSIZE (PTE_R OR PTE_W)) (\<lambda>_.
     bnd (kvmmap kpgtbl PLIC PLIC 0x400000 (PTE_R OR PTE_W)) (\<lambda>_.
     bnd (kvmmap kpgtbl KERNBASE KERNBASE (etext - KERNBASE) (PTE_R OR PTE_X)) (\<lambda>_.
     bnd (kvmmap kpgtbl etext etext (PHYSTOP - etext) (PTE_R OR PTE_W)) (\<lambda>_.
     bnd (kvmmap kpgtbl TRAMPOLINE trampoline PGSIZE (PTE_R OR PTE_X)) (\<lambda>_.
     bnd (proc_mapstacks kpgtbl) (\<lambda>_.
     ret kpgtbl)))))))))"

text \<open>The range of \<open>uvmunmap\<close> is page aligned, so its loop runs at most \<open>npages\<close> times.\<close>

fun uvmunmap_loop :: "nat \<Rightarrow> uint64 \<Rightarrow> uint64 \<Rightarrow> uint64 \<Rightarrow> bool \<Rightarrow> ('z kmem_scheme, unit) kmon" where
  "uvmunmap_loop fuel pagetable a bound do_free =
     (if a < bound then
        case fuel of
          0 \<Rightarrow> spins
        | Suc f \<Rightarrow>
          bnd (walk pagetable a False) (\<lambda>pte.
          if pte = 0 then panic ''uvmunmap: walk'' else
          bnd (ld pte) (\<lambda>e.
          if e AND PTE_V = 0 then panic ''uvmunmap: not mapped'' else
          if PTE_FLAGS e = PTE_V then panic ''uvmunmap: not a leaf'' else
          bnd (if do_free then kfree (PTE2PA e) else ret ()) (\<lambda>_.
          bnd (st pte 0) (\<lambda>_.
          uvmunmap_loop f pagetable (a + PGSIZE) bound do_free))))
      else ret ())"

definition uvmunmap :: "uint64 \<Rightarrow> uint64 \<Rightarrow> uint64 \<Rightarrow> bool \<Rightarrow> ('z kmem_scheme, unit) kmon" where
  "uvmunmap pagetable va npages do_free =
     (if va mod PGSIZE \<noteq> 0 then panic ''uvmunmap: not aligned''
      else uvmunmap_loop (unat npages) pagetable va (va + npages * PGSIZE) do_free)"

definition uvmcreate :: "('z kmem_scheme, uint64) kmon" where
  "uvmcreate =
     bnd kalloc (\<lambda>pagetable.
     if pagetable = 0 then ret 0 else
     bnd (memset_k pagetable 0 (unat PGSIZE)) (\<lambda>_. ret pagetable))"

definition uvminit :: "uint64 \<Rightarrow> uint64 \<Rightarrow> uint \<Rightarrow> ('z kmem_scheme, unit) kmon" where
  "uvminit pagetable src sz =
     (if ucast sz \<ge> PGSIZE then panic ''inituvm: more than a page'' else
      bnd kalloc (\<lambda>pg.
      if pg = 0 then fault else
      bnd (memset_k pg 0 (unat PGSIZE)) (\<lambda>_.
      bnd (mappages pagetable 0 PGSIZE pg (PTE_W OR PTE_R OR PTE_X OR PTE_U)) (\<lambda>_.
      memmove_k pg src (unat sz)))))"

text \<open>\<open>int npages\<close> keeps the low 32 bits, and the call of \<open>uvmunmap\<close> sign-extends them.\<close>

definition uvmdealloc :: "uint64 \<Rightarrow> uint64 \<Rightarrow> uint64 \<Rightarrow> ('z kmem_scheme, uint64) kmon" where
  "uvmdealloc pagetable oldsz newsz =
     (if newsz \<ge> oldsz then ret oldsz else
      bnd (if PGROUNDUP newsz < PGROUNDUP oldsz then
             (let npages = ucast ((PGROUNDUP oldsz - PGROUNDUP newsz) div PGSIZE) :: 32 word
              in uvmunmap pagetable (PGROUNDUP newsz) (scast npages) True)
           else ret ()) (\<lambda>_.
      ret newsz))"

fun uvmalloc_loop :: "nat \<Rightarrow> uint64 \<Rightarrow> uint64 \<Rightarrow> uint64 \<Rightarrow> uint64 \<Rightarrow> ('z kmem_scheme, uint64) kmon" where
  "uvmalloc_loop fuel pagetable a oldsz newsz =
     (if a < newsz then
        case fuel of
          0 \<Rightarrow> spins
        | Suc f \<Rightarrow>
          bnd kalloc (\<lambda>pg.
          if pg = 0 then bnd (uvmdealloc pagetable a oldsz) (\<lambda>_. ret 0) else
          bnd (memset_k pg 0 (unat PGSIZE)) (\<lambda>_.
          bnd (mappages pagetable a PGSIZE pg (PTE_W OR PTE_X OR PTE_R OR PTE_U)) (\<lambda>r.
          if r \<noteq> 0 then
            bnd (kfree pg) (\<lambda>_. bnd (uvmdealloc pagetable a oldsz) (\<lambda>_. ret 0))
          else uvmalloc_loop f pagetable (a + PGSIZE) oldsz newsz)))
      else ret newsz)"

definition uvmalloc :: "uint64 \<Rightarrow> uint64 \<Rightarrow> uint64 \<Rightarrow> ('z kmem_scheme, uint64) kmon" where
  "uvmalloc pagetable oldsz newsz =
     (if newsz < oldsz then ret oldsz
      else uvmalloc_loop (Suc (unat newsz div 4096)) pagetable (PGROUNDUP oldsz) (PGROUNDUP oldsz) newsz)"

text \<open>
  \<open>freewalk\<close> recurses on the kernel stack, one page with an unmapped page below it: a chain of tables
  deeper than the 16-byte minimal frames that fit the page faults. The tables of \<open>walk\<close> have depth 3.
\<close>

fun freewalk_rec :: "nat \<Rightarrow> uint64 \<Rightarrow> ('z kmem_scheme, unit) kmon" where
  "freewalk_rec 0 pagetable = fault"
| "freewalk_rec (Suc depth) pagetable =
     bnd (for_each (map of_nat [0..<512]) (\<lambda>i.
       bnd (ld (pte_addr pagetable i)) (\<lambda>pte.
       if pte AND PTE_V \<noteq> 0 \<and> pte AND (PTE_R OR PTE_W OR PTE_X) = 0 then
         bnd (freewalk_rec depth (PTE2PA pte)) (\<lambda>_.
         st (pte_addr pagetable i) 0)
       else if pte AND PTE_V \<noteq> 0 then panic ''freewalk: leaf''
       else ret ()))) (\<lambda>_.
     kfree pagetable)"

definition freewalk :: "uint64 \<Rightarrow> ('z kmem_scheme, unit) kmon" where
  "freewalk pagetable = freewalk_rec 256 pagetable"

definition uvmfree :: "uint64 \<Rightarrow> uint64 \<Rightarrow> ('z kmem_scheme, unit) kmon" where
  "uvmfree pagetable sz =
     bnd (if sz > 0 then uvmunmap pagetable 0 (PGROUNDUP sz div PGSIZE) True else ret ()) (\<lambda>_.
     freewalk pagetable)"

definition uvmcopy_err :: "uint64 \<Rightarrow> uint64 \<Rightarrow> ('z kmem_scheme, int) kmon" where
  "uvmcopy_err new i = bnd (uvmunmap new 0 (i div PGSIZE) True) (\<lambda>_. ret (- 1))"

fun uvmcopy_loop :: "nat \<Rightarrow> uint64 \<Rightarrow> uint64 \<Rightarrow> uint64 \<Rightarrow> uint64 \<Rightarrow> ('z kmem_scheme, int) kmon" where
  "uvmcopy_loop fuel old new i sz =
     (if i < sz then
        case fuel of
          0 \<Rightarrow> spins
        | Suc f \<Rightarrow>
          bnd (walk old i False) (\<lambda>pte.
          if pte = 0 then panic ''uvmcopy: pte should exist'' else
          bnd (ld pte) (\<lambda>e.
          if e AND PTE_V = 0 then panic ''uvmcopy: page not present'' else
          bnd kalloc (\<lambda>pg.
          if pg = 0 then uvmcopy_err new i else
          bnd (memmove_k pg (PTE2PA e) (unat PGSIZE)) (\<lambda>_.
          bnd (mappages new i PGSIZE pg (PTE_FLAGS e)) (\<lambda>r.
          if r \<noteq> 0 then bnd (kfree pg) (\<lambda>_. uvmcopy_err new i)
          else uvmcopy_loop f old new (i + PGSIZE) sz)))))
      else ret 0)"

definition uvmcopy :: "uint64 \<Rightarrow> uint64 \<Rightarrow> uint64 \<Rightarrow> ('z kmem_scheme, int) kmon" where
  "uvmcopy old new sz = uvmcopy_loop (Suc (unat sz div 4096)) old new 0 sz"

definition uvmclear :: "uint64 \<Rightarrow> uint64 \<Rightarrow> ('z kmem_scheme, unit) kmon" where
  "uvmclear pagetable va =
     bnd (walk pagetable va False) (\<lambda>pte.
     if pte = 0 then panic ''uvmclear'' else
     bnd (ld pte) (\<lambda>e. st pte (e AND NOT PTE_U)))"

declare uvmunmap_loop.simps [simp del] uvmalloc_loop.simps [simp del] uvmcopy_loop.simps [simp del]

section \<open>Copying between kernel and user space\<close>

text \<open>How much of \<open>len\<close> bytes from \<open>va\<close> on lies in the page of \<open>va\<close>.\<close>

definition chunk :: "uint64 \<Rightarrow> uint64 \<Rightarrow> uint64" where
  "chunk va len = (let n = PGSIZE - (va - PGROUNDDOWN va) in if n > len then len else n)"

lemma page_offset: "unat (va - PGROUNDDOWN va) = unat va mod 4096"
  by (simp add: unat_sub [OF PGROUNDDOWN_le] unat_PGROUNDDOWN modulo_nat_def)

lemma unat_chunk: "unat (chunk va len) = min (4096 - unat va mod 4096) (unat len)"
proof -
  have "unat (va - PGROUNDDOWN va) < 4096" by (simp add: page_offset)
  then have "va - PGROUNDDOWN va \<le> 4096" by (simp add: word_le_nat_alt)
  then have "unat (4096 - (va - PGROUNDDOWN va)) = 4096 - unat va mod 4096"
    by (simp add: unat_sub page_offset)
  then show ?thesis by (simp add: chunk_def Let_def word_less_nat_alt)
qed

lemma chunk_le: "chunk va len \<le> len"
  by (simp add: word_le_nat_alt unat_chunk)

lemma chunk_pos: "len \<noteq> 0 \<Longrightarrow> unat (chunk va len) > 0"
  by (simp add: unat_chunk unat_gt_0)

lemma chunk_decreases: "len \<noteq> 0 \<Longrightarrow> unat (len - chunk va len) < unat len"
  using chunk_pos [of len va] unat_gt_0 [of len] by (simp add: unat_sub chunk_le)

function copyout :: "uint64 \<Rightarrow> uint64 \<Rightarrow> uint64 \<Rightarrow> uint64 \<Rightarrow> ('z kmem_scheme, int) kmon" where
  "copyout pagetable dstva src len =
     (if len = 0 then ret 0 else
      let va0 = PGROUNDDOWN dstva; n = chunk dstva len in
      bnd (walkaddr pagetable va0) (\<lambda>pa0.
      if pa0 = 0 then ret (- 1) else
      bnd (memmove_k (pa0 + (dstva - va0)) src (unat n)) (\<lambda>_.
      copyout pagetable (va0 + PGSIZE) (src + n) (len - n))))"
  by pat_completeness auto
termination by (relation "measure (\<lambda>(_, _, _, len). unat len)") (auto simp: chunk_decreases)

function copyin :: "uint64 \<Rightarrow> uint64 \<Rightarrow> uint64 \<Rightarrow> uint64 \<Rightarrow> ('z kmem_scheme, int) kmon" where
  "copyin pagetable dst srcva len =
     (if len = 0 then ret 0 else
      let va0 = PGROUNDDOWN srcva; n = chunk srcva len in
      bnd (walkaddr pagetable va0) (\<lambda>pa0.
      if pa0 = 0 then ret (- 1) else
      bnd (memmove_k dst (pa0 + (srcva - va0)) (unat n)) (\<lambda>_.
      copyin pagetable (dst + n) (va0 + PGSIZE) (len - n))))"
  by pat_completeness auto
termination by (relation "measure (\<lambda>(_, _, _, len). unat len)") (auto simp: chunk_decreases)

definition ld8 :: "uint64 \<Rightarrow> ('z kmem_scheme, byte) kmon" where
  "ld8 a = gets (\<lambda>s. load8 (mem s) a)"

definition st8 :: "uint64 \<Rightarrow> byte \<Rightarrow> ('z kmem_scheme, unit) kmon" where
  "st8 a v = modify (\<lambda>s. s\<lparr>mem := store8 (mem s) a v\<rparr>)"

text \<open>The inner loop of \<open>copyinstr\<close> over \<open>n\<close> bytes of a page; it returns \<open>got_null\<close>.\<close>

fun copyinstr_page :: "nat \<Rightarrow> uint64 \<Rightarrow> uint64 \<Rightarrow> ('z kmem_scheme, bool) kmon" where
  "copyinstr_page 0 p dst = ret False"
| "copyinstr_page (Suc n) p dst =
     bnd (ld8 p) (\<lambda>c.
     if c = 0 then bnd (st8 dst 0) (\<lambda>_. ret True)
     else bnd (st8 dst c) (\<lambda>_. copyinstr_page n (p + 1) (dst + 1)))"

text \<open>\<open>max\<close> and \<open>dst\<close> advance by the bytes copied, which without a null are the whole chunk.\<close>

function copyinstr :: "uint64 \<Rightarrow> uint64 \<Rightarrow> uint64 \<Rightarrow> uint64 \<Rightarrow> ('z kmem_scheme, int) kmon" where
  "copyinstr pagetable dst srcva maxn =
     (if maxn = 0 then ret (- 1) else
      let va0 = PGROUNDDOWN srcva; n = chunk srcva maxn in
      bnd (walkaddr pagetable va0) (\<lambda>pa0.
      if pa0 = 0 then ret (- 1) else
      bnd (copyinstr_page (unat n) (pa0 + (srcva - va0)) dst) (\<lambda>got_null.
      if got_null then ret 0
      else copyinstr pagetable (dst + n) (va0 + PGSIZE) (maxn - n))))"
  by pat_completeness auto
termination by (relation "measure (\<lambda>(_, _, _, len). unat len)") (auto simp: chunk_decreases)

declare copyout.simps [simp del] copyin.simps [simp del] copyinstr.simps [simp del]

lemma wp_ld8 [kwp, simp]: "wp (ld8 a) Q s = Q (load8 (mem s) a) s"
  by (simp add: ld8_def)

lemma wp_st8 [kwp, simp]: "wp (st8 a v) Q s = Q () (s\<lparr>mem := store8 (mem s) a v\<rparr>)"
  by (simp add: st8_def)

end
