(* ===== verification/Xv6_PageTable.thy ===== *)
theory Xv6_PageTable
  imports Xv6_Vm "HOL-Library.Sublist"
begin

text \<open>
  What the page-table code of \<open>Xv6_Vm\<close> does: the tree of page-table pages that a root describes, its
  well-formedness, and the effect of \<open>walk\<close>, \<open>mappages\<close> and \<open>walkaddr\<close> on the mapping it stands for.
\<close>

section \<open>Entries and indices\<close>

lemma PX_less: "PX l va < 512"
proof -
  have "PX l va = take_bit 9 (drop_bit (PXSHIFT l) va)"
    by (simp add: PX_def take_bit_eq_mask mask_eq_exp_minus_1)
  then show ?thesis
    by (simp add: word_less_nat_alt unsigned_take_bit_eq take_bit_nat_less_exp [of 9, simplified])
qed

lemma pte_addr_bounds:
  assumes "page_aligned pt" "i < 512"
  shows "PGROUNDDOWN (pte_addr pt i) = pt" "aligned8 (pte_addr pt i)"
proof -
  have "unat (8 * i) < 4096" using assms(2) by (simp add: word_less_nat_alt unat_word_ariths)
  then have "unat (pte_addr pt i - pt) < 4096" by (simp add: pte_addr_def)
  then show "PGROUNDDOWN (pte_addr pt i) = pt" using in_page_iff [OF assms(1)] by simp
  have "8 dvd unat pt" using assms(1) by (auto simp: page_aligned_unat intro: dvd_trans)
  then have "8 dvd (unat pt + 8 * unat i) mod 2 ^ 64" by (intro dvd_mod) auto
  then show "aligned8 (pte_addr pt i)"
    by (simp add: aligned8_unat pte_addr_def unat_word_ariths mod_simps)
qed

lemma pte_addr_inj:
  assumes "pte_addr pt i = pte_addr pt j" "i < 512" "j < 512"
  shows "i = j"
proof -
  have "8 * i = 8 * j" using assms(1) by (simp add: pte_addr_def)
  then have "unat (8 * i) = unat (8 * j)" by simp
  then show ?thesis using assms(2,3) by (simp add: word_less_nat_alt word_eq_unat unat_word_ariths)
qed

lemma pte_addr_eq_iff:
  assumes "page_aligned pt" "page_aligned pt'" "i < 512" "j < 512"
  shows "pte_addr pt i = pte_addr pt' j \<longleftrightarrow> pt = pt' \<and> i = j"
  using pte_addr_bounds(1) [OF assms(1,3)] pte_addr_bounds(1) [OF assms(2,4)] pte_addr_inj [OF _ assms(3,4)]
  by auto

lemma pte_addr_nonzero: "page_aligned pt \<Longrightarrow> pt \<noteq> 0 \<Longrightarrow> i < 512 \<Longrightarrow> pte_addr pt i \<noteq> 0"
proof
  assume "page_aligned pt" "pt \<noteq> 0" "i < 512" "pte_addr pt i = 0"
  then have "PGROUNDDOWN 0 = pt" using pte_addr_bounds(1) by metis
  then show False using \<open>pt \<noteq> 0\<close> by (simp add: PGROUNDDOWN_alt)
qed

text \<open>An entry made of a page's address and flag bits gives both back.\<close>

lemma bit_high:
  assumes "unat (f :: uint64) < 2 ^ j" "j \<le> k"
  shows "\<not> bit f k"
proof -
  have "unat f < 2 ^ k" using assms by (meson less_le_trans one_le_numeral power_increasing)
  then have "\<not> bit (unat f) k" by (simp add: bit_iff_odd)
  then show ?thesis by (simp add: bit_unsigned_iff bit_imp_le_length)
qed

lemma PTE2PA_PA2PTE:
  assumes "page_aligned pa" "f < 1024"
  shows "PTE2PA (PA2PTE pa OR f) = pa"
proof (rule bit_word_eqI)
  fix n
  assume n: "n < LENGTH(64)"
  have pa: "pa = push_bit 12 (drop_bit 12 pa)" using PGROUNDDOWN_of_aligned [OF assms(1)]
    by (simp add: PGROUNDDOWN_alt)
  show "bit (PTE2PA (PA2PTE pa OR f)) n = bit pa n"
  proof (cases "12 \<le> n")
    case False
    then have "\<not> bit pa n" by (subst pa) (simp add: bit_push_bit_iff)
    with False show ?thesis by (simp add: PTE2PA_def bit_push_bit_iff bit_or_iff)
  next
    case True
    then obtain k where k: "n = 12 + k" by (metis le_Suc_ex)
    have "\<not> bit f (10 + k)" using bit_high [of f 10 "10 + k"] assms(2) by (simp add: word_less_nat_alt)
    with n k show ?thesis
      by (simp add: PTE2PA_def PA2PTE_def bit_push_bit_iff bit_drop_bit_eq bit_or_iff possible_bit_def add.commute)
  qed
qed

lemma PTE_flag_bits:
  assumes "k < 10"
  shows "bit (PA2PTE pa OR f) k = bit f k"
  using assms by (simp add: PA2PTE_def bit_simps)

lemma PTE_V_iff: "x AND PTE_V = 0 \<longleftrightarrow> \<not> bit x 0"
  using and_exp_eq_0_iff_not_bit [of x 0] by simp

lemma PTE_U_iff: "x AND PTE_U = 0 \<longleftrightarrow> \<not> bit x 4"
  using and_exp_eq_0_iff_not_bit [of x 4] by simp

section \<open>The tree of page-table pages\<close>

definition pte_valid :: "pmem \<Rightarrow> uint64 \<Rightarrow> uint64 \<Rightarrow> bool" where
  "pte_valid m pt i \<longleftrightarrow> m (pte_addr pt i) AND PTE_V \<noteq> 0"

definition pte_child :: "pmem \<Rightarrow> uint64 \<Rightarrow> uint64 \<Rightarrow> uint64" where
  "pte_child m pt i = PTE2PA (m (pte_addr pt i))"

definition pte_table :: "pmem \<Rightarrow> uint64 \<Rightarrow> uint64 \<Rightarrow> bool" where
  "pte_table m pt i \<longleftrightarrow> m (pte_addr pt i) AND (PTE_R OR PTE_W OR PTE_X) = 0"

text \<open>The address of the leaf entry for \<open>va\<close>, 0 when a table on the way is missing.\<close>

fun walk_pte :: "pmem \<Rightarrow> nat \<Rightarrow> uint64 \<Rightarrow> uint64 \<Rightarrow> uint64" where
  "walk_pte m 0 pt va = pte_addr pt (PX 0 va)"
| "walk_pte m (Suc l) pt va =
     (if pte_valid m pt (PX (Suc l) va) then walk_pte m l (pte_child m pt (PX (Suc l) va)) va else 0)"

definition leaf :: "pmem \<Rightarrow> nat \<Rightarrow> uint64 \<Rightarrow> uint64 \<Rightarrow> uint64" where
  "leaf m l pt va = (if walk_pte m l pt va = 0 then 0 else m (walk_pte m l pt va))"

lemma leaf_Suc:
  "leaf m (Suc l) pt va =
     (if pte_valid m pt (PX (Suc l) va) then leaf m l (pte_child m pt (PX (Suc l) va)) va else 0)"
  by (simp add: leaf_def)

text \<open>All table pages below a table of level \<open>l\<close>, and those that hold no leaf entries.\<close>

fun tpages :: "pmem \<Rightarrow> nat \<Rightarrow> uint64 \<Rightarrow> uint64 set" where
  "tpages m 0 pt = {pt}"
| "tpages m (Suc l) pt = insert pt (\<Union>i\<in>{i. i < 512 \<and> pte_valid m pt i}. tpages m l (pte_child m pt i))"

fun dirs :: "pmem \<Rightarrow> nat \<Rightarrow> uint64 \<Rightarrow> uint64 set" where
  "dirs m 0 pt = {}"
| "dirs m (Suc l) pt = insert pt (\<Union>i\<in>{i. i < 512 \<and> pte_valid m pt i}. dirs m l (pte_child m pt i))"

text \<open>A well-formed table is a tree of distinct frames.\<close>

fun wft :: "uint64 \<Rightarrow> pmem \<Rightarrow> nat \<Rightarrow> uint64 \<Rightarrow> bool" where
  "wft e m 0 pt \<longleftrightarrow> frame_ok e pt"
| "wft e m (Suc l) pt \<longleftrightarrow> frame_ok e pt \<and>
     (\<forall>i < 512. pte_valid m pt i \<longrightarrow>
        pte_table m pt i \<and> wft e m l (pte_child m pt i) \<and> pt \<notin> tpages m l (pte_child m pt i)) \<and>
     (\<forall>i < 512. \<forall>j < 512. pte_valid m pt i \<longrightarrow> pte_valid m pt j \<longrightarrow> i \<noteq> j \<longrightarrow>
        tpages m l (pte_child m pt i) \<inter> tpages m l (pte_child m pt j) = {})"

lemma root_in_tpages [simp]: "pt \<in> tpages m l pt"
  by (cases l) auto

lemma dirs_subset: "dirs m l pt \<subseteq> tpages m l pt"
  by (induction m l pt rule: dirs.induct) auto

lemma tpages_frame: "wft e m l pt \<Longrightarrow> a \<in> tpages m l pt \<Longrightarrow> frame_ok e a"
  by (induction e m l pt rule: wft.induct) auto

lemma wft_root: "wft e m l pt \<Longrightarrow> frame_ok e pt"
  by (cases l) auto

text \<open>Only the directory pages decide the shape of the tree.\<close>

lemma table_cong:
  assumes "wft e m l pt" and "\<And>x. aligned8 x \<Longrightarrow> PGROUNDDOWN x \<in> dirs m l pt \<Longrightarrow> m' x = m x"
  shows "wft e m' l pt \<and> tpages m' l pt = tpages m l pt \<and> walk_pte m' l pt = walk_pte m l pt"
  using assms
proof (induction l arbitrary: pt)
  case 0
  then show ?case by (auto simp: fun_eq_iff)
next
  case (Suc l)
  have pt: "page_aligned pt" using Suc.prems(1) by (auto intro: frame_okD)
  have ent: "m' (pte_addr pt i) = m (pte_addr pt i)" if "i < 512" for i
    using Suc.prems(2) pte_addr_bounds [OF pt that] by auto
  then have eqs: "pte_valid m' pt i = pte_valid m pt i" "pte_child m' pt i = pte_child m pt i"
    "pte_table m' pt i = pte_table m pt i" if "i < 512" for i
    using that by (auto simp: pte_valid_def pte_child_def pte_table_def)
  have ih: "wft e m' l (pte_child m pt i) \<and> tpages m' l (pte_child m pt i) = tpages m l (pte_child m pt i) \<and>
      walk_pte m' l (pte_child m pt i) = walk_pte m l (pte_child m pt i)"
    if "i < 512" "pte_valid m pt i" for i
  proof (rule Suc.IH)
    show "wft e m l (pte_child m pt i)" using Suc.prems(1) that by simp
    show "m' x = m x" if "aligned8 x" "PGROUNDDOWN x \<in> dirs m l (pte_child m pt i)" for x
      using Suc.prems(2) that \<open>i < 512\<close> \<open>pte_valid m pt i\<close> by auto
  qed
  have "walk_pte m' (Suc l) pt va = walk_pte m (Suc l) pt va" for va
    using eqs ih PX_less [of "Suc l" va] by simp
  moreover have "tpages m' (Suc l) pt = tpages m (Suc l) pt" using eqs ih by auto
  moreover have "wft e m' (Suc l) pt" using eqs ih Suc.prems(1) by simp
  ultimately show ?case by (auto simp: fun_eq_iff)
qed

lemma walk_pte_page:
  assumes "wft e m l pt" "walk_pte m l pt va \<noteq> 0"
  shows "PGROUNDDOWN (walk_pte m l pt va) \<in> tpages m l pt \<and> aligned8 (walk_pte m l pt va) \<and>
    PGROUNDDOWN (walk_pte m l pt va) \<notin> dirs m l pt"
  using assms
proof (induction l arbitrary: pt)
  case 0
  then have "page_aligned pt" by (auto intro: frame_okD)
  then show ?case using pte_addr_bounds [OF _ PX_less] by simp
next
  case (Suc l)
  let ?i = "PX (Suc l) va"
  have v: "pte_valid m pt ?i" and w: "walk_pte m l (pte_child m pt ?i) va \<noteq> 0"
    using Suc.prems(2) by (auto split: if_splits)
  have c: "wft e m l (pte_child m pt ?i)" using Suc.prems(1) v PX_less by simp
  let ?p = "PGROUNDDOWN (walk_pte m l (pte_child m pt ?i) va)"
  note ih = Suc.IH [OF c w]
  have "?p \<noteq> pt" using ih Suc.prems(1) v PX_less by auto
  moreover have "?p \<notin> dirs m l (pte_child m pt j)" if "j < 512" "pte_valid m pt j" for j
  proof (cases "j = ?i")
    case True
    then show ?thesis using ih by simp
  next
    case False
    then have "tpages m l (pte_child m pt j) \<inter> tpages m l (pte_child m pt ?i) = {}"
      using Suc.prems(1) v PX_less that by simp
    then show ?thesis using ih dirs_subset by blast
  qed
  ultimately show ?case using ih v PX_less by auto
qed

lemma leaf_cong:
  assumes "wft e m l pt" and "\<And>x. aligned8 x \<Longrightarrow> PGROUNDDOWN x \<in> tpages m l pt \<Longrightarrow> m' x = m x"
  shows "leaf m' l pt va = leaf m l pt va"
proof -
  have w: "walk_pte m' l pt va = walk_pte m l pt va"
    using table_cong [OF assms(1), of m'] assms(2) dirs_subset by (metis subsetD)
  show ?thesis
    using assms(2) walk_pte_page [OF assms(1), of va] by (auto simp: leaf_def w)
qed

text \<open>Two addresses with the same leaf entry have the same indices at every level.\<close>

lemma walk_pte_inj:
  assumes "wft e m l pt" "walk_pte m l pt va = walk_pte m l pt vb" "walk_pte m l pt va \<noteq> 0" "k \<le> l"
  shows "PX k va = PX k vb"
  using assms
proof (induction l arbitrary: pt)
  case 0
  then show ?case using pte_addr_inj PX_less by auto
next
  case (Suc l)
  let ?i = "PX (Suc l) va" and ?j = "PX (Suc l) vb"
  have v: "pte_valid m pt ?i" "pte_valid m pt ?j" using Suc.prems(2,3) by (auto split: if_splits)
  have ci: "wft e m l (pte_child m pt ?i)" and cj: "wft e m l (pte_child m pt ?j)"
    using Suc.prems(1) v PX_less by auto
  have w: "walk_pte m l (pte_child m pt ?i) va = walk_pte m l (pte_child m pt ?j) vb"
    "walk_pte m l (pte_child m pt ?i) va \<noteq> 0"
    using Suc.prems(2,3) v by simp_all
  have eq: "?i = ?j"
  proof (rule ccontr)
    assume "?i \<noteq> ?j"
    then have "tpages m l (pte_child m pt ?i) \<inter> tpages m l (pte_child m pt ?j) = {}"
      using Suc.prems(1) v PX_less by simp
    then show False using walk_pte_page [OF ci w(2)] walk_pte_page [OF cj, of vb] w by auto
  qed
  then show ?case using Suc.IH [OF ci _ w(2)] w(1) Suc.prems(4) by (cases "k = Suc l") auto
qed

section \<open>walk\<close>

lemma walk_loop_lookup: "walk_loop l pt va False s = Done (walk_pte (mem s) l pt va) s"
proof -
  have "wp (walk_loop l pt va False) (\<lambda>r t. r = walk_pte (mem s) l pt va \<and> t = s) s"
    by (induction l arbitrary: pt) (simp_all add: pte_valid_def pte_child_def)
  then show ?thesis by (simp add: wp_eq_Done)
qed

lemma walk_lookup: "va < MAXVA \<Longrightarrow> walk pt va False s = Done (walk_pte (mem s) 2 pt va) s"
  by (simp add: walk_def walk_loop_lookup not_le)

text \<open>One entry of a directory is filled or its subtree grows by the pages \<open>N\<close>.\<close>

definition table_link :: "uint64 \<Rightarrow> pmem \<Rightarrow> pmem \<Rightarrow> nat \<Rightarrow> uint64 \<Rightarrow> uint64 \<Rightarrow> uint64 set \<Rightarrow> uint64 set \<Rightarrow> bool" where
  "table_link e m m' l pt i old N \<longleftrightarrow> wft e m (Suc l) pt \<and> i < 512 \<and>
     old = (if pte_valid m pt i then tpages m l (pte_child m pt i) else {}) \<and>
     N \<inter> tpages m (Suc l) pt = {} \<and> pte_valid m' pt i \<and> pte_table m' pt i \<and>
     wft e m' l (pte_child m' pt i) \<and> tpages m' l (pte_child m' pt i) = old \<union> N \<and>
     (\<forall>x. aligned8 x \<longrightarrow> x \<noteq> pte_addr pt i \<longrightarrow> PGROUNDDOWN x \<notin> old \<union> N \<longrightarrow> m' x = m x)"

lemma table_linkD:
  assumes "table_link e m m' l pt i old N"
  shows "wft e m (Suc l) pt" "i < 512" "old = (if pte_valid m pt i then tpages m l (pte_child m pt i) else {})"
    "N \<inter> tpages m (Suc l) pt = {}" "pte_valid m' pt i" "pte_table m' pt i" "wft e m' l (pte_child m' pt i)"
    "tpages m' l (pte_child m' pt i) = old \<union> N"
    "\<And>x. aligned8 x \<Longrightarrow> x \<noteq> pte_addr pt i \<Longrightarrow> PGROUNDDOWN x \<notin> old \<union> N \<Longrightarrow> m' x = m x"
  using assms unfolding table_link_def by blast+

lemma link_pt_out:
  assumes link: "table_link e m m' l pt i old N"
  shows "pt \<notin> old \<union> N"
  using table_linkD(1,2,4) [OF link] root_in_tpages [of pt m "Suc l"] table_linkD(3) [OF link] by (auto split: if_splits)

lemma link_entry_same:
  assumes link: "table_link e m m' l pt i old N" and js: "j < 512" "j \<noteq> i"
  shows "pte_valid m' pt j = pte_valid m pt j" "pte_child m' pt j = pte_child m pt j"
    "pte_table m' pt j = pte_table m pt j"
proof -
  note wf = table_linkD(1) [OF link]
    and i = table_linkD(2) [OF link]
    and out = table_linkD(9) [OF link]
  have pt: "page_aligned pt" using wf by (auto intro: frame_okD)
  have "m' (pte_addr pt j) = m (pte_addr pt j)"
    using out [of "pte_addr pt j"] pte_addr_bounds [OF pt js(1)] link_pt_out [OF link] pte_addr_inj [OF _ js(1) i] js(2)
    by auto
  then show "pte_valid m' pt j = pte_valid m pt j" "pte_child m' pt j = pte_child m pt j"
    "pte_table m' pt j = pte_table m pt j"
    by (simp_all add: pte_valid_def pte_child_def pte_table_def)
qed

lemma link_others_apart:
  assumes link: "table_link e m m' l pt i old N" and js: "j < 512" "j \<noteq> i" "pte_valid m pt j"
  shows "tpages m l (pte_child m pt j) \<inter> (old \<union> N) = {}" "pt \<notin> tpages m l (pte_child m pt j)"
proof -
  note wf = table_linkD(1) [OF link]
    and i = table_linkD(2) [OF link]
    and old = table_linkD(3) [OF link]
    and new = table_linkD(4) [OF link]
  have "tpages m l (pte_child m pt j) \<subseteq> tpages m (Suc l) pt" using js by auto
  moreover have "tpages m l (pte_child m pt j) \<inter> old = {}" using js wf i by (auto simp: old)
  ultimately show "tpages m l (pte_child m pt j) \<inter> (old \<union> N) = {}" using new by auto
  show "pt \<notin> tpages m l (pte_child m pt j)" using js wf by simp
qed

lemma link_others_same:
  assumes link: "table_link e m m' l pt i old N" and js: "j < 512" "j \<noteq> i" "pte_valid m pt j" "aligned8 x" "PGROUNDDOWN x \<in> tpages m l (pte_child m pt j)"
  shows "m' x = m x"
proof -
  note wf = table_linkD(1) [OF link]
    and i = table_linkD(2) [OF link]
    and out = table_linkD(9) [OF link]
  have pt: "page_aligned pt" using wf by (auto intro: frame_okD)
  have "x \<noteq> pte_addr pt i" using link_others_apart(2) [OF link js(1-3)] js(5) pte_addr_bounds(1) [OF pt i] by auto
  then show ?thesis using out js(4,5) link_others_apart(1) [OF link js(1-3)] by blast
qed

lemma link_others_table:
  assumes link: "table_link e m m' l pt i old N" and js: "j < 512" "j \<noteq> i" "pte_valid m pt j"
  shows "wft e m' l (pte_child m pt j)" "tpages m' l (pte_child m pt j) = tpages m l (pte_child m pt j)"
    "leaf m' l (pte_child m pt j) va = leaf m l (pte_child m pt j) va"
proof -
  note wf = table_linkD(1) [OF link]
  have w: "wft e m l (pte_child m pt j)" using js wf by simp
  note same = link_others_same [OF link js]
  have d: "m' x = m x" if "aligned8 x" "PGROUNDDOWN x \<in> dirs m l (pte_child m pt j)" for x
    using that same dirs_subset by blast
  show "wft e m' l (pte_child m pt j)" "tpages m' l (pte_child m pt j) = tpages m l (pte_child m pt j)"
    using table_cong [OF w d] by auto
  show "leaf m' l (pte_child m pt j) va = leaf m l (pte_child m pt j) va" by (rule leaf_cong [OF w same])
qed

lemma link_tpages:
  assumes link: "table_link e m m' l pt i old N"
  shows "tpages m' (Suc l) pt = tpages m (Suc l) pt \<union> N"
proof -
  note i = table_linkD(2) [OF link]
    and entry = table_linkD(5,6) [OF link]
    and child = table_linkD(7,8) [OF link]
    and old = table_linkD(3) [OF link]
  have a: "tpages k (Suc l) pt = insert pt ((if pte_valid k pt i then tpages k l (pte_child k pt i) else {}) \<union>
      (\<Union>j\<in>{j. j < 512 \<and> j \<noteq> i \<and> pte_valid k pt j}. tpages k l (pte_child k pt j)))" for k
    using i by auto
  have "(\<Union>j\<in>{j. j < 512 \<and> j \<noteq> i \<and> pte_valid m' pt j}. tpages m' l (pte_child m' pt j)) =
      (\<Union>j\<in>{j. j < 512 \<and> j \<noteq> i \<and> pte_valid m pt j}. tpages m l (pte_child m pt j))"
    using link_entry_same [OF link] link_others_table(2) [OF link] by auto
  then show ?thesis unfolding a [of m'] a [of m] using entry child old by auto
qed

lemma link_wft:
  assumes link: "table_link e m m' l pt i old N"
  shows "wft e m' (Suc l) pt"
proof -
  note wf = table_linkD(1) [OF link]
    and entry = table_linkD(5,6) [OF link]
    and child = table_linkD(7,8) [OF link]
  have one: "pte_table m' pt j \<and> wft e m' l (pte_child m' pt j) \<and> pt \<notin> tpages m' l (pte_child m' pt j)"
    if "j < 512" "pte_valid m' pt j" for j
    using that entry child link_pt_out [OF link] link_entry_same [OF link, of j] link_others_table [OF link, of j] link_others_apart [OF link, of j] wf
    by (cases "j = i") auto
  have two: "tpages m' l (pte_child m' pt j) \<inter> tpages m' l (pte_child m' pt k) = {}"
    if "j < 512" "k < 512" "pte_valid m' pt j" "pte_valid m' pt k" "j \<noteq> k" for j k
  proof -
    consider "j = i" "k \<noteq> i" | "k = i" "j \<noteq> i" | "j \<noteq> i" "k \<noteq> i" using \<open>j \<noteq> k\<close> by auto
    then show ?thesis
    proof cases
      case 1
      then show ?thesis using that child(2) link_entry_same [OF link, of k] link_others_table(2) [OF link, of k] link_others_apart(1) [OF link, of k] by auto
    next
      case 2
      then show ?thesis using that child(2) link_entry_same [OF link, of j] link_others_table(2) [OF link, of j] link_others_apart(1) [OF link, of j] by auto
    next
      case 3
      then show ?thesis
        using that link_entry_same [OF link, of j] link_entry_same [OF link, of k] link_others_table(2) [OF link, of j] link_others_table(2) [OF link, of k] wf by simp
    qed
  qed
  show ?thesis using one two wf by simp
qed

lemma link_leaf:
  assumes link: "table_link e m m' l pt i old N" and js: "PX (Suc l) va \<noteq> i"
  shows "leaf m' (Suc l) pt va = leaf m (Suc l) pt va"
  using link_entry_same [OF link PX_less js] link_others_table(3) [OF link PX_less js, of va]
  by (auto simp: leaf_def)

lemma kmem_inv_mem:
  assumes "kmem_inv ps s" "same_outside A (mem s) m" "A \<inter> set ps = {}"
  shows "kmem_inv ps (s\<lparr>mem := m\<rparr>)"
proof -
  have "m a = mem s a" if "a \<in> set ps" for a
    using that assms frame_okD [of "kend s" a] by (auto simp: kmem_inv_def dest!: same_outsideD [of A "mem s" m a])
  then have "flist m (freelist s) ps = flist (mem s) (freelist s) ps" by (rule flist_cong)
  with assms(1) show ?thesis by (simp add: kmem_inv_def)
qed

lemma empty_table:
  assumes "frame_ok e pg" and "\<And>x. aligned8 x \<Longrightarrow> PGROUNDDOWN x = pg \<Longrightarrow> m x = 0"
  shows "wft e m l pg" "tpages m l pg = {pg}" "leaf m l pg va = 0"
proof -
  have pg: "page_aligned pg" using assms(1) by (rule frame_okD)
  have z: "m (pte_addr pg i) = 0" if "i < 512" for i using assms(2) pte_addr_bounds [OF pg that] by blast
  then have nv: "\<not> pte_valid m pg i" if "i < 512" for i using that by (simp add: pte_valid_def)
  show "wft e m l pg" using assms(1) nv by (cases l) auto
  show "tpages m l pg = {pg}" using nv by (cases l) auto
  show "leaf m l pg va = 0" using z nv PX_less by (cases l) (auto simp: leaf_def)
qed

lemma dir_entry:
  assumes "page_aligned pg" "m (pte_addr pt i) = PA2PTE pg OR PTE_V"
  shows "pte_valid m pt i" "pte_table m pt i" "pte_child m pt i = pg"
proof -
  show "pte_valid m pt i" using PTE_V_iff [of "PA2PTE pg OR PTE_V"] PTE_flag_bits [of 0 pg PTE_V] assms(2)
    by (simp add: pte_valid_def)
  show "pte_child m pt i = pg" using PTE2PA_PA2PTE [OF assms(1), of PTE_V] assms(2) by (simp add: pte_child_def)
  have "(PA2PTE pg OR PTE_V) AND 14 = 0"
  proof (rule bit_word_eqI)
    fix n assume "n < LENGTH(64)"
    have "\<not> bit (14 :: uint64) n" if "n \<ge> 4" using bit_high [of 14 4 n] that by simp
    moreover have "\<not> bit (14 :: uint64) 0" by simp
    moreover have "\<not> bit (PA2PTE pg OR PTE_V) n" if "n < 4" "n \<noteq> 0"
      using that PTE_flag_bits [of n pg PTE_V] bit_high [of PTE_V 1 n] by simp
    ultimately show "bit ((PA2PTE pg OR PTE_V) AND 14) n = bit (0 :: uint64) n"
      unfolding bit_and_iff by (metis bit_0_eq bot_apply bot_bool_def not_le)
  qed
  then show "pte_table m pt i" using assms(2) by (simp add: pte_table_def)
qed

definition walk_post :: "nat \<Rightarrow> uint64 \<Rightarrow> uint64 \<Rightarrow> uint64 list \<Rightarrow> 'z kmem_scheme \<Rightarrow> uint64 \<Rightarrow> 'z kmem_scheme \<Rightarrow> bool" where
  "walk_post l pt va ps s r t \<longleftrightarrow> mem_only s t \<and>
     (\<exists>new ps'. ps = new @ ps' \<and> kmem_inv ps' t \<and> wft (kend s) (mem t) l pt \<and>
        tpages (mem t) l pt = tpages (mem s) l pt \<union> set new \<and>
        same_outside (tpages (mem s) l pt \<union> set new) (mem s) (mem t) \<and>
        (if r = 0 then ps' = [] else r = walk_pte (mem t) l pt va)) \<and>
     (\<forall>v. leaf (mem t) l pt v = leaf (mem s) l pt v)"

lemma walk_post_valid:
  assumes "walk_post l (pte_child (mem s) pt (PX (Suc l) va)) va ps s r t"
    and wf: "wft (kend s) (mem s) (Suc l) pt" and ap: "tpages (mem s) (Suc l) pt \<inter> set ps = {}"
    and v: "pte_valid (mem s) pt (PX (Suc l) va)"
  shows "walk_post (Suc l) pt va ps s r t"
proof -
  let ?i = "PX (Suc l) va" and ?c = "pte_child (mem s) pt (PX (Suc l) va)"
  obtain new ps' where n: "mem_only s t" "ps = new @ ps'" "kmem_inv ps' t" "wft (kend s) (mem t) l ?c"
      "tpages (mem t) l ?c = tpages (mem s) l ?c \<union> set new"
      "same_outside (tpages (mem s) l ?c \<union> set new) (mem s) (mem t)"
      "if r = 0 then ps' = [] else r = walk_pte (mem t) l ?c va"
      "\<forall>v. leaf (mem t) l ?c v = leaf (mem s) l ?c v"
    using assms(1) by (auto simp: walk_post_def)
  have pt: "page_aligned pt" using wf by (auto intro: frame_okD)
  have "pt \<notin> tpages (mem s) l ?c \<union> set new" using wf v PX_less ap n(2) root_in_tpages [of pt "mem s" "Suc l"] by auto
  then have "mem t (pte_addr pt ?i) = mem s (pte_addr pt ?i)"
    using same_outsideD [OF n(6)] pte_addr_bounds [OF pt PX_less] by simp
  then have e: "pte_valid (mem t) pt ?i = pte_valid (mem s) pt ?i" "pte_table (mem t) pt ?i = pte_table (mem s) pt ?i"
      "pte_child (mem t) pt ?i = ?c"
    by (simp_all add: pte_valid_def pte_table_def pte_child_def)
  have link: "table_link (kend s) (mem s) (mem t) l pt ?i (tpages (mem s) l ?c) (set new)"
    unfolding table_link_def using wf v e n ap PX_less same_outsideD [OF n(6)] by auto
  have sub: "tpages (mem s) l ?c \<subseteq> tpages (mem s) (Suc l) pt" using v PX_less by auto
  have "leaf (mem t) (Suc l) pt x = leaf (mem s) (Suc l) pt x" for x
  proof (cases "PX (Suc l) x = ?i")
    case True
    then show ?thesis using n(8) e v by (simp add: leaf_Suc)
  next
    case False
    then show ?thesis by (rule link_leaf [OF link])
  qed
  moreover have "same_outside (tpages (mem s) (Suc l) pt \<union> set new) (mem s) (mem t)"
    using n(6) by (rule same_outside_mono) (use sub in auto)
  ultimately show ?thesis
    unfolding walk_post_def using n(1,2,3,7) link_wft [OF link] link_tpages [OF link] e(1,3) v
    by (intro conjI exI [of _ new] exI [of _ ps']) (auto simp del: tpages.simps wft.simps)
qed

lemma walk_post_alloc:
  assumes wf: "wft (kend s) (mem s) (Suc l) pt" and ap: "tpages (mem s) (Suc l) pt \<inter> set (pg # ps) = {}"
    and nv: "\<not> pte_valid (mem s) pt (PX (Suc l) va)" and pg: "frame_ok (kend s) pg" "pg \<notin> set ps"
    and s2: "mem_only s s2" and ent: "mem s2 (pte_addr pt (PX (Suc l) va)) = PA2PTE pg OR PTE_V"
    and zero: "\<And>x. aligned8 x \<Longrightarrow> PGROUNDDOWN x = pg \<Longrightarrow> mem s2 x = 0"
    and rest: "\<And>x. aligned8 x \<Longrightarrow> PGROUNDDOWN x \<noteq> pg \<Longrightarrow> x \<noteq> pte_addr pt (PX (Suc l) va) \<Longrightarrow> mem s2 x = mem s x"
    and post: "walk_post l pg va ps s2 r t"
  shows "walk_post (Suc l) pt va (pg # ps) s r t"
proof -
  let ?i = "PX (Suc l) va"
  have k: "kend s2 = kend s" using s2 by (rule mem_onlyD)
  note new0 = empty_table [OF pg(1) zero]
  obtain new ps' where n: "mem_only s2 t" "ps = new @ ps'" "kmem_inv ps' t" "wft (kend s) (mem t) l pg"
      "tpages (mem t) l pg = {pg} \<union> set new" "same_outside ({pg} \<union> set new) (mem s2) (mem t)"
      "if r = 0 then ps' = [] else r = walk_pte (mem t) l pg va"
      "\<forall>v. leaf (mem t) l pg v = 0"
    using post new0 k by (auto simp: walk_post_def)
  have pt: "page_aligned pt" using wf by (auto intro: frame_okD)
  have "pt \<notin> {pg} \<union> set new" using ap n(2) root_in_tpages [of pt "mem s" "Suc l"] by auto
  then have "mem t (pte_addr pt ?i) = PA2PTE pg OR PTE_V"
    using same_outsideD [OF n(6)] pte_addr_bounds [OF pt PX_less] ent by simp
  note e = dir_entry [of pg "mem t" pt ?i, OF frame_okD(1) [OF pg(1)] this]
  have keep: "mem t x = mem s x" if "aligned8 x" "x \<noteq> pte_addr pt ?i" "PGROUNDDOWN x \<notin> {pg} \<union> set new" for x
    using that rest [of x] same_outsideD [OF n(6) that(1,3)] by simp
  have link: "table_link (kend s) (mem s) (mem t) l pt ?i {} (set (pg # new))"
    unfolding table_link_def using wf nv e n ap PX_less keep by auto
  have "leaf (mem t) (Suc l) pt x = leaf (mem s) (Suc l) pt x" for x
  proof (cases "PX (Suc l) x = ?i")
    case True
    then show ?thesis using n(8) e nv by (simp add: leaf_Suc)
  next
    case False
    then show ?thesis by (rule link_leaf [OF link])
  qed
  moreover have "same_outside (tpages (mem s) (Suc l) pt \<union> set (pg # new)) (mem s) (mem t)"
    unfolding same_outside_def using keep pte_addr_bounds(1) [OF pt PX_less] root_in_tpages [of pt "mem s" "Suc l"]
    by (metis Un_iff insert_is_Un list.simps(15))
  ultimately show ?thesis
    unfolding walk_post_def using n(1,2,3,7) link_wft [OF link] link_tpages [OF link] e mem_only_trans [OF s2]
    by (intro conjI exI [of _ "pg # new"] exI [of _ ps']) (auto simp del: tpages.simps wft.simps)
qed

lemma wp_walk_loop:
  assumes "wft (kend s) (mem s) l pt" "kmem_inv ps s" "LKmem \<notin> set (held s)"
    "tpages (mem s) l pt \<inter> set ps = {}"
  shows "wp (walk_loop l pt va True) (walk_post l pt va ps s) s"
  using assms
proof (induction l arbitrary: pt ps s)
  case 0
  have "pte_addr pt (PX 0 va) \<noteq> 0"
    using 0 frame_ok_nonzero [of "kend s" pt] frame_okD(1) [of "kend s" pt] pte_addr_nonzero [OF _ _ PX_less]
    by (auto simp: kmem_inv_def)
  then show ?case using 0
    by (simp add: walk_post_def) (metis append_Nil empty_subsetI list.set(1))
next
  case (Suc l)
  let ?i = "PX (Suc l) va"
  have pt: "page_aligned pt" using Suc.prems(1) by (auto intro: frame_okD)
  show ?case
  proof (cases "pte_valid (mem s) pt ?i")
    case True
    let ?c = "pte_child (mem s) pt ?i"
    have "wp (walk_loop l ?c va True) (walk_post l ?c va ps s) s"
    proof (rule Suc.IH [OF _ Suc.prems(2,3)])
      show "wft (kend s) (mem s) l ?c" using Suc.prems(1) True PX_less by simp
      show "tpages (mem s) l ?c \<inter> set ps = {}" using Suc.prems(4) True PX_less by auto
    qed
    then have "wp (walk_loop l ?c va True) (walk_post (Suc l) pt va ps s) s"
      by (rule wp_mono) (rule walk_post_valid [OF _ Suc.prems(1,4) True])
    then show ?thesis using True by (simp add: pte_valid_def pte_child_def del: bnd_mem)
  next
    case nv: False
    show ?thesis
    proof (cases ps)
      case Nil
      then have "kalloc s = Done 0 s" using Suc.prems(2,3) wp_kalloc_none by simp
      then show ?thesis using nv Suc.prems Nil
        by (auto simp: pte_valid_def wp_Done walk_post_def simp del: tpages.simps wft.simps)
    next
      case (Cons pg qs)
      have pg: "frame_ok (kend s) pg" "pg \<notin> set qs" "pg \<noteq> 0"
        using Suc.prems(2) Cons by (auto simp: kmem_inv_def)
      have next_step: "wp (walk_loop l pg va True) (walk_post (Suc l) pt va ps s)
          (t\<lparr>mem := (memset (mem t) pg 0 4096)(pte_addr pt ?i := PA2PTE pg OR PTE_V)\<rparr>)"
        if k: "kmem_inv qs t" "same_outside {pg} (mem s) (mem t)" "mem_only s t" for t
      proof -
        let ?m = "(memset (mem t) pg 0 4096)(pte_addr pt ?i := PA2PTE pg OR PTE_V)"
        let ?t = "t\<lparr>mem := ?m\<rparr>"
        have ptpg: "pt \<noteq> pg" "pt \<notin> set qs"
          using Suc.prems(4) Cons root_in_tpages [of pt "mem s" "Suc l"] by auto
        have pa: "page_aligned pg" using pg(1) by (rule frame_okD)
        have m: "?m x = (if x = pte_addr pt ?i then PA2PTE pg OR PTE_V else if PGROUNDDOWN x = pg then 0 else mem t x)"
          if "aligned8 x" for x using that pa by (simp add: memset_page)
        have zero: "?m x = 0" if "aligned8 x" "PGROUNDDOWN x = pg" for x
          using that m ptpg pte_addr_bounds [OF pt PX_less] by auto
        have rest: "?m x = mem s x" if "aligned8 x" "PGROUNDDOWN x \<noteq> pg" "x \<noteq> pte_addr pt ?i" for x
          using that m [OF that(1)] same_outsideD [OF k(2) that(1)] by simp
        have "same_outside {pg, pt} (mem t) ?m"
          unfolding same_outside_def using m pte_addr_bounds [OF pt PX_less] by auto
        then have inv: "kmem_inv qs ?t" using k(1) pg(2) ptpg(2) by (intro kmem_inv_mem) auto
        have "wp (walk_loop l pg va True) (walk_post l pg va qs ?t) ?t"
        proof (rule Suc.IH [OF _ inv])
          show "wft (kend ?t) (mem ?t) l pg" "tpages (mem ?t) l pg \<inter> set qs = {}"
            using empty_table [OF pg(1), of ?m l] zero pg(2) mem_onlyD(1) [OF k(3)] by auto
          show "LKmem \<notin> set (held ?t)" using Suc.prems(3) mem_onlyD(2) [OF k(3)] by simp
        qed
        then show ?thesis unfolding Cons
          by (rule wp_mono) (rule walk_post_alloc [OF Suc.prems(1) _ nv pg(1,2)],
            use Suc.prems(4) Cons k(3) zero rest in simp_all)
      qed
      have "wp kalloc (\<lambda>r t. r = pg \<and> kmem_inv qs t \<and> same_outside {pg} (mem s) (mem t) \<and> mem_only s t) s"
        using wp_kalloc_some Suc.prems(2,3) Cons by blast
      then show ?thesis using nv pg(3) next_step by (auto simp: pte_valid_def simp del: bnd_mem elim!: wp_mono)
    qed
  qed
qed

section \<open>The mapping of a page table\<close>

text \<open>
  A root table \<open>pt\<close> in memory, with the free pages \<open>ps\<close> apart from the pages of the tree, while the
  allocator's lock is free.
\<close>

definition pgtbl :: "uint64 \<Rightarrow> uint64 list \<Rightarrow> 'z kmem_scheme \<Rightarrow> bool" where
  "pgtbl pt ps s \<longleftrightarrow> wft (kend s) (mem s) 2 pt \<and> kmem_inv ps s \<and> LKmem \<notin> set (held s) \<and>
     tpages (mem s) 2 pt \<inter> set ps = {}"

abbreviation "pte \<equiv> \<lambda>s pt va. leaf (mem s) 2 pt va"

lemma PX_eq: "PX k va = take_bit 9 (drop_bit (12 + 9 * k) va)"
  by (simp add: PX_def PXSHIFT_def take_bit_eq_mask mask_eq_exp_minus_1)

lemma same_indices:
  assumes "va < MAXVA" "vb < MAXVA" and "\<And>k. k \<le> 2 \<Longrightarrow> PX k va = PX k vb"
  shows "PGROUNDDOWN va = PGROUNDDOWN vb"
proof -
  have "bit va n = bit vb n" if "12 \<le> n" for n
  proof (cases "n < 39")
    case True
    define k where "k = (n - 12) div 9"
    define j where "j = (n - 12) mod 9"
    have k: "k \<le> 2" using True by (simp add: k_def)
    have n: "n = 12 + 9 * k + j" "j < 9" using that by (simp_all add: k_def j_def)
    have "bit (PX k va) j = bit (PX k vb) j" using assms(3) [OF k] by simp
    then show ?thesis using n by (simp add: PX_eq bit_take_bit_iff bit_drop_bit_eq)
  next
    case False
    then show ?thesis using assms(1,2) bit_high [of va 38 n] bit_high [of vb 38 n] by (simp add: word_less_nat_alt)
  qed
  then show ?thesis
    by (intro bit_word_eqI) (simp add: PGROUNDDOWN_alt bit_push_bit_iff bit_drop_bit_eq)
qed

lemma indices_of_page: "PGROUNDDOWN va = PGROUNDDOWN vb \<Longrightarrow> PX k va = PX k vb"
proof -
  assume *: "PGROUNDDOWN va = PGROUNDDOWN vb"
  have "drop_bit (12 + 9 * k) x = drop_bit (9 * k) (drop_bit 12 (PGROUNDDOWN x))" for x :: uint64
  proof (rule bit_word_eqI)
    fix n
    have "12 + 9 * k + n = 12 + (9 * k + n)" by simp
    then show "bit (drop_bit (12 + 9 * k) x) n = bit (drop_bit (9 * k) (drop_bit 12 (PGROUNDDOWN x))) n"
      using bit_imp_le_length [of x "12 + (9 * k + n)"]
      by (auto simp: PGROUNDDOWN_alt bit_drop_bit_eq bit_push_bit_iff possible_bit_def add.assoc)
  qed
  then show ?thesis unfolding PX_eq by (metis *)
qed

lemma walk_pte_page_cong:
  assumes "PGROUNDDOWN va = PGROUNDDOWN vb"
  shows "walk_pte m l pt va = walk_pte m l pt vb"
  by (induction l arbitrary: pt) (simp_all add: indices_of_page [OF assms])

lemma leaf_page: "leaf m l pt (PGROUNDDOWN va) = leaf m l pt va"
  using walk_pte_page_cong [of "PGROUNDDOWN va" va] by (simp add: leaf_def)

text \<open>Writing a leaf entry changes the mapping of its page and nothing else.\<close>

lemma leaf_store:
  fixes x :: uint64
  assumes wf: "wft e m 2 pt" and w: "walk_pte m 2 pt va \<noteq> 0"
  defines "m' \<equiv> m(walk_pte m 2 pt va := x)"
  shows "wft e m' 2 pt" "tpages m' 2 pt = tpages m 2 pt" "walk_pte m' 2 pt = walk_pte m 2 pt"
    and "va < MAXVA \<Longrightarrow> vb < MAXVA \<Longrightarrow>
      leaf m' 2 pt vb = (if PGROUNDDOWN vb = PGROUNDDOWN va then x else leaf m 2 pt vb)"
proof -
  have "wft e m' 2 pt \<and> tpages m' 2 pt = tpages m 2 pt \<and> walk_pte m' 2 pt = walk_pte m 2 pt"
    using walk_pte_page [OF wf w] by (intro table_cong [OF wf]) (auto simp: m'_def)
  then show "wft e m' 2 pt" "tpages m' 2 pt = tpages m 2 pt" and wk: "walk_pte m' 2 pt = walk_pte m 2 pt"
    by auto
  have upd: "m' y = (if y = walk_pte m 2 pt va then x else m y)" for y by (simp add: m'_def)
  show "leaf m' 2 pt vb = (if PGROUNDDOWN vb = PGROUNDDOWN va then x else leaf m 2 pt vb)"
    if "va < MAXVA" "vb < MAXVA"
  proof (cases "PGROUNDDOWN vb = PGROUNDDOWN va")
    case True
    then show ?thesis using walk_pte_page_cong [OF True, of m 2 pt] w upd by (simp add: leaf_def wk)
  next
    case False
    have "walk_pte m 2 pt vb \<noteq> walk_pte m 2 pt va"
    proof
      assume "walk_pte m 2 pt vb = walk_pte m 2 pt va"
      then have "PX k va = PX k vb" if "k \<le> 2" for k using walk_pte_inj [OF wf _ w that, of vb] by simp
      then show False using same_indices [of va vb] \<open>va < MAXVA\<close> \<open>vb < MAXVA\<close> False by simp
    qed
    then show ?thesis using False upd by (simp add: leaf_def wk)
  qed
qed

text \<open>A table that may have grown by free pages, everything outside both kept.\<close>

definition pt_ext :: "uint64 \<Rightarrow> uint64 list \<Rightarrow> 'z kmem_scheme \<Rightarrow> uint64 list \<Rightarrow> 'z kmem_scheme \<Rightarrow> bool" where
  "pt_ext pt ps s ps' t \<longleftrightarrow> pgtbl pt ps' t \<and> mem_only s t \<and> suffix ps' ps \<and>
     tpages (mem s) 2 pt \<subseteq> tpages (mem t) 2 pt \<and> tpages (mem t) 2 pt \<subseteq> tpages (mem s) 2 pt \<union> set ps \<and>
     same_outside (tpages (mem s) 2 pt \<union> set ps) (mem s) (mem t)"

lemma pt_ext_trans:
  assumes "pt_ext pt ps s ps' t" "pt_ext pt ps' t ps'' u"
  shows "pt_ext pt ps s ps'' u"
proof -
  have sub: "set ps' \<subseteq> set ps" using assms(1) set_mono_suffix by (auto simp: pt_ext_def)
  have "same_outside (tpages (mem s) 2 pt \<union> set ps) (mem t) (mem u)"
    using assms sub by (auto simp: pt_ext_def elim!: same_outside_mono)
  then have "same_outside (tpages (mem s) 2 pt \<union> set ps) (mem s) (mem u)"
    using assms(1) same_outside_trans by (auto simp: pt_ext_def)
  moreover have "tpages (mem u) 2 pt \<subseteq> tpages (mem s) 2 pt \<union> set ps" "tpages (mem s) 2 pt \<subseteq> tpages (mem u) 2 pt"
    using assms sub unfolding pt_ext_def by blast+
  ultimately show ?thesis
    using assms mem_only_trans suffix_order.order_trans unfolding pt_ext_def by blast
qed

lemma pt_ext_refl: "pgtbl pt ps s \<Longrightarrow> pt_ext pt ps s ps s"
  by (simp add: pt_ext_def)

lemma pt_ext_store:
  assumes "pgtbl pt ps s" "walk_pte (mem s) 2 pt va \<noteq> 0"
  shows "pt_ext pt ps s ps (s\<lparr>mem := (mem s)(walk_pte (mem s) 2 pt va := x)\<rparr>)"
proof -
  let ?w = "walk_pte (mem s) 2 pt va"
  have wf: "wft (kend s) (mem s) 2 pt" using assms(1) by (simp add: pgtbl_def)
  have pg: "PGROUNDDOWN ?w \<in> tpages (mem s) 2 pt" using walk_pte_page [OF wf assms(2)] by simp
  then have out: "same_outside (tpages (mem s) 2 pt) (mem s) ((mem s)(?w := x))"
    by (intro same_outside_upd) auto
  have "kmem_inv ps (s\<lparr>mem := (mem s)(?w := x)\<rparr>)"
    by (rule kmem_inv_mem [OF _ out]) (use assms(1) in \<open>simp_all add: pgtbl_def\<close>)
  then show ?thesis
    using leaf_store(1,2) [OF wf assms(2), of x] assms(1) same_outside_mono [OF out, of "tpages (mem s) 2 pt \<union> set ps"]
    by (simp add: pt_ext_def pgtbl_def)
qed

lemma wp_walk_alloc:
  assumes "pgtbl pt ps s" "va < MAXVA"
  shows "wp (walk pt va True) (\<lambda>r t. \<exists>ps'. pt_ext pt ps s ps' t \<and> (\<forall>v. pte t pt v = pte s pt v) \<and>
    (if r = 0 then ps' = [] else r = walk_pte (mem t) 2 pt va)) s"
proof -
  have *: "wp (walk_loop 2 pt va True) (walk_post 2 pt va ps s) s"
    using assms(1) by (intro wp_walk_loop) (simp_all add: pgtbl_def)
  have "\<exists>ps'. pt_ext pt ps s ps' t \<and> (\<forall>v. pte t pt v = pte s pt v) \<and>
      (if r = 0 then ps' = [] else r = walk_pte (mem t) 2 pt va)" if post: "walk_post 2 pt va ps s r t" for r t
  proof -
    obtain new ps' where n: "mem_only s t" "ps = new @ ps'" "kmem_inv ps' t" "wft (kend s) (mem t) 2 pt"
        "tpages (mem t) 2 pt = tpages (mem s) 2 pt \<union> set new"
        "same_outside (tpages (mem s) 2 pt \<union> set new) (mem s) (mem t)"
        "if r = 0 then ps' = [] else r = walk_pte (mem t) 2 pt va"
        "\<forall>v. leaf (mem t) 2 pt v = leaf (mem s) 2 pt v"
      using post unfolding walk_post_def by blast
    have "distinct ps" "tpages (mem s) 2 pt \<inter> set ps = {}" using assms(1) by (auto simp: pgtbl_def kmem_inv_def)
    then have "tpages (mem t) 2 pt \<inter> set ps' = {}" using n(2,5) by auto
    then have "pgtbl pt ps' t" using n(1,3,4) assms(1) mem_onlyD [OF n(1)] by (simp add: pgtbl_def)
    moreover have "suffix ps' ps" using n(2) by (simp add: suffix_def)
    moreover have "same_outside (tpages (mem s) 2 pt \<union> set ps) (mem s) (mem t)"
      using n(6) by (rule same_outside_mono) (use n(2) in auto)
    ultimately have "pt_ext pt ps s ps' t" using n(1,2,5) by (auto simp: pt_ext_def)
    then show ?thesis using n(7,8) by blast
  qed
  with * have "wp (walk_loop 2 pt va True) (\<lambda>r t. \<exists>ps'. pt_ext pt ps s ps' t \<and>
      (\<forall>v. pte t pt v = pte s pt v) \<and> (if r = 0 then ps' = [] else r = walk_pte (mem t) 2 pt va)) s"
    by (rule wp_mono)
  then show ?thesis using assms(2) by (simp add: walk_def)
qed

section \<open>mappages\<close>

definition in_range :: "uint64 \<Rightarrow> uint64 \<Rightarrow> uint64 \<Rightarrow> bool" where
  "in_range a fin v \<longleftrightarrow> a \<le> PGROUNDDOWN v \<and> PGROUNDDOWN v \<le> fin"

lemma in_range_step:
  assumes "page_aligned a" "page_aligned fin" "a < fin" "unat fin + 4096 < 2 ^ 64"
  shows "in_range a fin v \<longleftrightarrow> PGROUNDDOWN v = a \<or> in_range (a + PGSIZE) fin v"
    "PGROUNDDOWN v = a \<Longrightarrow> \<not> in_range (a + PGSIZE) fin v"
    "page_aligned (a + PGSIZE)" "a + PGSIZE \<le> fin" "unat (a + PGSIZE) = unat a + 4096"
proof -
  have un: "unat a + 4096 \<le> unat fin" by (rule page_aligned_bound [OF assms(1,3,2)])
  then show u: "unat (a + PGSIZE) = unat a + 4096" using assms(4) by (simp add: unat_word_ariths)
  then show "page_aligned (a + PGSIZE)" using assms(1) by (simp add: page_aligned_unat)
  show "a + PGSIZE \<le> fin" using un u by (simp add: word_le_nat_alt)
  show "PGROUNDDOWN v = a \<Longrightarrow> \<not> in_range (a + PGSIZE) fin v"
    using u by (simp add: in_range_def word_le_nat_alt)
  show "in_range a fin v \<longleftrightarrow> PGROUNDDOWN v = a \<or> in_range (a + PGSIZE) fin v"
  proof (cases "PGROUNDDOWN v = a")
    case True
    then show ?thesis using assms(3) by (simp add: in_range_def)
  next
    case False
    have "a \<le> PGROUNDDOWN v \<longleftrightarrow> a < PGROUNDDOWN v" using False by auto
    also have "\<dots> \<longleftrightarrow> a + PGSIZE \<le> PGROUNDDOWN v"
    proof
      assume "a < PGROUNDDOWN v"
      then show "a + PGSIZE \<le> PGROUNDDOWN v" using page_aligned_bound [OF assms(1), of "PGROUNDDOWN v"] u
        by (simp add: word_le_nat_alt)
    next
      assume "a + PGSIZE \<le> PGROUNDDOWN v"
      then show "a < PGROUNDDOWN v" using u by (simp add: word_le_nat_alt word_less_nat_alt)
    qed
    finally show ?thesis using False by (simp add: in_range_def)
  qed
qed

definition mapped :: "uint64 \<Rightarrow> uint64 \<Rightarrow> uint64 \<Rightarrow> uint64 \<Rightarrow> uint64 \<Rightarrow> 'z kmem_scheme \<Rightarrow> 'z kmem_scheme \<Rightarrow> bool" where
  "mapped pt a fin pa perm s t \<longleftrightarrow> (\<forall>v < MAXVA. pte t pt v =
     (if in_range a fin v then PA2PTE (pa + (PGROUNDDOWN v - a)) OR perm OR PTE_V else pte s pt v))"

lemma wp_mappages_loop:
  assumes "pgtbl pt ps s" "page_aligned a" "page_aligned fin" "a \<le> fin" "fin < MAXVA"
    "\<forall>v < MAXVA. in_range a fin v \<longrightarrow> pte s pt v AND PTE_V = 0" "unat (fin - a) < 4096 * fuel"
  shows "wp (mappages_loop fuel pt a fin pa perm) (\<lambda>r t. \<exists>ps'. pt_ext pt ps s ps' t \<and>
    (r = 0 \<and> mapped pt a fin pa perm s t \<or> r = - 1 \<and> ps' = []) \<and>
    (\<forall>v < MAXVA. \<not> in_range a fin v \<longrightarrow> pte t pt v = pte s pt v)) s"
  using assms
proof (induction fuel arbitrary: ps s a pa)
  case 0
  then show ?case by simp
next
  case (Suc fuel)
  have a: "a < MAXVA" using Suc.prems(4,5) by simp
  have af: "in_range a fin a" using Suc.prems(2,4) by (simp add: in_range_def)
  have big: "unat fin + 4096 < 2 ^ 64" using Suc.prems(5) by (simp add: word_less_nat_alt)
  let ?Q = "\<lambda>(r :: int) t. \<exists>ps'. pt_ext pt ps s ps' t \<and>
    (r = 0 \<and> mapped pt a fin pa perm s t \<or> r = - 1 \<and> ps' = []) \<and>
    (\<forall>v < MAXVA. \<not> in_range a fin v \<longrightarrow> pte t pt v = pte s pt v)"
  let ?x = "PA2PTE pa OR perm OR PTE_V"
  have store: "mem t r AND PTE_V = 0 \<and>
      (if a = fin then ?Q 0 (t\<lparr>mem := (mem t)(r := ?x)\<rparr>)
       else wp (mappages_loop fuel pt (a + PGSIZE) fin (pa + PGSIZE) perm) ?Q (t\<lparr>mem := (mem t)(r := ?x)\<rparr>))"
    if t: "pt_ext pt ps s ps' t" "\<forall>v. pte t pt v = pte s pt v" "r \<noteq> 0" "r = walk_pte (mem t) 2 pt a"
    for r t ps'
  proof -
    let ?t = "t\<lparr>mem := (mem t)(r := ?x)\<rparr>"
    have pt': "pgtbl pt ps' t" and wf: "wft (kend t) (mem t) 2 pt" using t(1) by (auto simp: pt_ext_def pgtbl_def)
    have ext: "pt_ext pt ps s ps' ?t"
      using pt_ext_trans [OF t(1) pt_ext_store [OF pt', of a ?x]] t(3,4) by simp
    have lf: "pte ?t pt v = (if PGROUNDDOWN v = a then ?x else pte s pt v)" if "v < MAXVA" for v
      using leaf_store(4) [OF wf, of a v ?x] that a t(2,3,4) Suc.prems(2) by simp
    have "mem t r = pte s pt a" using t(2) [rule_format, of a] t(3,4) by (simp add: leaf_def)
    then have z: "mem t r AND PTE_V = 0" using Suc.prems(6) a af by simp
    have "?Q 0 ?t" if "a = fin"
    proof -
      have "in_range a fin v \<longleftrightarrow> PGROUNDDOWN v = a" for v using that by (auto simp: in_range_def)
      then show ?thesis using ext lf by (auto simp: mapped_def)
    qed
    moreover have "wp (mappages_loop fuel pt (a + PGSIZE) fin (pa + PGSIZE) perm) ?Q ?t" if ne: "a \<noteq> fin"
    proof -
      have lt: "a < fin" using ne Suc.prems(4) by simp
      note st = in_range_step [OF Suc.prems(2,3) lt big]
      have "unat (fin - a) = unat fin - unat a" "unat (fin - (a + PGSIZE)) = unat fin - unat (a + PGSIZE)"
        using Suc.prems(4) st(4) by (simp_all add: unat_sub)
      then have fu: "unat (fin - (a + PGSIZE)) < 4096 * fuel"
        using Suc.prems(7) st(5) page_aligned_bound [OF Suc.prems(2) lt Suc.prems(3)] by simp
      have un: "\<forall>v < MAXVA. in_range (a + PGSIZE) fin v \<longrightarrow> pte ?t pt v AND PTE_V = 0"
        using Suc.prems(6) lf st(1,2) by metis
      have p2: "pgtbl pt ps' ?t" using ext by (simp add: pt_ext_def)
      note ih = Suc.IH [OF p2 st(3) Suc.prems(3) st(4) Suc.prems(5) un fu, of "pa + PGSIZE"]
      have ext2: "pt_ext pt ps s ps'' u" if "pt_ext pt ps' ?t ps'' u" for ps'' u using pt_ext_trans [OF ext that] .
      have map2: "mapped pt a fin pa perm s u" if "mapped pt (a + PGSIZE) fin (pa + PGSIZE) perm ?t u" for u
        using that lf st(1,2) unfolding mapped_def by (auto simp: algebra_simps)
      have keep2: "\<forall>v < MAXVA. \<not> in_range a fin v \<longrightarrow> pte u pt v = pte s pt v"
        if "\<forall>v < MAXVA. \<not> in_range (a + PGSIZE) fin v \<longrightarrow> pte u pt v = pte ?t pt v" for u
        using that lf st(1) by auto
      show ?thesis
        by (rule wp_mono [OF ih], elim exE conjE) (use ext2 map2 keep2 in blast)
    qed
    ultimately show ?thesis using z by (simp only: if_split) blast
  qed
  have fail: "?Q (- 1) t" if "pt_ext pt ps s [] t" "\<forall>v. pte t pt v = pte s pt v" for t
    using that by auto
  have "wp (walk pt a True) (\<lambda>r t. \<exists>ps'. pt_ext pt ps s ps' t \<and> (\<forall>v. pte t pt v = pte s pt v) \<and>
    (if r = 0 then ps' = [] else r = walk_pte (mem t) 2 pt a)) s" by (rule wp_walk_alloc [OF Suc.prems(1) a])
  then show ?case
    unfolding mappages_loop.simps wp_bnd
  proof (rule wp_mono)
    fix r t
    assume "\<exists>ps'. pt_ext pt ps s ps' t \<and> (\<forall>v. pte t pt v = pte s pt v) \<and>
      (if r = 0 then ps' = [] else r = walk_pte (mem t) 2 pt a)"
    then show "wp (if r = 0 then ret (- 1) else bnd (ld r) (\<lambda>e. if e AND PTE_V \<noteq> 0 then panic ''remap''
        else bnd (st r ?x) (\<lambda>_. if a = fin then ret 0
          else mappages_loop fuel pt (a + PGSIZE) fin (pa + PGSIZE) perm))) ?Q t"
      using store fail unfolding wp_if wp_bnd wp_ld wp_st wp_ret wp_panic by (auto split: if_splits)
  qed
qed

section \<open>walkaddr and mappages together\<close>

text \<open>The physical page of a user address, 0 when it has none.\<close>

definition user_pa :: "pmem \<Rightarrow> uint64 \<Rightarrow> uint64 \<Rightarrow> uint64" where
  "user_pa m pt va =
     (if leaf m 2 pt va AND PTE_V = 0 \<or> leaf m 2 pt va AND PTE_U = 0 then 0 else PTE2PA (leaf m 2 pt va))"

lemma walkaddr_eq: "walkaddr pt va s = Done (if va < MAXVA then user_pa (mem s) pt va else 0) s"
proof -
  have "wp (walkaddr pt va) (\<lambda>r t. r = (if va < MAXVA then user_pa (mem s) pt va else 0) \<and> t = s) s"
    unfolding walkaddr_def
    by (cases "va < MAXVA") (auto simp: not_le [symmetric] wp_Done [OF walk_lookup] user_pa_def leaf_def)
  then show ?thesis by (simp add: wp_eq_Done)
qed

lemma user_entry:
  assumes "page_aligned pa" "perm < 1024" "bit perm 4" "leaf m 2 pt va = PA2PTE pa OR perm OR PTE_V"
  shows "user_pa m pt va = pa"
proof -
  have lt: "perm OR PTE_V < 1024"
    using OR_upper [of "uint perm" 10 1] assms(2) by (simp add: word_less_alt uint_or)
  have e: "leaf m 2 pt va = PA2PTE pa OR (perm OR PTE_V)" using assms(4) by (simp add: or.assoc)
  have "bit (leaf m 2 pt va) 0" "bit (leaf m 2 pt va) 4"
    unfolding e by (subst PTE_flag_bits, simp, simp add: bit_or_iff assms(3))+
  then show ?thesis using PTE2PA_PA2PTE [OF assms(1) lt] e
    unfolding user_pa_def PTE_V_iff PTE_U_iff by simp
qed

text \<open>
  C12. Mapping a range makes every user address of it translate to the matching byte of the
  physical range, and leaves the translation of every other address as it was. The call fails only
  when no page is left for a table, and it never touches a page outside the table and the free list.
\<close>

theorem mappages_walkaddr:
  assumes "pgtbl pt ps s" "0 < sz" "va \<le> va + sz - 1" "va + sz - 1 < MAXVA"
    and "page_aligned pa" "perm < 1024" "bit perm 4"
    and "\<forall>v < MAXVA. in_range (PGROUNDDOWN va) (PGROUNDDOWN (va + sz - 1)) v \<longrightarrow> pte s pt v AND PTE_V = 0"
  shows "wp (mappages pt va sz pa perm) (\<lambda>r t. \<exists>ps'. pt_ext pt ps s ps' t \<and> (r = 0 \<or> r = - 1 \<and> ps' = []) \<and>
    (\<forall>v < MAXVA. in_range (PGROUNDDOWN va) (PGROUNDDOWN (va + sz - 1)) v \<longrightarrow> r = 0 \<longrightarrow>
       walkaddr pt v t = Done (pa + (PGROUNDDOWN v - PGROUNDDOWN va)) t) \<and>
    (\<forall>v < MAXVA. \<not> in_range (PGROUNDDOWN va) (PGROUNDDOWN (va + sz - 1)) v \<longrightarrow>
       walkaddr pt v t = Done (user_pa (mem s) pt v) t)) s"
proof -
  let ?a = "PGROUNDDOWN va" and ?f = "PGROUNDDOWN (va + sz - 1)"
  have le: "?a \<le> ?f" using assms(3) by (simp add: word_le_nat_alt unat_PGROUNDDOWN div_le_mono)
  have fin: "?f < MAXVA" using PGROUNDDOWN_le assms(4) by (rule le_less_trans)
  have fuel: "unat (?f - ?a) < 4096 * Suc (unat (?f - ?a) div 4096)"
    using mult_div_mod_eq [of 4096 "unat (?f - ?a)"] mod_less_divisor [of 4096 "unat (?f - ?a)"] by simp
  have tr: "walkaddr pt v t = Done (pa + (PGROUNDDOWN v - ?a)) t"
    if "mapped pt ?a ?f pa perm s t" "v < MAXVA" "in_range ?a ?f v" for t :: "'a kmem_scheme" and v
  proof -
    have "page_aligned (pa + (PGROUNDDOWN v - ?a))" using assms(5)
      by (intro page_aligned_add page_aligned_diff) simp_all
    then show ?thesis
      using user_entry [of "pa + (PGROUNDDOWN v - ?a)" perm "mem t" pt v] that assms(6,7)
      by (simp add: walkaddr_eq mapped_def)
  qed
  have keep: "walkaddr pt v t = Done (user_pa (mem s) pt v) t"
    if "\<forall>v < MAXVA. \<not> in_range ?a ?f v \<longrightarrow> pte t pt v = pte s pt v" "v < MAXVA" "\<not> in_range ?a ?f v"
    for t :: "'a kmem_scheme" and v
    using that by (simp add: walkaddr_eq user_pa_def)
  note loop = wp_mappages_loop [OF assms(1) _ _ le fin assms(8) fuel, of pa perm]
  have "wp (mappages_loop (Suc (unat (?f - ?a) div 4096)) pt ?a ?f pa perm)
      (\<lambda>r t. \<exists>ps'. pt_ext pt ps s ps' t \<and> (r = 0 \<or> r = - 1 \<and> ps' = []) \<and>
        (\<forall>v < MAXVA. in_range ?a ?f v \<longrightarrow> r = 0 \<longrightarrow> walkaddr pt v t = Done (pa + (PGROUNDDOWN v - ?a)) t) \<and>
        (\<forall>v < MAXVA. \<not> in_range ?a ?f v \<longrightarrow> walkaddr pt v t = Done (user_pa (mem s) pt v) t)) s"
    by (rule wp_mono [OF loop], simp, simp, elim exE conjE, rule exI, intro conjI, assumption)
      (use tr keep in auto)
  then show ?thesis by (simp add: mappages_def Let_def)
qed

text \<open>A small memory: an empty root table and two free pages.\<close>

definition demo_kmem :: kmem where
  "demo_kmem = \<lparr>held = [], cproc = None, cthread = None, mem = (\<lambda>_. 0)(0x80005000 := 0x80006000),
     freelist = 0x80005000, kend = 0x80004000\<rparr>"

lemma demo_pgtbl:
  "pgtbl 0x80004000 [0x80005000, 0x80006000] demo_kmem" "leaf (mem demo_kmem) 2 0x80004000 v = 0"
proof -
  have z: "mem demo_kmem x = 0" if "PGROUNDDOWN x = 0x80004000" for x
    using that by (auto simp: demo_kmem_def PGROUNDDOWN_def)
  have f: "frame_ok 0x80004000 0x80004000" by (simp add: frame_ok_def page_aligned_def)
  note e = empty_table [OF f, of "mem demo_kmem" 2]
  show "leaf (mem demo_kmem) 2 0x80004000 v = 0" using z by (intro e(3)) auto
  have "wft 0x80004000 (mem demo_kmem) 2 0x80004000" "tpages (mem demo_kmem) 2 0x80004000 = {0x80004000}"
    using z by (auto intro!: e(1,2))
  then show "pgtbl 0x80004000 [0x80005000, 0x80006000] demo_kmem"
    by (simp add: pgtbl_def demo_kmem_def kmem_inv_def frame_ok_def page_aligned_def)
qed

theorem mappages_walkaddr_witness:
  "wp (mappages 0x80004000 0x3000 0x1800 0x80007000 22) (\<lambda>r t.
     if r = 0 then walkaddr 0x80004000 0x4010 t = Done 0x80008000 t \<and> walkaddr 0x80004000 0x5000 t = Done 0 t
     else r = - 1 \<and> pgtbl 0x80004000 [] t) demo_kmem"
proof -
  let ?P = "\<lambda>v r t. in_range 0x3000 0x4000 v \<longrightarrow> r = 0 \<longrightarrow>
    walkaddr 0x80004000 v t = Done (0x80007000 + (PGROUNDDOWN v - 0x3000)) t"
  let ?N = "\<lambda>v t. \<not> in_range 0x3000 0x4000 v \<longrightarrow> walkaddr 0x80004000 v t = Done (user_pa (mem demo_kmem) 0x80004000 v) t"
  have pg: "PGROUNDDOWN 0x3000 = 0x3000" "PGROUNDDOWN (0x3000 + 0x1800 - 1) = 0x4000" "PGROUNDDOWN 0x47FF = 0x4000"
    by (simp_all add: PGROUNDDOWN_def)
  have "wp (mappages 0x80004000 0x3000 0x1800 0x80007000 22) (\<lambda>r t. \<exists>ps'.
      pt_ext 0x80004000 [0x80005000, 0x80006000] demo_kmem ps' t \<and> (r = 0 \<or> r = - 1 \<and> ps' = []) \<and>
      (\<forall>v < MAXVA. ?P v r t) \<and> (\<forall>v < MAXVA. ?N v t)) demo_kmem"
    using mappages_walkaddr [OF demo_pgtbl(1), of "0x1800" "0x3000" "0x80007000" 22] pg
    by (simp add: demo_pgtbl(2) page_aligned_def)
  then show ?thesis
  proof (rule wp_mono)
    fix r t
    assume "\<exists>ps'. pt_ext 0x80004000 [0x80005000, 0x80006000] demo_kmem ps' t \<and>
      (r = 0 \<or> r = - 1 \<and> ps' = []) \<and> (\<forall>v < MAXVA. ?P v r t) \<and> (\<forall>v < MAXVA. ?N v t)"
    moreover from this have "?P 0x4010 r t" "?N 0x5000 t" by auto
    ultimately show "if r = 0 then walkaddr 0x80004000 0x4010 t = Done 0x80008000 t \<and> walkaddr 0x80004000 0x5000 t = Done 0 t
        else r = - 1 \<and> pgtbl 0x80004000 [] t"
      by (auto simp: in_range_def PGROUNDDOWN_def user_pa_def demo_pgtbl(2) pt_ext_def)
  qed
qed

end
