(* ===== verification/Xv6_Proc.thy ===== *)
theory Xv6_Proc
  imports Xv6_Vm
begin

text \<open>
  Processes and kernel threads: the data of \<^verbatim>\<open>kernel/proc.h\<close> and the operations of
  \<^verbatim>\<open>kernel/proc.c\<close> that need no file system.

  A process is its index in \<open>proc[]\<close>, a thread is a pair of a process and an index in its
  \<open>thread_tbl\<close>. A sleep channel, an address in the source, is a value of \<open>chan\<close>. \<open>swtch\<close> out of
  \<open>sched\<close> is the outcome \<open>Asleep\<close>: the state is the one the scheduler sees. What the thread does
  when it is switched back to is a definition of its own, \<open>sleep_resume\<close> or the end of \<open>yield\<close>.
\<close>

section \<open>kernel/proc.h\<close>

type_synonym cint = "32 word"

datatype chan = ChNull | ChProc nat | ChThread nat nat | ChTicks | ChLog | ChSleep slid
  | ChPipeRead uint64 | ChPipeWrite uint64 | ChBsem nat | ChCons | ChUart | ChBuf nat | ChDesc

datatype threadstate = t_UNUSED | t_USED | t_SLEEPING | t_RUNNABLE | t_RUNNING | TZOMBIE | INVALID

datatype procstate = UNUSED | USED | ZOMBIE

record ctxt =
  x_ra :: uint64
  x_sp :: uint64
  x_s :: "uint64 list"

record thread =
  t_state :: threadstate
  t_chan :: chan
  t_killed :: bool
  t_xstate :: cint
  t_tid :: cint
  t_tparent :: "nat option"
  t_kstack :: uint64
  t_trapframe :: uint64
  t_context :: ctxt

record proc =
  p_state :: procstate
  p_killed :: bool
  p_xstate :: cint
  p_pid :: cint
  p_pendingsignals :: uint
  p_parent :: "nat option"
  thread_tbl :: "nat \<Rightarrow> thread"
  p_sz :: uint64
  p_pagetable :: uint64
  p_trapframepointer :: uint64
  p_ofile :: "nat \<Rightarrow> nat option"
  p_cwd :: "nat option"
  p_name :: "byte list"
  p_signalmask :: uint
  p_signalhandlers :: "nat \<Rightarrow> uint64"
  p_signalmasks :: "nat \<Rightarrow> uint"
  p_backup :: uint64
  p_freeze :: bool
  p_handling :: bool
  p_mask_origin :: uint

text \<open>
  \<open>k_trampoline\<close> and \<open>k_forkret\<close> are addresses the linker provides; \<open>k_local\<close> is where the compiler
  puts a kernel function's local buffer on the kernel stack.
\<close>

record pst = kmem +
  procs :: "nat \<Rightarrow> proc"
  nextpid :: cint
  nexttid :: cint
  initproc :: "nat option"
  ticks :: uint
  k_trampoline :: uint64
  k_forkret :: uint64
  k_local :: uint64

definition NUMOFSIGNALS :: nat where [simp]: "NUMOFSIGNALS = 32"
definition SIG_DFL :: uint64 where [simp]: "SIG_DFL = 0"
definition SIG_IGN :: uint64 where [simp]: "SIG_IGN = 1"
definition SIGKILL :: nat where [simp]: "SIGKILL = 9"
definition SIGSTOP :: nat where [simp]: "SIGSTOP = 17"
definition SIGCONT :: nat where [simp]: "SIGCONT = 19"
definition MAX_STACK_SIZE :: uint64 where [simp]: "MAX_STACK_SIZE = 4000"
definition SZ_TRAPFRAME :: nat where [simp]: "SZ_TRAPFRAME = 288"

text \<open>Offsets in \<open>struct trapframe\<close>.\<close>

definition TF_satp :: uint64 where [simp]: "TF_satp = 0"
definition TF_ksp :: uint64 where [simp]: "TF_ksp = 8"
definition TF_trap :: uint64 where [simp]: "TF_trap = 16"
definition TF_epc :: uint64 where [simp]: "TF_epc = 24"
definition TF_hartid :: uint64 where [simp]: "TF_hartid = 32"
definition TF_ra :: uint64 where [simp]: "TF_ra = 40"
definition TF_sp :: uint64 where [simp]: "TF_sp = 48"
definition TF_a0 :: uint64 where [simp]: "TF_a0 = 112"
definition TF_a1 :: uint64 where [simp]: "TF_a1 = 120"
definition TF_a7 :: uint64 where [simp]: "TF_a7 = 168"

section \<open>Access to the tables\<close>

definition myproc :: "('z pst_scheme, nat) kmon" where
  "myproc = bnd (gets cproc) (\<lambda>p. case p of None \<Rightarrow> fault | Some q \<Rightarrow> ret q)"

definition mythread :: "('z pst_scheme, nat \<times> nat) kmon" where
  "mythread = bnd (gets cthread) (\<lambda>t. case t of None \<Rightarrow> fault | Some u \<Rightarrow> ret u)"

definition getp :: "nat \<Rightarrow> (proc \<Rightarrow> 'a) \<Rightarrow> ('z pst_scheme, 'a) kmon" where
  "getp p f = gets (\<lambda>s. f (procs s p))"

definition setp :: "nat \<Rightarrow> (proc \<Rightarrow> proc) \<Rightarrow> ('z pst_scheme, unit) kmon" where
  "setp p f = modify (\<lambda>s. s\<lparr>procs := (procs s)(p := f (procs s p))\<rparr>)"

definition upd_thread :: "nat \<Rightarrow> (thread \<Rightarrow> thread) \<Rightarrow> proc \<Rightarrow> proc" where
  "upd_thread i f p = p\<lparr>thread_tbl := (thread_tbl p)(i := f (thread_tbl p i))\<rparr>"

definition gett :: "nat \<times> nat \<Rightarrow> (thread \<Rightarrow> 'a) \<Rightarrow> ('z pst_scheme, 'a) kmon" where
  "gett t f = getp (fst t) (\<lambda>p. f (thread_tbl p (snd t)))"

definition sett :: "nat \<times> nat \<Rightarrow> (thread \<Rightarrow> thread) \<Rightarrow> ('z pst_scheme, unit) kmon" where
  "sett t f = setp (fst t) (upd_thread (snd t) f)"

text \<open>A field of a trap frame, through a pointer that must not be null.\<close>

definition tf_get :: "uint64 \<Rightarrow> uint64 \<Rightarrow> ('z pst_scheme, uint64) kmon" where
  "tf_get tf off = (if tf = 0 then fault else ld (tf + off))"

definition tf_set :: "uint64 \<Rightarrow> uint64 \<Rightarrow> uint64 \<Rightarrow> ('z pst_scheme, unit) kmon" where
  "tf_set tf off v = (if tf = 0 then fault else st (tf + off) v)"

text \<open>\<open>copyout\<close> of a kernel variable with the given bytes.\<close>

definition store_bytes :: "uint64 \<Rightarrow> byte list \<Rightarrow> ('z pst_scheme, unit) kmon" where
  "store_bytes a bs = for_each [0..<length bs] (\<lambda>i. st8 (a + of_nat i) (bs ! i))"

definition copyout_bytes :: "uint64 \<Rightarrow> uint64 \<Rightarrow> byte list \<Rightarrow> ('z pst_scheme, int) kmon" where
  "copyout_bytes pagetable dstva bs =
     bnd (gets k_local) (\<lambda>l.
     bnd (store_bytes l bs) (\<lambda>_.
     copyout pagetable dstva l (of_nat (length bs))))"

definition le_bytes :: "nat \<Rightarrow> 'a :: len word \<Rightarrow> byte list" where
  "le_bytes n w = map (\<lambda>i. ucast (drop_bit (8 * i) w)) [0..<n]"

section \<open>Identifiers\<close>

definition threadinit :: "nat \<Rightarrow> ('z pst_scheme, unit) kmon" where
  "threadinit p = for_each [0..<NTHREAD] (\<lambda>i. sett (p, i) (\<lambda>t. t\<lparr>t_kstack := KSTACK p i\<rparr>))"

definition procinit :: "('z pst_scheme, unit) kmon" where
  "procinit = for_each [0..<NPROC] threadinit"

definition allocpid :: "('z pst_scheme, cint) kmon" where
  "allocpid =
     bnd (lock_acquire LPid) (\<lambda>_.
     bnd (gets nextpid) (\<lambda>pid.
     bnd (modify (\<lambda>s. s\<lparr>nextpid := nextpid s + 1\<rparr>)) (\<lambda>_.
     bnd (lock_release LPid) (\<lambda>_.
     ret pid))))"

definition get_tid :: "('z pst_scheme, cint) kmon" where
  "get_tid =
     bnd (lock_acquire LTid) (\<lambda>_.
     bnd (gets nexttid) (\<lambda>tid.
     bnd (modify (\<lambda>s. s\<lparr>nexttid := nexttid s + 1\<rparr>)) (\<lambda>_.
     bnd (lock_release LTid) (\<lambda>_.
     ret tid))))"

section \<open>Allocation and release of processes\<close>

definition free_thread :: "nat \<times> nat \<Rightarrow> ('z pst_scheme, unit) kmon" where
  "free_thread t = sett t (\<lambda>r. r\<lparr>t_trapframe := 0, t_killed := False, t_chan := ChNull, t_xstate := 0,
     t_tparent := None, t_state := t_UNUSED\<rparr>)"

definition proc_pagetable :: "nat \<Rightarrow> ('z pst_scheme, uint64) kmon" where
  "proc_pagetable p =
     bnd uvmcreate (\<lambda>pagetable.
     if pagetable = 0 then ret 0 else
     bnd (gets k_trampoline) (\<lambda>trampoline.
     bnd (mappages pagetable TRAMPOLINE PGSIZE trampoline (PTE_R OR PTE_X)) (\<lambda>r.
     if r < 0 then bnd (uvmfree pagetable 0) (\<lambda>_. ret 0) else
     bnd (getp p p_trapframepointer) (\<lambda>tf.
     bnd (mappages pagetable TRAPFRAME PGSIZE tf (PTE_R OR PTE_W)) (\<lambda>r.
     if r < 0 then
       bnd (uvmunmap pagetable TRAMPOLINE 1 False) (\<lambda>_.
       bnd (uvmfree pagetable 0) (\<lambda>_. ret 0))
     else ret pagetable)))))"

definition proc_freepagetable :: "uint64 \<Rightarrow> uint64 \<Rightarrow> ('z pst_scheme, unit) kmon" where
  "proc_freepagetable pagetable sz =
     bnd (uvmunmap pagetable TRAMPOLINE 1 False) (\<lambda>_.
     bnd (uvmunmap pagetable TRAPFRAME 1 False) (\<lambda>_.
     uvmfree pagetable sz))"

text \<open>\<open>user_trap_frame_backup\<close> is freed and, unlike \<open>trapframepointer\<close>, not cleared.\<close>

definition freeproc :: "nat \<Rightarrow> ('z pst_scheme, unit) kmon" where
  "freeproc p =
     bnd (getp p (\<lambda>r. r)) (\<lambda>r.
     bnd (if p_pagetable r \<noteq> 0 then proc_freepagetable (p_pagetable r) (p_sz r) else ret ()) (\<lambda>_.
     bnd (if p_trapframepointer r \<noteq> 0 then kfree (p_trapframepointer r) else ret ()) (\<lambda>_.
     bnd (if p_backup r \<noteq> 0 then kfree (p_backup r) else ret ()) (\<lambda>_.
     bnd (setp p (\<lambda>r. r\<lparr>p_trapframepointer := 0, p_pagetable := 0, p_sz := 0, p_pid := 0, p_parent := None,
       p_name := (p_name r)[0 := 0], p_killed := False, p_xstate := 0, p_state := UNUSED\<rparr>)) (\<lambda>_.
     for_each [0..<NTHREAD] (\<lambda>i. free_thread (p, i)))))))"

definition init_siganls_handlers_to_default :: "nat \<Rightarrow> ('z pst_scheme, unit) kmon" where
  "init_siganls_handlers_to_default p =
     for_each [0..<NUMOFSIGNALS] (\<lambda>i. setp p (\<lambda>r. r\<lparr>p_signalhandlers := (p_signalhandlers r)(i := SIG_DFL)\<rparr>))"

text \<open>The \<open>for\<close> loop of \<open>allocproc\<close>: the first unused slot, its lock held.\<close>

fun find_unused :: "nat list \<Rightarrow> ('z pst_scheme, nat option) kmon" where
  "find_unused [] = ret None"
| "find_unused (p # ps) =
     bnd (lock_acquire (LProc p)) (\<lambda>_.
     bnd (getp p p_state) (\<lambda>s.
     if s = UNUSED then ret (Some p)
     else bnd (lock_release (LProc p)) (\<lambda>_. find_unused ps)))"

definition alloc_fail :: "nat \<Rightarrow> ('z pst_scheme, nat option) kmon" where
  "alloc_fail p =
     bnd (free_thread (p, 0)) (\<lambda>_.
     bnd (freeproc p) (\<lambda>_.
     bnd (lock_release (LProc p)) (\<lambda>_.
     ret None)))"

definition zero_context :: ctxt where
  "zero_context = \<lparr>x_ra = 0, x_sp = 0, x_s = replicate 12 0\<rparr>"

definition allocproc :: "('z pst_scheme, nat option) kmon" where
  "allocproc =
     bnd (find_unused [0..<NPROC]) (\<lambda>found.
     case found of None \<Rightarrow> ret None | Some p \<Rightarrow>
     bnd allocpid (\<lambda>pid.
     bnd (setp p (\<lambda>r. r\<lparr>p_pid := pid, p_state := USED, p_killed := False\<rparr>)) (\<lambda>_.
     bnd (sett (p, 0) (\<lambda>t. t\<lparr>t_state := t_USED, t_killed := False\<rparr>)) (\<lambda>_.
     bnd get_tid (\<lambda>tid.
     bnd (sett (p, 0) (\<lambda>t. t\<lparr>t_tid := tid, t_tparent := Some p\<rparr>)) (\<lambda>_.
     bnd (for_each [0..<NUMOFSIGNALS] (\<lambda>i. setp p (\<lambda>r. r\<lparr>p_signalmasks := (p_signalmasks r)(i := 0)\<rparr>))) (\<lambda>_.
     bnd kalloc (\<lambda>tf.
     if tf = 0 then alloc_fail p else
     bnd (setp p (\<lambda>r. r\<lparr>p_trapframepointer := tf\<rparr>)) (\<lambda>_.
     bnd (proc_pagetable p) (\<lambda>pagetable.
     bnd (setp p (\<lambda>r. r\<lparr>p_pagetable := pagetable\<rparr>)) (\<lambda>_.
     if pagetable = 0 then alloc_fail p else
     bnd (for_each [0..<NTHREAD] (\<lambda>i.
       sett (p, i) (\<lambda>t. t\<lparr>t_trapframe := tf + of_nat (i * SZ_TRAPFRAME)\<rparr>))) (\<lambda>_.
     bnd kalloc (\<lambda>backup.
     bnd (setp p (\<lambda>r. r\<lparr>p_backup := backup\<rparr>)) (\<lambda>_.
     if backup = 0 then alloc_fail p else
     bnd (setp p (\<lambda>r. r\<lparr>p_handling := False, p_mask_origin := 0\<rparr>)) (\<lambda>_.
     bnd (sett (p, 0) (\<lambda>t. t\<lparr>t_context := zero_context\<rparr>)) (\<lambda>_.
     bnd (init_siganls_handlers_to_default p) (\<lambda>_.
     bnd (setp p (\<lambda>r. r\<lparr>p_pendingsignals := 0\<rparr>)) (\<lambda>_.
     bnd (gets k_forkret) (\<lambda>forkret.
     bnd (sett (p, 0) (\<lambda>t. t\<lparr>t_context := (t_context t)\<lparr>x_ra := forkret, x_sp := t_kstack t + PGSIZE\<rparr>\<rparr>)) (\<lambda>_.
     ret (Some p)))))))))))))))))))))"

text \<open>\<open>growproc\<close> computes sizes in a 32-bit \<open>uint\<close>, so \<open>p->sz\<close> and the result of \<open>uvmalloc\<close> are truncated.\<close>

definition growproc :: "cint \<Rightarrow> ('z pst_scheme, cint) kmon" where
  "growproc n =
     bnd myproc (\<lambda>p.
     bnd (lock_acquire (LProc p)) (\<lambda>_.
     bnd (getp p p_sz) (\<lambda>psz.
     bnd (getp p p_pagetable) (\<lambda>pagetable.
     let sz = ucast psz :: uint in
     if 0 < sint n then
       bnd (uvmalloc pagetable (ucast sz) (ucast (sz + n))) (\<lambda>r.
       let sz1 = ucast r :: uint in
       if sz1 = 0 then bnd (lock_release (LProc p)) (\<lambda>_. ret (- 1))
       else bnd (setp p (\<lambda>r. r\<lparr>p_sz := ucast sz1\<rparr>)) (\<lambda>_. bnd (lock_release (LProc p)) (\<lambda>_. ret 0)))
     else
       bnd (if sint n < 0 then uvmdealloc pagetable (ucast sz) (ucast (sz + n)) else ret (ucast sz)) (\<lambda>r.
       let sz1 = ucast r :: uint in
       bnd (setp p (\<lambda>r. r\<lparr>p_sz := ucast sz1\<rparr>)) (\<lambda>_. bnd (lock_release (LProc p)) (\<lambda>_. ret 0)))))))"

section \<open>Scheduling\<close>

text \<open>
  \<open>sched\<close> up to \<open>swtch\<close>. Interrupts are off whenever a lock is held, so the last check of the
  source never fires under the first two.
\<close>

definition swtch_out :: "('z pst_scheme, 'a) kmon" where
  "swtch_out = (\<lambda>s. Asleep s)"

definition sched :: "('z pst_scheme, 'a) kmon" where
  "sched =
     bnd mythread (\<lambda>t.
     bnd myproc (\<lambda>p.
     bnd (gets (lock_holding (LProc p))) (\<lambda>mine.
     if \<not> mine then panic ''sched p->lock'' else
     bnd (gets noff) (\<lambda>n.
     if n \<noteq> 1 \<and> n \<noteq> 2 then panic ''sched locks'' else
     bnd (gett t t_state) (\<lambda>s.
     if s = t_RUNNING then panic ''sched running''
     else swtch_out)))))"

definition yield :: "('z pst_scheme, unit) kmon" where
  "yield =
     bnd mythread (\<lambda>t.
     bnd myproc (\<lambda>p.
     bnd (lock_acquire (LProc p)) (\<lambda>_.
     bnd (sett t (\<lambda>r. r\<lparr>t_state := t_RUNNABLE\<rparr>)) (\<lambda>_.
     sched))))"

definition yield_resume :: "('z pst_scheme, unit) kmon" where
  "yield_resume = bnd myproc (\<lambda>p. lock_release (LProc p))"

definition sleep :: "chan \<Rightarrow> lockid \<Rightarrow> ('z pst_scheme, 'a) kmon" where
  "sleep chan lk =
     bnd mythread (\<lambda>t.
     bnd myproc (\<lambda>p.
     bnd (lock_acquire (LProc p)) (\<lambda>_.
     bnd (lock_release lk) (\<lambda>_.
     bnd (sett t (\<lambda>r. r\<lparr>t_chan := chan\<rparr>)) (\<lambda>_.
     bnd (sett t (\<lambda>r. r\<lparr>t_state := t_SLEEPING\<rparr>)) (\<lambda>_.
     sched))))))"

definition sleep_resume :: "lockid \<Rightarrow> ('z pst_scheme, unit) kmon" where
  "sleep_resume lk =
     bnd mythread (\<lambda>t.
     bnd myproc (\<lambda>p.
     bnd (sett t (\<lambda>r. r\<lparr>t_chan := ChNull\<rparr>)) (\<lambda>_.
     bnd (lock_release (LProc p)) (\<lambda>_.
     lock_acquire lk))))"

definition wakeup :: "chan \<Rightarrow> ('z pst_scheme, unit) kmon" where
  "wakeup chan =
     for_each [0..<NPROC] (\<lambda>p.
       bnd (lock_acquire (LProc p)) (\<lambda>_.
       bnd (for_each [0..<NTHREAD] (\<lambda>i.
         bnd (gett (p, i) (\<lambda>t. t)) (\<lambda>t.
         if t_state t = t_SLEEPING \<and> t_chan t = chan
         then sett (p, i) (\<lambda>r. r\<lparr>t_state := t_RUNNABLE\<rparr>) else ret ()))) (\<lambda>_.
       lock_release (LProc p))))"

text \<open>
  One round of the loop of \<open>scheduler\<close>. \<open>run\<close> is what the CPU executes from \<open>swtch\<close> into a
  thread until the thread switches back.
\<close>

definition scheduler_round :: "(nat \<times> nat \<Rightarrow> ('z pst_scheme, unit) kmon) \<Rightarrow> ('z pst_scheme, unit) kmon" where
  "scheduler_round run =
     for_each [0..<NPROC] (\<lambda>p.
       bnd (lock_acquire (LProc p)) (\<lambda>_.
       bnd (getp p p_state) (\<lambda>st.
       bnd (if st = USED then
         bnd (modify (\<lambda>s. s\<lparr>cproc := Some p\<rparr>)) (\<lambda>_.
         bnd (for_each [0..<NTHREAD] (\<lambda>i.
           bnd (gett (p, i) t_state) (\<lambda>ts.
           if ts = t_RUNNABLE then
             bnd (sett (p, i) (\<lambda>r. r\<lparr>t_state := t_RUNNING\<rparr>)) (\<lambda>_.
             bnd (modify (\<lambda>s. s\<lparr>cthread := Some (p, i)\<rparr>)) (\<lambda>_.
             bnd (run (p, i)) (\<lambda>_.
             modify (\<lambda>s. s\<lparr>cthread := None\<rparr>))))
           else ret ()))) (\<lambda>_.
         modify (\<lambda>s. s\<lparr>cproc := None\<rparr>)))
        else ret ()) (\<lambda>_.
       lock_release (LProc p)))))"

section \<open>Signals sent and process family\<close>

fun kill_loop :: "nat list \<Rightarrow> cint \<Rightarrow> cint \<Rightarrow> ('z pst_scheme, cint) kmon" where
  "kill_loop [] pid signum = ret (- 1)"
| "kill_loop (p # ps) pid signum =
     bnd (lock_acquire (LProc p)) (\<lambda>_.
     bnd (getp p (\<lambda>r. r)) (\<lambda>r.
     if p_pid r = pid \<and> (p_state r = ZOMBIE \<or> p_state r = UNUSED) then
       bnd (lock_release (LProc p)) (\<lambda>_. ret (- 1))
     else if p_pid r = pid then
       bnd (setp p (\<lambda>r. r\<lparr>p_pendingsignals := p_pendingsignals r OR signum\<rparr>)) (\<lambda>_.
       bnd (lock_release (LProc p)) (\<lambda>_. ret 0))
     else bnd (lock_release (LProc p)) (\<lambda>_. kill_loop ps pid signum)))"

definition kill :: "cint \<Rightarrow> cint \<Rightarrow> ('z pst_scheme, cint) kmon" where
  "kill pid signum = kill_loop [0..<NPROC] pid signum"

definition reparent :: "nat \<Rightarrow> ('z pst_scheme, unit) kmon" where
  "reparent p =
     for_each [0..<NPROC] (\<lambda>pp.
       bnd (getp pp p_parent) (\<lambda>parent.
       if parent = Some p then
         bnd (gets initproc) (\<lambda>init.
         bnd (setp pp (\<lambda>r. r\<lparr>p_parent := init\<rparr>)) (\<lambda>_.
         wakeup (case init of None \<Rightarrow> ChNull | Some q \<Rightarrow> ChProc q)))
       else ret ()))"

text \<open>
  One pass of \<open>wait\<close> over the table: \<open>Inl r\<close> is a \<open>return r\<close> of the source, \<open>Inr havekids\<close> the end
  of the pass. \<open>wait_scan\<close> is the body of the endless loop; it sleeps at the end, and the woken
  thread runs \<open>sleep_resume\<close> and the body again.
\<close>

fun wait_pass :: "nat list \<Rightarrow> bool \<Rightarrow> nat \<Rightarrow> uint64 \<Rightarrow> ('z pst_scheme, cint + bool) kmon" where
  "wait_pass [] havekids p addr = ret (Inr havekids)"
| "wait_pass (np # nps) havekids p addr =
     bnd (getp np p_parent) (\<lambda>parent.
     if parent = Some p then
       bnd (lock_acquire (LProc np)) (\<lambda>_.
       bnd (getp np (\<lambda>r. r)) (\<lambda>r.
       if p_state r = ZOMBIE then
         bnd (getp p p_pagetable) (\<lambda>pagetable.
         bnd (if addr \<noteq> 0 then copyout_bytes pagetable addr (le_bytes 4 (p_xstate r)) else ret 0) (\<lambda>c.
         if c < 0 then
           bnd (lock_release (LProc np)) (\<lambda>_.
           bnd (lock_release LWait) (\<lambda>_.
           ret (Inl (- 1))))
         else
           bnd (freeproc np) (\<lambda>_.
           bnd (lock_release (LProc np)) (\<lambda>_.
           bnd (lock_release LWait) (\<lambda>_.
           ret (Inl (p_pid r)))))))
       else bnd (lock_release (LProc np)) (\<lambda>_. wait_pass nps True p addr)))
     else wait_pass nps havekids p addr)"

definition wait_scan :: "uint64 \<Rightarrow> ('z pst_scheme, cint) kmon" where
  "wait_scan addr =
     bnd myproc (\<lambda>p.
     bnd (wait_pass [0..<NPROC] False p addr) (\<lambda>r.
     case r of
       Inl v \<Rightarrow> ret v
     | Inr havekids \<Rightarrow>
       bnd (getp p p_killed) (\<lambda>killed.
       if \<not> havekids \<or> killed then bnd (lock_release LWait) (\<lambda>_. ret (- 1))
       else sleep (ChProc p) LWait)))"

definition wait :: "uint64 \<Rightarrow> ('z pst_scheme, cint) kmon" where
  "wait addr = bnd (lock_acquire LWait) (\<lambda>_. wait_scan addr)"

definition wait_resume :: "uint64 \<Rightarrow> ('z pst_scheme, cint) kmon" where
  "wait_resume addr = bnd (sleep_resume LWait) (\<lambda>_. wait_scan addr)"

section \<open>Kernel threads\<close>

fun kthread_create_loop :: "nat list \<Rightarrow> nat \<Rightarrow> uint64 \<Rightarrow> uint64 \<Rightarrow> ('z pst_scheme, cint) kmon" where
  "kthread_create_loop [] p start_func stack = bnd (lock_release (LProc p)) (\<lambda>_. ret (- 1))"
| "kthread_create_loop (i # is) p start_func stack =
     bnd (gett (p, i) t_state) (\<lambda>st.
     if st = t_UNUSED then
       bnd (sett (p, i) (\<lambda>t. t\<lparr>t_state := t_RUNNABLE\<rparr>)) (\<lambda>_.
       bnd get_tid (\<lambda>tid.
       bnd (sett (p, i) (\<lambda>t. t\<lparr>t_tid := tid\<rparr>)) (\<lambda>_.
       bnd (gett (p, i) t_trapframe) (\<lambda>tf.
       bnd (tf_set tf TF_epc start_func) (\<lambda>_.
       bnd (tf_set tf TF_sp (stack + MAX_STACK_SIZE - 16)) (\<lambda>_.
       bnd (gets k_forkret) (\<lambda>forkret.
       bnd (sett (p, i) (\<lambda>t. t\<lparr>t_context := zero_context\<lparr>x_ra := forkret, x_sp := t_kstack t + PGSIZE\<rparr>,
         t_tparent := Some p\<rparr>)) (\<lambda>_.
       bnd (lock_release (LProc p)) (\<lambda>_.
       ret tid)))))))))
     else kthread_create_loop is p start_func stack)"

definition kthread_create_proc :: "uint64 \<Rightarrow> uint64 \<Rightarrow> ('z pst_scheme, cint) kmon" where
  "kthread_create_proc start_func stack =
     bnd myproc (\<lambda>p.
     bnd (lock_acquire (LProc p)) (\<lambda>_.
     kthread_create_loop [0..<NTHREAD] p start_func stack))"

definition kthread_id_proc :: "('z pst_scheme, cint) kmon" where
  "kthread_id_proc =
     bnd mythread (\<lambda>t.
     bnd (gett t t_tparent) (\<lambda>parent.
     case parent of None \<Rightarrow> fault | Some p \<Rightarrow>
     bnd (lock_acquire (LProc p)) (\<lambda>_.
     bnd (gett t t_tid) (\<lambda>tid.
     bnd (lock_release (LProc p)) (\<lambda>_.
     if tid \<noteq> 0 then ret tid else ret (- 1))))))"

text \<open>The search of \<open>kthread_join_proc\<close>: when no thread has the id, \<open>t\<close> is left at the last slot.\<close>

definition join_slot :: "proc \<Rightarrow> cint \<Rightarrow> nat" where
  "join_slot r tid =
     (case List.find (\<lambda>i. t_tid (thread_tbl r i) = tid) [0..<NTHREAD] of Some i \<Rightarrow> i | None \<Rightarrow> NTHREAD - 1)"

definition join_loop :: "nat \<Rightarrow> nat \<Rightarrow> cint \<Rightarrow> uint64 \<Rightarrow> ('z pst_scheme, cint) kmon" where
  "join_loop p i tid status =
     bnd (gett (p, i) (\<lambda>t. t)) (\<lambda>t.
     if t_tid t = tid \<and> t_state t \<noteq> TZOMBIE then
       bnd (lock_release (LProc p)) (\<lambda>_.
       sleep (ChThread p i) LWait)
     else
       bnd (getp p p_pagetable) (\<lambda>pagetable.
       bnd (if status \<noteq> 0 then copyout_bytes pagetable status (le_bytes 4 (t_xstate t)) else ret 0) (\<lambda>c.
       if c < 0 then
         bnd (lock_release (LProc p)) (\<lambda>_.
         bnd (lock_release LWait) (\<lambda>_.
         ret (- 1)))
       else
         bnd (free_thread (p, i)) (\<lambda>_.
         bnd (lock_release LWait) (\<lambda>_.
         bnd (lock_release (LProc p)) (\<lambda>_.
         ret 0))))))"

definition kthread_join_proc :: "cint \<Rightarrow> uint64 \<Rightarrow> ('z pst_scheme, cint) kmon" where
  "kthread_join_proc tid status =
     bnd myproc (\<lambda>p.
     bnd mythread (\<lambda>me.
     bnd (gett me t_tid) (\<lambda>mytid.
     bnd (gets nexttid) (\<lambda>nt.
     if tid = mytid \<or> sint tid > sint nt \<or> sint tid < 1 then ret (- 1) else
     bnd (lock_acquire LWait) (\<lambda>_.
     bnd (lock_acquire (LProc p)) (\<lambda>_.
     bnd (getp p (\<lambda>r. join_slot r tid)) (\<lambda>i.
     join_loop p i tid status)))))))"

definition join_resume :: "nat \<Rightarrow> cint \<Rightarrow> uint64 \<Rightarrow> ('z pst_scheme, cint) kmon" where
  "join_resume i tid status =
     bnd myproc (\<lambda>p.
     bnd (sleep_resume LWait) (\<lambda>_.
     bnd (lock_acquire (LProc p)) (\<lambda>_.
     join_loop p i tid status)))"

section \<open>Signal set-up and copying\<close>

definition sigret_proc :: "('z pst_scheme, cint) kmon" where
  "sigret_proc =
     bnd myproc (\<lambda>p.
     bnd mythread (\<lambda>t.
     bnd (lock_acquire (LProc p)) (\<lambda>_.
     bnd (setp p (\<lambda>r. r\<lparr>p_handling := False\<rparr>)) (\<lambda>_.
     bnd (gett t t_trapframe) (\<lambda>tf.
     bnd (getp p p_backup) (\<lambda>backup.
     bnd (if tf = 0 \<or> backup = 0 then fault else memmove_k tf backup SZ_TRAPFRAME) (\<lambda>_.
     bnd (setp p (\<lambda>r. r\<lparr>p_signalmask := p_mask_origin r\<rparr>)) (\<lambda>_.
     bnd (lock_release (LProc p)) (\<lambda>_.
     ret 0)))))))))"

text \<open>
  \<open>struct sigaction\<close>: the handler's address at offset 0 and the mask at offset 8 of 16 bytes; the
  four bytes of padding are what the stack holds. The
  arrays have \<open>NUMOFSIGNALS\<close> entries; an access beyond them is a fault of the model.
\<close>

definition sig_bytes :: "uint64 \<Rightarrow> uint \<Rightarrow> byte list" where
  "sig_bytes h msk = le_bytes 8 h @ le_bytes 4 msk"

definition sigaction_proc :: "cint \<Rightarrow> uint64 \<Rightarrow> uint64 \<Rightarrow> ('z pst_scheme, cint) kmon" where
  "sigaction_proc signum act oldact =
     bnd (gets cproc) (\<lambda>mp.
     case mp of None \<Rightarrow> ret (- 1) | Some p \<Rightarrow>
     if sint signum > 33 \<or> sint signum < 0 then ret (- 1) else
     bnd (lock_acquire (LProc p)) (\<lambda>_.
     bnd (getp p p_pagetable) (\<lambda>pagetable.
     bnd (gets k_local) (\<lambda>loc.
     let n = unat signum; bad = n \<ge> NUMOFSIGNALS in
     bnd (if oldact \<noteq> 0 then
            if bad then fault else
            bnd (getp p (\<lambda>r. sig_bytes (p_signalhandlers r n) (p_signalmasks r n))) (\<lambda>bs.
            bnd (store_bytes loc bs) (\<lambda>_.
            copyout pagetable oldact loc 16))
          else ret 0) (\<lambda>c.
     if c < 0 then bnd (lock_release (LProc p)) (\<lambda>_. ret (- 1)) else
     if act = 0 then bnd (lock_release (LProc p)) (\<lambda>_. ret 0) else
     if n = SIGKILL \<or> n = SIGSTOP then bnd (lock_release (LProc p)) (\<lambda>_. ret (- 1)) else
     bnd (copyin pagetable loc act 16) (\<lambda>c.
     if c < 0 then bnd (lock_release (LProc p)) (\<lambda>_. ret (- 1)) else
     if bad then fault else
     bnd (ld loc) (\<lambda>h.
     bnd (ld (loc + 8)) (\<lambda>w.
     bnd (setp p (\<lambda>r. r\<lparr>p_signalhandlers := (p_signalhandlers r)(n := h),
       p_signalmasks := (p_signalmasks r)(n := ucast w)\<rparr>)) (\<lambda>_.
     bnd (lock_release (LProc p)) (\<lambda>_.
     ret 0))))))))))"

definition sigprocmask_proc :: "cint \<Rightarrow> ('z pst_scheme, cint) kmon" where
  "sigprocmask_proc newmask =
     bnd myproc (\<lambda>p.
     bnd (getp p p_signalmask) (\<lambda>old.
     bnd (setp p (\<lambda>r. r\<lparr>p_signalmask := newmask\<rparr>)) (\<lambda>_.
     ret old)))"

definition copy_signal_handlers :: "nat \<Rightarrow> nat \<Rightarrow> ('z pst_scheme, unit) kmon" where
  "copy_signal_handlers np p =
     for_each [0..<NUMOFSIGNALS] (\<lambda>i.
       bnd (getp p (\<lambda>r. p_signalhandlers r i)) (\<lambda>h.
       setp np (\<lambda>r. r\<lparr>p_signalhandlers := (p_signalhandlers r)(i := h)\<rparr>)))"

definition either_copyout :: "bool \<Rightarrow> uint64 \<Rightarrow> uint64 \<Rightarrow> uint64 \<Rightarrow> ('z pst_scheme, int) kmon" where
  "either_copyout user_dst dst src len =
     bnd (gets cproc) (\<lambda>mp.
     if user_dst then
       (case mp of None \<Rightarrow> fault | Some p \<Rightarrow>
        bnd (getp p p_pagetable) (\<lambda>pagetable. copyout pagetable dst src len))
     else bnd (memmove_k dst src (unat len)) (\<lambda>_. ret 0))"

definition either_copyin :: "uint64 \<Rightarrow> bool \<Rightarrow> uint64 \<Rightarrow> uint64 \<Rightarrow> ('z pst_scheme, int) kmon" where
  "either_copyin dst user_src src len =
     bnd (gets cproc) (\<lambda>mp.
     if user_src then
       (case mp of None \<Rightarrow> fault | Some p \<Rightarrow>
        bnd (getp p p_pagetable) (\<lambda>pagetable. copyin pagetable dst src len))
     else bnd (memmove_k dst src (unat len)) (\<lambda>_. ret 0))"

section \<open>Weakest preconditions\<close>

lemma wp_getp [kwp, simp]: "wp (getp p f) Q s = Q (f (procs s p)) s"
  by (simp add: getp_def)

lemma wp_setp [kwp, simp]: "wp (setp p f) Q s = Q () (s\<lparr>procs := (procs s)(p := f (procs s p))\<rparr>)"
  by (simp add: setp_def)

lemma wp_gett [kwp, simp]: "wp (gett t f) Q s = Q (f (thread_tbl (procs s (fst t)) (snd t))) s"
  by (simp add: gett_def)

lemma wp_sett [kwp, simp]:
  "wp (sett t f) Q s = Q () (s\<lparr>procs := (procs s)(fst t := upd_thread (snd t) f (procs s (fst t)))\<rparr>)"
  by (simp add: sett_def)

lemma wp_myproc [kwp, simp]: "wp myproc Q s = (\<exists>p. cproc s = Some p \<and> Q p s)"
  by (cases "cproc s") (auto simp: myproc_def)

lemma wp_mythread [kwp, simp]: "wp mythread Q s = (\<exists>t. cthread s = Some t \<and> Q t s)"
  by (cases "cthread s") (auto simp: mythread_def)

lemma bnd_getp [simp]: "bnd (getp p f) k s = k (f (procs s p)) s"
  by (simp add: getp_def)

lemma bnd_gett [simp]: "bnd (gett t f) k s = k (f (thread_tbl (procs s (fst t)) (snd t))) s"
  by (simp add: gett_def)

lemma bnd_setp [simp]:
  "bnd (setp p f) k s = k () (s\<lparr>procs := (procs s)(p := f (procs s p))\<rparr>)"
  "bnd (sett t g) k s = k () (s\<lparr>procs := (procs s)(fst t := upd_thread (snd t) g (procs s (fst t)))\<rparr>)"
  by (simp_all add: setp_def sett_def)

lemma bnd_myproc [simp]: "cproc s = Some p \<Longrightarrow> bnd myproc k s = k p s"
  by (simp add: myproc_def bnd_def ret_def)

lemma bnd_mythread [simp]: "cthread s = Some t \<Longrightarrow> bnd mythread k s = k t s"
  by (simp add: mythread_def bnd_def ret_def)

lemma upd_thread_sel [simp]:
  "thread_tbl (upd_thread i f r) = (thread_tbl r)(i := f (thread_tbl r i))"
  "p_state (upd_thread i f r) = p_state r" "p_killed (upd_thread i f r) = p_killed r"
  "p_pid (upd_thread i f r) = p_pid r" "p_parent (upd_thread i f r) = p_parent r"
  "p_pagetable (upd_thread i f r) = p_pagetable r" "p_sz (upd_thread i f r) = p_sz r"
  "p_trapframepointer (upd_thread i f r) = p_trapframepointer r" "p_backup (upd_thread i f r) = p_backup r"
  by (simp_all add: upd_thread_def)

lemma upd_thread_compose [simp]: "upd_thread i g (upd_thread i f r) = upd_thread i (g \<circ> f) r"
  by (simp add: upd_thread_def)

end
