(* ===== verification/Xv6_Threads.thy ===== *)
theory Xv6_Threads
  imports Xv6_Proc
begin

text \<open>
  What the thread operations of \<open>Xv6_Proc\<close> do: sleeping and waking, switching to the scheduler,
  creating and joining threads, sending signals.
\<close>

section \<open>A small process table\<close>

text \<open>
  A process table for examples: process 1 is used, its thread 0 runs on this CPU, its thread 1 is a
  zombie with id 6, the other slots are as at boot.
\<close>

definition thread0 :: thread where
  "thread0 = \<lparr>t_state = t_UNUSED, t_chan = ChNull, t_killed = False, t_xstate = 0, t_tid = 0, t_tparent = None,
     t_kstack = 0, t_trapframe = 0, t_context = zero_context\<rparr>"

definition proc0 :: proc where
  "proc0 = \<lparr>p_state = UNUSED, p_killed = False, p_xstate = 0, p_pid = 0, p_pendingsignals = 0, p_parent = None,
     thread_tbl = (\<lambda>_. thread0), p_sz = 0, p_pagetable = 0, p_trapframepointer = 0, p_ofile = (\<lambda>_. None),
     p_cwd = None, p_name = replicate 16 0, p_signalmask = 0, p_signalhandlers = (\<lambda>_. 0),
     p_signalmasks = (\<lambda>_. 0), p_backup = 0, p_freeze = False, p_handling = False, p_mask_origin = 0\<rparr>"

definition demo_proc :: proc where
  "demo_proc = proc0\<lparr>p_state := USED, p_pid := 4, p_trapframepointer := 0x80007000, p_backup := 0x80008000,
     thread_tbl := (\<lambda>_. thread0)(
       0 := thread0\<lparr>t_state := t_RUNNING, t_tid := 5, t_tparent := Some 1, t_trapframe := 0x80007000\<rparr>,
       1 := thread0\<lparr>t_state := TZOMBIE, t_tid := 6, t_tparent := Some 1, t_trapframe := 0x80007120\<rparr>,
       2 := thread0\<lparr>t_trapframe := 0x80007240\<rparr>)\<rparr>"

definition demo_pst :: pst where
  "demo_pst = \<lparr>held = [], cproc = Some 1, cthread = Some (1, 0), mem = (\<lambda>_. 0)(0x80005000 := 0x80006000),
     freelist = 0x80005000, kend = 0x80004000, procs = (\<lambda>_. proc0)(1 := demo_proc), nextpid = 5, nexttid = 9,
     initproc = Some 0, ticks = 0, k_trampoline = 0x80003000, k_forkret = 0x80001000, k_local = 0x80002000\<rparr>"

section \<open>wakeup\<close>

definition map_threads :: "nat \<Rightarrow> (thread \<Rightarrow> thread) \<Rightarrow> proc \<Rightarrow> proc" where
  "map_threads n f r = r\<lparr>thread_tbl := (\<lambda>i. if i < n then f (thread_tbl r i) else thread_tbl r i)\<rparr>"

lemma map_threads_0 [simp]: "map_threads 0 f r = r"
  by (simp add: map_threads_def)

lemma map_threads_Suc: "upd_thread n f (map_threads n f r) = map_threads (Suc n) f r"
  by (auto simp: map_threads_def upd_thread_def fun_eq_iff intro!: proc.equality)

lemma for_each_threads:
  assumes "\<And>i t. f i t = Done () (t\<lparr>procs := (procs t)(p := upd_thread i g (procs t p))\<rparr>)"
  shows "for_each [0..<n] f s = Done () (s\<lparr>procs := (procs s)(p := map_threads n g (procs s p))\<rparr>)"
proof -
  let ?G = "\<lambda>k. s\<lparr>procs := (procs s)(p := map_threads k g (procs s p))\<rparr>"
  have "f i (?G i) = Done () (?G (Suc i))" for i unfolding assms by (simp add: map_threads_Suc)
  from for_each_upt [of n f ?G, OF this] show ?thesis by simp
qed

definition wake :: "chan \<Rightarrow> thread \<Rightarrow> thread" where
  "wake ch t = (if t_state t = t_SLEEPING \<and> t_chan t = ch then t\<lparr>t_state := t_RUNNABLE\<rparr> else t)"

definition wake_all :: "chan \<Rightarrow> nat \<Rightarrow> (nat \<Rightarrow> proc) \<Rightarrow> nat \<Rightarrow> proc" where
  "wake_all ch n ps p = (if p < n then map_threads NTHREAD (wake ch) (ps p) else ps p)"

lemma wake_all_0 [simp]: "wake_all ch 0 ps = ps"
  by (simp add: wake_all_def fun_eq_iff)

lemma wakeup_body:
  "(bnd (gett (p, i) (\<lambda>t. t)) (\<lambda>t. if t_state t = t_SLEEPING \<and> t_chan t = ch
      then sett (p, i) (\<lambda>r. r\<lparr>t_state := t_RUNNABLE\<rparr>) else ret ())) s =
    Done () (s\<lparr>procs := (procs s)(p := upd_thread i (wake ch) (procs s p))\<rparr>)"
  unfolding wp_eq_Done [symmetric]
  by (auto simp: wake_def upd_thread_def)

lemma wakeup_eq:
  assumes "\<And>p. p < NPROC \<Longrightarrow> LProc p \<notin> set (held s)"
  shows "wakeup ch s = Done () (s\<lparr>procs := wake_all ch NPROC (procs s)\<rparr>)"
proof -
  let ?G = "\<lambda>n. s\<lparr>procs := wake_all ch n (procs s)\<rparr>"
  let ?f = "\<lambda>p. bnd (lock_acquire (LProc p)) (\<lambda>_. bnd (for_each [0..<NTHREAD] (\<lambda>i.
      bnd (gett (p, i) (\<lambda>t. t)) (\<lambda>t. if t_state t = t_SLEEPING \<and> t_chan t = ch
        then sett (p, i) (\<lambda>r. r\<lparr>t_state := t_RUNNABLE\<rparr>) else ret ()))) (\<lambda>_. lock_release (LProc p)))"
  have "?f n (?G n) = Done () (?G (Suc n))" if "n < NPROC" for n
  proof -
    have w: "wake_all ch (Suc n) (procs s) = (wake_all ch n (procs s))(n := map_threads NTHREAD (wake ch) (procs s n))"
      by (auto simp: wake_all_def fun_eq_iff)
    show ?thesis unfolding w wp_eq_Done [symmetric]
      using assms [OF that] by (simp add: wp_Done [OF for_each_threads [OF wakeup_body]] wake_all_def)
  qed
  from for_each_upt [of NPROC ?f ?G, OF this] show ?thesis
    unfolding wakeup_def by (simp add: wake_all_def)
qed

section \<open>sched, sleep and yield\<close>

definition on_cpu :: "nat \<Rightarrow> nat \<Rightarrow> 'z pst_scheme \<Rightarrow> bool" where
  "on_cpu p i s \<longleftrightarrow> cproc s = Some p \<and> cthread s = Some (p, i)"

lemma sched_run:
  assumes "on_cpu p i s"
  shows "sched s =
    (if LProc p \<notin> set (held s) then Panic ''sched p->lock''
     else if length (held s) > 2 then Panic ''sched locks''
     else if t_state (thread_tbl (procs s p) i) = t_RUNNING then Panic ''sched running''
     else Asleep s)"
proof -
  have "2 < length (held s) \<longleftrightarrow> length (held s) \<noteq> 1 \<and> length (held s) \<noteq> 2" if "LProc p \<in> set (held s)"
    using length_pos_if_in_set [OF that] by linarith
  then show ?thesis using assms
    by (simp add: sched_def on_cpu_def lock_holding_def noff_def swtch_out_def)
qed

lemma sleep_run:
  assumes "on_cpu p i s" "lk \<in> set (held s)" "LProc p \<notin> set (held s)" "length (held s) \<le> 2"
  shows "sleep ch lk s = Asleep (s\<lparr>held := LProc p # remove1 lk (held s),
    procs := (procs s)(p := upd_thread i (\<lambda>r. r\<lparr>t_chan := ch, t_state := t_SLEEPING\<rparr>) (procs s p))\<rparr>)"
proof -
  have "lk \<noteq> LProc p" using assms(2,3) by auto
  then show ?thesis
    using assms by (auto simp: sleep_def on_cpu_def sched_run [of p i] length_remove1 comp_def)
qed

lemma yield_run:
  assumes "on_cpu p i s" "held s = []"
  shows "yield s = Asleep (s\<lparr>held := [LProc p],
    procs := (procs s)(p := upd_thread i (\<lambda>r. r\<lparr>t_state := t_RUNNABLE\<rparr>) (procs s p))\<rparr>)"
  using assms by (auto simp: yield_def on_cpu_def sched_run [of p i])

lemma sleep_resume_run:
  assumes "on_cpu p i s" "held s = [LProc p]" "lk \<noteq> LProc p"
  shows "sleep_resume lk s = Done () (s\<lparr>held := [lk],
    procs := (procs s)(p := upd_thread i (\<lambda>r. r\<lparr>t_chan := ChNull\<rparr>) (procs s p))\<rparr>)"
  using assms by (auto simp: sleep_resume_def on_cpu_def run_lock_acquire)

text \<open>What \<open>scheduler\<close> does to a runnable thread before \<open>swtch\<close>, with the process lock taken.\<close>

definition dispatch :: "nat \<Rightarrow> nat \<Rightarrow> 'z pst_scheme \<Rightarrow> 'z pst_scheme" where
  "dispatch p i s = s\<lparr>held := [LProc p], cproc := Some p, cthread := Some (p, i),
     procs := (procs s)(p := upd_thread i (\<lambda>r. r\<lparr>t_state := t_RUNNING\<rparr>) (procs s p))\<rparr>"

abbreviation thr :: "'z pst_scheme \<Rightarrow> nat \<Rightarrow> nat \<Rightarrow> thread" where
  "thr s p i \<equiv> thread_tbl (procs s p) i"

text \<open>
  C19. Sleeping and waking: a thread that sleeps gives up its lock for the process lock and stays
  asleep until some CPU calls \<open>wakeup\<close> on its channel; then it is runnable, and when the scheduler
  runs it, \<open>sleep\<close> returns with the lock held again and the channel cleared.
\<close>

theorem sleep_wakeup_roundtrip:
  assumes "on_cpu p i s" "held s = [lk]" "\<forall>q. lk \<noteq> LProc q" "p < NPROC" "i < NTHREAD"
  shows "\<exists>t u v. sleep ch lk s = Asleep t \<and> held t = [LProc p] \<and> thr t p i = (thr s p i)\<lparr>t_chan := ch, t_state := t_SLEEPING\<rparr> \<and>
    wakeup ch (t\<lparr>held := [], cproc := None, cthread := None\<rparr>) = Done () u \<and> t_state (thr u p i) = t_RUNNABLE \<and>
    sleep_resume lk (dispatch p i u) = Done () v \<and> held v = [lk] \<and>
    thr v p i = (thr s p i)\<lparr>t_chan := ChNull, t_state := t_RUNNING\<rparr>"
proof -
  define t where "t = s\<lparr>held := [LProc p],
    procs := (procs s)(p := upd_thread i (\<lambda>r. r\<lparr>t_chan := ch, t_state := t_SLEEPING\<rparr>) (procs s p))\<rparr>"
  define t0 where "t0 = t\<lparr>held := [], cproc := None, cthread := None\<rparr>"
  define u where "u = t0\<lparr>procs := wake_all ch NPROC (procs t0)\<rparr>"
  have "LProc p \<noteq> lk" using assms(3) by metis
  then have "sleep ch lk s = Asleep t" using assms sleep_run [of p i s lk ch] by (simp add: t_def)
  moreover have "held t = [LProc p]" "thr t p i = (thr s p i)\<lparr>t_chan := ch, t_state := t_SLEEPING\<rparr>"
    by (simp_all add: t_def)
  moreover have "wakeup ch t0 = Done () u" using wakeup_eq [of t0 ch] by (simp add: t0_def u_def)
  moreover have ui: "thr u p i = (thr s p i)\<lparr>t_chan := ch, t_state := t_RUNNABLE\<rparr>"
    using assms(4,5) by (simp add: u_def t0_def t_def wake_all_def map_threads_def wake_def)
  moreover define v where "v = (dispatch p i u)\<lparr>held := [lk],
      procs := (procs (dispatch p i u))(p := upd_thread i (\<lambda>r. r\<lparr>t_chan := ChNull\<rparr>) (procs (dispatch p i u) p))\<rparr>"
  have "sleep_resume lk (dispatch p i u) = Done () v"
    unfolding v_def using assms(3) by (intro sleep_resume_run) (auto simp: dispatch_def on_cpu_def)
  moreover have "held v = [lk]" "thr v p i = (thr s p i)\<lparr>t_chan := ChNull, t_state := t_RUNNING\<rparr>"
    using ui by (simp_all add: v_def dispatch_def)
  ultimately show ?thesis
    by (intro exI [of _ t] exI [of _ u] exI [of _ v]) (simp add: t0_def)
qed

theorem sleep_wakeup_roundtrip_witness:
  "\<exists>t u v. sleep ChTicks LTicks (demo_pst\<lparr>held := [LTicks]\<rparr>) = Asleep t \<and>
    wakeup ChTicks (t\<lparr>held := [], cproc := None, cthread := None\<rparr>) = Done () u \<and> t_state (thr u 1 0) = t_RUNNABLE \<and>
    sleep_resume LTicks (dispatch 1 0 u) = Done () v \<and> held v = [LTicks]"
  using sleep_wakeup_roundtrip [of 1 0 "demo_pst\<lparr>held := [LTicks]\<rparr>" LTicks ChTicks]
  by (auto simp: on_cpu_def demo_pst_def)

section \<open>Joining and creating threads\<close>

definition freed :: "thread \<Rightarrow> thread" where
  "freed r = r\<lparr>t_trapframe := 0, t_killed := False, t_chan := ChNull, t_xstate := 0, t_tparent := None,
     t_state := t_UNUSED\<rparr>"

lemma free_thread_run: "free_thread (p, i) s = Done () (s\<lparr>procs := (procs s)(p := upd_thread i freed (procs s p))\<rparr>)"
  by (simp add: free_thread_def sett_def setp_def freed_def [abs_def])

lemma bnd_free_thread [simp]:
  "bnd (free_thread (p, i)) f s = f () (s\<lparr>procs := (procs s)(p := upd_thread i freed (procs s p))\<rparr>)"
  by (simp add: bnd_def free_thread_run)

lemma join_found:
  assumes "on_cpu p j s" "held s = []" "tid \<noteq> t_tid (thr s p j)" "sint tid \<le> sint (nexttid s)" "1 \<le> sint tid"
    and "t_tid (thr s p (join_slot (procs s p) tid)) \<noteq> tid \<or> t_state (thr s p (join_slot (procs s p) tid)) = TZOMBIE"
  shows "kthread_join_proc tid 0 s =
    Done 0 (s\<lparr>procs := (procs s)(p := upd_thread (join_slot (procs s p) tid) freed (procs s p))\<rparr>)"
  using assms unfolding kthread_join_proc_def
  by (auto simp: on_cpu_def join_loop_def not_le [symmetric])

text \<open>
  C21. Joining a thread id that no thread of the process has (any id below \<open>nexttid\<close> that was never
  given in this process) does not fail: the call returns 0 and frees the last slot of the thread
  table, whatever thread is in it.
\<close>

theorem join_unknown_frees_last_slot:
  assumes "on_cpu p j s" "held s = []" "\<forall>i < NTHREAD. t_tid (thr s p i) \<noteq> tid" "j < NTHREAD"
    and "sint tid \<le> sint (nexttid s)" "1 \<le> sint tid"
  shows "kthread_join_proc tid 0 s =
    Done 0 (s\<lparr>procs := (procs s)(p := upd_thread (NTHREAD - 1) freed (procs s p))\<rparr>)"
proof -
  have "List.find (\<lambda>i. t_tid (thr s p i) = tid) [0..<NTHREAD] = None"
    using assms(3) by (auto simp: find_None_iff)
  then have "join_slot (procs s p) tid = NTHREAD - 1" by (simp add: join_slot_def)
  with join_found [OF assms(1,2) _ assms(5,6)] show ?thesis using assms(3,4) by auto
qed

theorem join_unknown_frees_last_slot_witness:
  "\<exists>t. kthread_join_proc 3 0 demo_pst = Done 0 t \<and> thr t 1 7 = freed (thr demo_pst 1 7)"
proof -
  have "\<forall>i < NTHREAD. t_tid (thr demo_pst 1 i) \<noteq> 3" by (simp add: demo_pst_def demo_proc_def thread0_def)
  then show ?thesis
    using join_unknown_frees_last_slot [of 1 0 demo_pst 3] by (simp add: on_cpu_def demo_pst_def)
qed

lemma create_loop_skip:
  assumes "\<forall>k < i. t_state (thr s p k) \<noteq> t_UNUSED" "i < n"
  shows "kthread_create_loop [0..<n] p f stk s = kthread_create_loop [i..<n] p f stk s"
proof -
  have "kthread_create_loop (xs @ ys) p f stk s = kthread_create_loop ys p f stk s"
    if "\<forall>k \<in> set xs. t_state (thr s p k) \<noteq> t_UNUSED" for xs ys
    using that by (induction xs) auto
  from this [of "[0..<i]" "[i..<n]"] show ?thesis
    using assms upt_add_eq_append [of 0 i "n - i"] by simp
qed

text \<open>
  C20. \<open>kthread_create\<close> takes the lowest free slot of the thread table; when that slot has a trap
  frame, the new thread is runnable with a fresh id, returns to \<open>forkret\<close> on top of its own kernel
  stack, and its trap frame starts the given function on the given user stack.
\<close>

theorem kthread_create_starts:
  assumes "on_cpu p j s" "held s = []" "i < NTHREAD" "t_state (thr s p i) = t_UNUSED"
    and "\<forall>k < i. t_state (thr s p k) \<noteq> t_UNUSED" "t_trapframe (thr s p i) \<noteq> 0"
  shows "\<exists>t. kthread_create_proc f stk s = Done (nexttid s) t \<and> held t = [] \<and> nexttid t = nexttid s + 1 \<and>
    thr t p i = (thr s p i)\<lparr>t_state := t_RUNNABLE, t_tid := nexttid s, t_tparent := Some p,
      t_context := zero_context\<lparr>x_ra := k_forkret s, x_sp := t_kstack (thr s p i) + PGSIZE\<rparr>\<rparr> \<and>
    mem t (t_trapframe (thr s p i) + TF_epc) = f \<and>
    mem t (t_trapframe (thr s p i) + TF_sp) = stk + MAX_STACK_SIZE - 16"
proof -
  have "[i..<NTHREAD] = i # [Suc i..<NTHREAD]" using assms(3) by (simp add: upt_conv_Cons)
  then show ?thesis
    using assms unfolding kthread_create_proc_def
    by (simp add: on_cpu_def create_loop_skip [of i] get_tid_def tf_set_def)
qed

theorem kthread_create_starts_witness:
  "\<exists>t. kthread_create_proc 0x100 0x2000 demo_pst = Done 9 t \<and>
     t_state (thr t 1 2) = t_RUNNABLE \<and> mem t (0x80007240 + 24) = 0x100"
proof -
  have "\<forall>k < 2. t_state (thr demo_pst 1 k) \<noteq> t_UNUSED"
    by (auto simp: demo_pst_def demo_proc_def thread0_def less_Suc_eq numeral_2_eq_2)
  then show ?thesis
    using kthread_create_starts [of 1 0 demo_pst 2 "0x100" "0x2000"]
    by (auto simp: on_cpu_def demo_pst_def demo_proc_def thread0_def)
qed

lemma join_slot_first:
  assumes "k < NTHREAD" "t_tid (thread_tbl r k) = tid" "\<forall>i < k. t_tid (thread_tbl r i) \<noteq> tid"
  shows "join_slot r tid = k"
proof -
  have "[0..<NTHREAD] = [0..<k] @ k # [Suc k..<NTHREAD]"
    using assms(1) upt_add_eq_append [of 0 k "NTHREAD - k"] by (simp add: upt_conv_Cons)
  moreover have "List.find (\<lambda>i. t_tid (thread_tbl r i) = tid) (xs @ k # ys) = Some k"
    if "\<forall>i \<in> set xs. t_tid (thread_tbl r i) \<noteq> tid" for xs ys
    using that assms(2) by (induction xs) auto
  ultimately show ?thesis using assms(3) by (simp add: join_slot_def)
qed

text \<open>
  C22. A slot that was joined cannot be used again: \<open>kthread_join\<close> clears the trap-frame pointer
  of the thread it frees, and \<open>kthread_create\<close> writes through that pointer. Joining a finished
  thread and then creating one, when the joined slot is the lowest free one, faults in the kernel.
\<close>

theorem create_after_join_faults:
  assumes "on_cpu p j s" "held s = []" "k < NTHREAD" "t_tid (thr s p k) = tid" "t_state (thr s p k) = TZOMBIE"
    and "\<forall>i < k. t_tid (thr s p i) \<noteq> tid \<and> t_state (thr s p i) \<noteq> t_UNUSED"
    and "tid \<noteq> t_tid (thr s p j)" "sint tid \<le> sint (nexttid s)" "1 \<le> sint tid"
  shows "bnd (kthread_join_proc tid 0) (\<lambda>_. kthread_create_proc f stk) s = Fault"
proof -
  let ?t = "s\<lparr>procs := (procs s)(p := upd_thread k freed (procs s p))\<rparr>"
  have slot: "join_slot (procs s p) tid = k" using assms(3,4,6) by (intro join_slot_first) auto
  have j: "kthread_join_proc tid 0 s = Done 0 ?t"
    using join_found [OF assms(1,2,7,8,9)] assms(5) unfolding slot by simp
  have "[k..<NTHREAD] = k # [Suc k..<NTHREAD]" using assms(3) by (simp add: upt_conv_Cons)
  moreover have "\<forall>i < k. t_state (thr ?t p i) \<noteq> t_UNUSED" using assms(6) by simp
  ultimately have "kthread_create_proc f stk ?t = Fault"
    using assms(1,2,3) unfolding kthread_create_proc_def
    by (simp add: on_cpu_def create_loop_skip [of k] get_tid_def tf_set_def freed_def)
  then show ?thesis by (simp add: bnd_def j)
qed

theorem create_after_join_faults_witness:
  "bnd (kthread_join_proc 6 0) (\<lambda>_. kthread_create_proc 0x100 0x2000) demo_pst = Fault"
  by (rule create_after_join_faults [of 1 0 demo_pst 1])
    (simp_all add: on_cpu_def demo_pst_def demo_proc_def thread0_def)

section \<open>kill\<close>

lemma kill_loop_skip:
  assumes "\<forall>q \<in> set xs. p_pid (procs s q) \<noteq> pid" "held s = []"
  shows "kill_loop (xs @ ys) pid sg s = kill_loop ys pid sg s"
  using assms by (induction xs) auto

lemma kill_first:
  assumes "held s = []" "p < NPROC" "p_pid (procs s p) = pid" "\<forall>q < p. p_pid (procs s q) \<noteq> pid"
  shows "kill pid sg s = (if p_state (procs s p) = USED
    then Done 0 (s\<lparr>procs := (procs s)(p := (procs s p)\<lparr>p_pendingsignals := p_pendingsignals (procs s p) OR sg\<rparr>)\<rparr>)
    else Done (- 1) s)"
proof -
  have "[0..<NPROC] = [0..<p] @ p # [Suc p..<NPROC]"
    using assms(2) upt_add_eq_append [of 0 p "NPROC - p"] by (simp add: upt_conv_Cons)
  then have "kill pid sg s = kill_loop (p # [Suc p..<NPROC]) pid sg s"
    using assms(1,4) kill_loop_skip [of "[0..<p]" s pid] by (simp add: kill_def)
  then show ?thesis using assms(1,3) by (cases "p_state (procs s p)") auto
qed



end
