(* ===== verification/Xv6_Sched.thy ===== *)
theory Xv6_Sched
  imports Xv6_Threads
begin

text \<open>
  The scheduler (\<^verbatim>\<open>kernel/proc.c\<close>): no runnable thread is passed over. What a thread executes between
  two switches is the parameter \<open>run\<close>; the ghost field \<open>dispatched\<close> records which threads it was
  started for.
\<close>

record sched_trace = pst +
  dispatched :: "(nat \<times> nat) list"

definition traced :: "(nat \<times> nat \<Rightarrow> ('z sched_trace_scheme, unit) kmon) \<Rightarrow> nat \<times> nat \<Rightarrow> ('z sched_trace_scheme, unit) kmon" where
  "traced run t = bnd (modify (\<lambda>s. s\<lparr>dispatched := t # dispatched s\<rparr>)) (\<lambda>_. run t)"

text \<open>A thread the scheduler would choose, and the contract of running one.\<close>

definition can_run :: "nat \<times> nat \<Rightarrow> 'z pst_scheme \<Rightarrow> bool" where
  "can_run t s \<longleftrightarrow> p_state (procs s (fst t)) = USED \<and> t_state (thr s (fst t) (snd t)) = t_RUNNABLE"

definition gives_back :: "(nat \<times> nat \<Rightarrow> ('z sched_trace_scheme, unit) kmon) \<Rightarrow> bool" where
  "gives_back run \<longleftrightarrow> (\<forall>p i s. held s = [LProc p] \<longrightarrow> cproc s = Some p \<longrightarrow> cthread s = Some (p, i) \<longrightarrow>
     wp (run (p, i)) (\<lambda>_ t. held t = [LProc p] \<and> cproc t = Some p \<and> dispatched t = dispatched s \<and>
       (\<forall>u. u \<noteq> (p, i) \<longrightarrow> can_run u s \<longrightarrow> can_run u t)) s)"

definition served :: "nat \<times> nat \<Rightarrow> 'z sched_trace_scheme \<Rightarrow> bool" where
  "served u s \<longleftrightarrow> u \<in> set (dispatched s) \<or> can_run u s"

lemma dispatch_served:
  assumes run: "gives_back run" and h: "held s = [LProc p]" "cproc s = Some p" and sv: "served u s"
  shows "wp (bnd (gett (p, i) t_state) (\<lambda>ts.
      if ts = t_RUNNABLE then
        bnd (sett (p, i) (\<lambda>r. r\<lparr>t_state := t_RUNNING\<rparr>)) (\<lambda>_.
        bnd (modify (\<lambda>s. s\<lparr>cthread := Some (p, i)\<rparr>)) (\<lambda>_.
        bnd (traced run (p, i)) (\<lambda>_.
        modify (\<lambda>s. s\<lparr>cthread := None\<rparr>))))
      else ret ()))
    (\<lambda>_ t. held t = [LProc p] \<and> cproc t = Some p \<and> served u t \<and> set (dispatched s) \<subseteq> set (dispatched t) \<and>
      (u = (p, i) \<longrightarrow> u \<in> set (dispatched t))) s"
proof (cases "t_state (thr s p i) = t_RUNNABLE")
  case False
  then show ?thesis using h sv by (auto simp: served_def can_run_def)
next
  case True
  define s1 where "s1 = s\<lparr>procs := (procs s)(p := upd_thread i (\<lambda>r. r\<lparr>t_state := t_RUNNING\<rparr>) (procs s p)),
    cthread := Some (p, i), dispatched := (p, i) # dispatched s\<rparr>"
  have k: "can_run v s1" if "v \<noteq> (p, i)" "can_run v s" for v
    using that by (cases v) (auto simp: s1_def can_run_def upd_thread_def)
  have "held s1 = [LProc p]" "cproc s1 = Some p" "cthread s1 = Some (p, i)" using h by (simp_all add: s1_def)
  then have "wp (run (p, i)) (\<lambda>_ t. held t = [LProc p] \<and> cproc t = Some p \<and> dispatched t = dispatched s1 \<and>
       (\<forall>u. u \<noteq> (p, i) \<longrightarrow> can_run u s1 \<longrightarrow> can_run u t)) s1" using run unfolding gives_back_def by blast
  then have "wp (run (p, i)) (\<lambda>_ t. held t = [LProc p] \<and> cproc t = Some p \<and> served u t \<and> set (dispatched s) \<subseteq> set (dispatched t) \<and>
      (u = (p, i) \<longrightarrow> u \<in> set (dispatched t))) s1"
  proof (rule wp_mono)
    fix r t
    assume t: "held t = [LProc p] \<and> cproc t = Some p \<and> dispatched t = dispatched s1 \<and>
       (\<forall>u. u \<noteq> (p, i) \<longrightarrow> can_run u s1 \<longrightarrow> can_run u t)"
    moreover have "dispatched s1 = (p, i) # dispatched s" by (simp add: s1_def)
    ultimately show "held t = [LProc p] \<and> cproc t = Some p \<and> served u t \<and> set (dispatched s) \<subseteq> set (dispatched t) \<and>
      (u = (p, i) \<longrightarrow> u \<in> set (dispatched t))"
      using sv k [of u] unfolding served_def by (cases "u = (p, i)") (auto simp del: split_paired_All)
  qed
  then show ?thesis using True unfolding traced_def
    by (simp add: s1_def [symmetric] del: split_paired_All) (auto simp: served_def can_run_def elim!: wp_mono)
qed


definition demo_run :: "nat \<times> nat \<Rightarrow> ('z sched_trace_scheme, unit) kmon" where
  "demo_run t = sett t (\<lambda>r. r\<lparr>t_state := t_RUNNABLE\<rparr>)"

definition demo_sched :: sched_trace where
  "demo_sched = pst.extend (demo_pst\<lparr>cproc := None, cthread := None,
     procs := (procs demo_pst)(1 := upd_thread 0 (\<lambda>r. r\<lparr>t_state := t_RUNNABLE\<rparr>) demo_proc)\<rparr>) \<lparr>dispatched = []\<rparr>"

lemma demo_run_ok: "gives_back demo_run"
  by (auto simp: gives_back_def demo_run_def can_run_def)


end
