(* ===== verification/Xv6_Bsem.thy ===== *)
theory Xv6_Bsem
  imports Xv6_Threads
begin

text \<open>
  Binary semaphores (the \<open>Bsems\<close> table of \<^verbatim>\<open>kernel/proc.c\<close>).

  An index outside \<open>Bsems[MAX_BSEM]\<close> is a fault. The body of the endless loop of \<open>bsem_down\<close> is
  \<open>bsem_down\<close> itself; a thread that slept in it runs \<open>bsem_down_resume\<close>.
\<close>

definition MAX_BSEM :: nat where [simp]: "MAX_BSEM = 128"
definition NUM_OF_THREADS :: nat where [simp]: "NUM_OF_THREADS = 20"

record binarySemaphore =
  b_value :: cint
  b_threads :: "(nat \<times> nat) option list"
  b_current :: "(nat \<times> nat) option"
  b_descriptor :: cint

record bst = pst +
  Bsems :: "nat \<Rightarrow> binarySemaphore"

definition getb :: "nat \<Rightarrow> (binarySemaphore \<Rightarrow> 'a) \<Rightarrow> ('z bst_scheme, 'a) kmon" where
  "getb d f = gets (\<lambda>s. f (Bsems s d))"

definition setb :: "nat \<Rightarrow> (binarySemaphore \<Rightarrow> binarySemaphore) \<Rightarrow> ('z bst_scheme, unit) kmon" where
  "setb d f = modify (\<lambda>s. s\<lparr>Bsems := (Bsems s)(d := f (Bsems s d))\<rparr>)"

definition bsem_at :: "cint \<Rightarrow> (nat \<Rightarrow> ('z bst_scheme, 'a) kmon) \<Rightarrow> ('z bst_scheme, 'a) kmon" where
  "bsem_at d f = (if 0 \<le> sint d \<and> sint d < int MAX_BSEM then f (nat (sint d)) else fault)"

section \<open>kernel/proc.c\<close>

definition initsems :: "('z bst_scheme, unit) kmon" where
  "initsems =
     for_each [0..<MAX_BSEM] (\<lambda>i.
       bnd (lock_acquire (LBsem i)) (\<lambda>_.
       bnd (setb i (\<lambda>b. b\<lparr>b_descriptor := - 1, b_value := 1\<rparr>)) (\<lambda>_.
       lock_release (LBsem i))))"

definition remove_current_thread :: "(nat \<times> nat) option list \<Rightarrow> nat \<times> nat \<Rightarrow> (nat \<times> nat) option list" where
  "remove_current_thread threads this_thread =
     (case List.find (\<lambda>i. threads ! i = Some this_thread) [0..<NUM_OF_THREADS] of
        Some i \<Rightarrow> threads[i := None] | None \<Rightarrow> threads)"

definition place_thread_in_line :: "(nat \<times> nat) option list \<Rightarrow> nat \<times> nat \<Rightarrow> (nat \<times> nat) option list option" where
  "place_thread_in_line threads this_thread =
     map_option (\<lambda>i. threads[i := Some this_thread])
       (List.find (\<lambda>i. threads ! i = None) [0..<NUM_OF_THREADS])"

text \<open>The \<open>break\<close> at the end of the loop body leaves the loop after the first semaphore.\<close>

definition bsem_alloc :: "('z bst_scheme, cint) kmon" where
  "bsem_alloc =
     bnd (lock_acquire (LBsem 0)) (\<lambda>_.
     bnd (getb 0 b_value) (\<lambda>v.
     if v = - 1 then
       bnd (setb 0 (\<lambda>b. b\<lparr>b_value := 1, b_descriptor := 0\<rparr>)) (\<lambda>_.
       bnd (lock_release (LBsem 0)) (\<lambda>_. ret 0))
     else bnd (lock_release (LBsem 0)) (\<lambda>_. ret (- 1))))"

definition bsem_free :: "cint \<Rightarrow> ('z bst_scheme, unit) kmon" where
  "bsem_free descriptor = bsem_at descriptor (\<lambda>d.
     bnd (lock_acquire (LBsem d)) (\<lambda>_.
     bnd (getb d (\<lambda>b. b)) (\<lambda>b.
     if b_descriptor b = - 1 \<or> b_value b = 0 then lock_release (LBsem d)
     else
       bnd (setb d (\<lambda>b. b\<lparr>b_descriptor := - 1\<rparr>)) (\<lambda>_.
       lock_release (LBsem d)))))"

definition bsem_down :: "cint \<Rightarrow> ('z bst_scheme, unit) kmon" where
  "bsem_down descriptor = bsem_at descriptor (\<lambda>d.
     bnd (lock_acquire (LBsem d)) (\<lambda>_.
     bnd (getb d (\<lambda>b. b)) (\<lambda>b.
     if b_descriptor b = - 1 then lock_release (LBsem d)
     else if b_value b = 1 then
       bnd mythread (\<lambda>t.
       bnd (setb d (\<lambda>b. b\<lparr>b_current := Some t, b_threads := remove_current_thread (b_threads b) t, b_value := 0\<rparr>)) (\<lambda>_.
       lock_release (LBsem d)))
     else
       bnd mythread (\<lambda>t.
       case place_thread_in_line (b_threads b) t of
         None \<Rightarrow> panic ''No More space for threads in Bsem''
       | Some ts \<Rightarrow>
         bnd (setb d (\<lambda>b. b\<lparr>b_threads := ts\<rparr>)) (\<lambda>_.
         sleep (ChBsem d) (LBsem d))))))"

definition bsem_down_resume :: "cint \<Rightarrow> ('z bst_scheme, unit) kmon" where
  "bsem_down_resume descriptor = bsem_at descriptor (\<lambda>d.
     bnd (sleep_resume (LBsem d)) (\<lambda>_.
     bsem_down descriptor))"

definition bsem_up :: "cint \<Rightarrow> ('z bst_scheme, unit) kmon" where
  "bsem_up descriptor = bsem_at descriptor (\<lambda>d.
     bnd (lock_acquire (LBsem d)) (\<lambda>_.
     bnd (getb d b_descriptor) (\<lambda>desc.
     if desc = - 1 then lock_release (LBsem d)
     else
       bnd (setb d (\<lambda>b. b\<lparr>b_current := None, b_value := 1\<rparr>)) (\<lambda>_.
       bnd (wakeup (ChBsem d)) (\<lambda>_.
       lock_release (LBsem d))))))"

lemma bnd_getb [simp]: "bnd (getb d f) k s = k (f (Bsems s d)) s"
  by (simp add: getb_def)

lemma bnd_setb [simp]: "bnd (setb d f) k s = k () (s\<lparr>Bsems := (Bsems s)(d := f (Bsems s d))\<rparr>)"
  by (simp add: setb_def)

lemma bsem_at_in [simp]: "0 \<le> sint d \<Longrightarrow> sint d < 128 \<Longrightarrow> bsem_at d f = f (nat (sint d))"
  by (simp add: bsem_at_def)

section \<open>No semaphore can ever be allocated\<close>

text \<open>
  The calls a user program can make, after \<open>initsems\<close>, in any order and by any thread; a call that
  does not return leaves the state as its last step left it.
\<close>

inductive bsem_reach :: "'z bst_scheme \<Rightarrow> 'z bst_scheme \<Rightarrow> bool" for s0 :: "'z bst_scheme" where
  br_start: "initsems s0 = Done () s \<Longrightarrow> bsem_reach s0 s"
| br_alloc: "bsem_reach s0 s \<Longrightarrow> bsem_alloc s = Done r t \<Longrightarrow> bsem_reach s0 t"
| br_free: "bsem_reach s0 s \<Longrightarrow> bsem_free d s = Done u t \<Longrightarrow> bsem_reach s0 t"
| br_down: "bsem_reach s0 s \<Longrightarrow> bsem_down d s = Done u t \<Longrightarrow> bsem_reach s0 t"
| br_sleep: "bsem_reach s0 s \<Longrightarrow> bsem_down d s = Asleep t \<Longrightarrow> bsem_reach s0 (t\<lparr>held := []\<rparr>)"
| br_up: "bsem_reach s0 s \<Longrightarrow> bsem_up d s = Done u t \<Longrightarrow> bsem_reach s0 t"
| br_switch: "bsem_reach s0 s \<Longrightarrow> bsem_reach s0 (s\<lparr>cproc := p, cthread := t\<rparr>)"

definition all_unused :: "'z bst_scheme \<Rightarrow> bool" where
  "all_unused s \<longleftrightarrow> held s = [] \<and> (\<forall>i < MAX_BSEM. b_descriptor (Bsems s i) = - 1 \<and> b_value (Bsems s i) = 1)"

lemma initsems_unused:
  assumes "initsems s = Done u t" "held s = []"
  shows "all_unused t"
proof -
  let ?G = "\<lambda>n. s\<lparr>Bsems := (\<lambda>i. if i < n then (Bsems s i)\<lparr>b_descriptor := - 1, b_value := 1\<rparr> else Bsems s i)\<rparr>"
  let ?f = "\<lambda>i. bnd (lock_acquire (LBsem i)) (\<lambda>_. bnd (setb i (\<lambda>b. b\<lparr>b_descriptor := - 1, b_value := 1\<rparr>)) (\<lambda>_.
       lock_release (LBsem i)))"
  have "?f i (?G i) = Done () (?G (Suc i))" for i
  proof -
    have "(\<lambda>j. if j < Suc i then (Bsems s j)\<lparr>b_descriptor := - 1, b_value := 1\<rparr> else Bsems s j) =
      (\<lambda>j. if j < i then (Bsems s j)\<lparr>b_descriptor := - 1, b_value := 1\<rparr> else Bsems s j)
        (i := (Bsems s i)\<lparr>b_descriptor := - 1, b_value := 1\<rparr>)"
      by (auto simp: fun_eq_iff)
    then show ?thesis using assms(2) by (simp add: run_lock_release)
  qed
  from for_each_upt [of MAX_BSEM ?f ?G, OF this] have "t = ?G MAX_BSEM"
    using assms(1) by (simp add: initsems_def)
  then show ?thesis using assms(2) by (simp add: all_unused_def)
qed

lemma unused_calls:
  assumes "all_unused s"
  shows "bsem_alloc s = Done (- 1) s"
    "bsem_free d s = (if 0 \<le> sint d \<and> sint d < 128 then Done () s else Fault)"
    "bsem_down d s = (if 0 \<le> sint d \<and> sint d < 128 then Done () s else Fault)"
    "bsem_up d s = (if 0 \<le> sint d \<and> sint d < 128 then Done () s else Fault)"
proof -
  have h: "held s = []" and b0: "b_value (Bsems s 0) = 1" using assms by (simp_all add: all_unused_def)
  show "bsem_alloc s = Done (- 1) s" using h b0 by (simp add: bsem_alloc_def)
  have d: "b_descriptor (Bsems s (nat (sint d))) = - 1" if "0 \<le> sint d" "sint d < 128"
    using that assms by (simp add: all_unused_def nat_less_iff)
  show "bsem_free d s = (if 0 \<le> sint d \<and> sint d < 128 then Done () s else Fault)"
    using h d by (simp add: bsem_free_def bsem_at_def run_lock_release)
  show "bsem_down d s = (if 0 \<le> sint d \<and> sint d < 128 then Done () s else Fault)"
    using h d by (simp add: bsem_down_def bsem_at_def run_lock_release)
  show "bsem_up d s = (if 0 \<le> sint d \<and> sint d < 128 then Done () s else Fault)"
    using h d by (simp add: bsem_up_def bsem_at_def run_lock_release)
qed

lemma bsem_reach_unused: "bsem_reach s0 s \<Longrightarrow> held s0 = [] \<Longrightarrow> all_unused s"
proof (induction rule: bsem_reach.induct)
  case (br_start s)
  then show ?case by (rule initsems_unused)
next
  case (br_switch s p t)
  then show ?case by (simp add: all_unused_def)
next
  case (br_sleep s d t)
  then show ?case using unused_calls(3) [of s d] by (simp split: if_splits)
next
  case (br_alloc s r t)
  then show ?case using unused_calls(1) [of s] by simp
next
  case (br_free s d u t)
  then show ?case using unused_calls(2) [of s d] by (simp split: if_splits)
next
  case (br_down s d u t)
  then show ?case using unused_calls(3) [of s d] by (simp split: if_splits)
next
  case (br_up s d u t)
  then show ?case using unused_calls(4) [of s d] by (simp split: if_splits)
qed

text \<open>
  C24. After \<open>initsems\<close>, whatever semaphore calls threads make and in whatever order, \<open>bsem_alloc\<close>
  fails, and \<open>bsem_down\<close> on every descriptor returns at once and changes nothing: no semaphore can
  be allocated and none excludes anybody. The initial value is 1, \<open>bsem_alloc\<close> looks for \<open>-1\<close>.
\<close>

theorem bsem_never_allocates:
  assumes "bsem_reach s0 s" "held s0 = []"
  shows "bsem_alloc s = Done (- 1) s \<and> (\<forall>d. 0 \<le> sint d \<and> sint d < int MAX_BSEM \<longrightarrow> bsem_down d s = Done () s)"
  using unused_calls [OF bsem_reach_unused [OF assms]] by simp

definition bsem0 :: binarySemaphore where
  "bsem0 = \<lparr>b_value = 0, b_threads = replicate 20 None, b_current = None, b_descriptor = 0\<rparr>"

definition demo_bst :: bst where
  "demo_bst = pst.extend demo_pst \<lparr>Bsems = (\<lambda>_. bsem0)\<rparr>"

theorem bsem_never_allocates_witness:
  "\<exists>s. bsem_reach demo_bst s \<and> bsem_alloc s = Done (- 1) s \<and> bsem_down 3 s = Done () s"
proof -
  have h: "held demo_bst = []" by (simp add: demo_bst_def demo_pst_def pst.defs)
  let ?f = "\<lambda>i. bnd (lock_acquire (LBsem i)) (\<lambda>_. bnd (setb i (\<lambda>b. b\<lparr>b_descriptor := - 1, b_value := 1\<rparr>)) (\<lambda>_.
       lock_release (LBsem i)))"
  have "wp initsems (\<lambda>_ t. held t = []) demo_bst" unfolding initsems_def
    by (rule wp_for_each) (simp_all add: h setb_def)
  then obtain s where "initsems demo_bst = Done () s" unfolding wp_obtain by auto
  then have r: "bsem_reach demo_bst s" by (rule bsem_reach.br_start)
  show ?thesis using r bsem_never_allocates [OF r h] by auto
qed



end
