(* ===== verification/Xv6_Sleeplock.thy ===== *)
theory Xv6_Sleeplock
  imports Xv6_Bsem
begin

text \<open>
  Sleep locks (\<^verbatim>\<open>kernel/sleeplock.c\<close>). The body of the loop of \<open>acquiresleep\<close> sleeps when the lock is
  taken; the woken thread runs \<open>acquiresleep_resume\<close>.
\<close>

record sleeplock =
  sl_locked :: bool
  sl_pid :: cint

record slst = bst +
  slk :: "slid \<Rightarrow> sleeplock"

definition setsl :: "slid \<Rightarrow> sleeplock \<Rightarrow> ('z slst_scheme, unit) kmon" where
  "setsl l v = modify (\<lambda>s. s\<lparr>slk := (slk s)(l := v)\<rparr>)"

definition initsleeplock :: "slid \<Rightarrow> ('z slst_scheme, unit) kmon" where
  "initsleeplock l = setsl l \<lparr>sl_locked = False, sl_pid = 0\<rparr>"

definition acquiresleep_loop :: "slid \<Rightarrow> ('z slst_scheme, unit) kmon" where
  "acquiresleep_loop l =
     bnd (gets (\<lambda>s. sl_locked (slk s l))) (\<lambda>locked.
     if locked then sleep (ChSleep l) (LSleep l)
     else
       bnd myproc (\<lambda>p.
       bnd (getp p p_pid) (\<lambda>pid.
       bnd (setsl l \<lparr>sl_locked = True, sl_pid = pid\<rparr>) (\<lambda>_.
       lock_release (LSleep l)))))"

definition acquiresleep :: "slid \<Rightarrow> ('z slst_scheme, unit) kmon" where
  "acquiresleep l = bnd (lock_acquire (LSleep l)) (\<lambda>_. acquiresleep_loop l)"

definition acquiresleep_resume :: "slid \<Rightarrow> ('z slst_scheme, unit) kmon" where
  "acquiresleep_resume l = bnd (sleep_resume (LSleep l)) (\<lambda>_. acquiresleep_loop l)"

definition releasesleep :: "slid \<Rightarrow> ('z slst_scheme, unit) kmon" where
  "releasesleep l =
     bnd (lock_acquire (LSleep l)) (\<lambda>_.
     bnd (setsl l \<lparr>sl_locked = False, sl_pid = 0\<rparr>) (\<lambda>_.
     bnd (wakeup (ChSleep l)) (\<lambda>_.
     lock_release (LSleep l))))"

definition holdingsleep :: "slid \<Rightarrow> ('z slst_scheme, bool) kmon" where
  "holdingsleep l =
     bnd (lock_acquire (LSleep l)) (\<lambda>_.
     bnd (gets (\<lambda>s. slk s l)) (\<lambda>r.
     bnd (if sl_locked r then bnd myproc (\<lambda>p. getp p (\<lambda>q. sl_pid r = p_pid q)) else ret False) (\<lambda>h.
     bnd (lock_release (LSleep l)) (\<lambda>_.
     ret h))))"

section \<open>Behaviour\<close>

lemma wp_setsl [kwp, simp]: "wp (setsl l v) Q s = Q () (s\<lparr>slk := (slk s)(l := v)\<rparr>)"
  by (simp add: setsl_def)

lemma bnd_setsl [simp]: "bnd (setsl l v) k s = k () (s\<lparr>slk := (slk s)(l := v)\<rparr>)"
  by (simp add: setsl_def)

text \<open>No process lock is held: what \<open>wakeup\<close> needs.\<close>

definition no_proc_lock :: "'z mach_scheme \<Rightarrow> bool" where
  "no_proc_lock s \<longleftrightarrow> (\<forall>p < NPROC. LProc p \<notin> set (held s))"

lemma wp_wakeup [kwp]:
  "no_proc_lock s \<Longrightarrow> wp (wakeup ch) Q s = Q () (s\<lparr>procs := wake_all ch NPROC (procs s)\<rparr>)"
  using wakeup_eq [of s ch] by (simp add: wp_Done no_proc_lock_def)

lemma bnd_wakeup [simp]:
  "no_proc_lock s \<Longrightarrow> bnd (wakeup ch) k s = k () (s\<lparr>procs := wake_all ch NPROC (procs s)\<rparr>)"
  using wakeup_eq [of s ch] by (simp add: bnd_def no_proc_lock_def)

lemma no_proc_lock_upd [simp]:
  "no_proc_lock (s\<lparr>held := l # held s\<rparr>) \<longleftrightarrow> (\<forall>p < NPROC. l \<noteq> LProc p) \<and> no_proc_lock s"
  by (auto simp: no_proc_lock_def)

lemma wake_all_sel [simp]:
  "p_pid (wake_all ch n ps p) = p_pid (ps p)" "p_killed (wake_all ch n ps p) = p_killed (ps p)"
  "p_pagetable (wake_all ch n ps p) = p_pagetable (ps p)" "p_ofile (wake_all ch n ps p) = p_ofile (ps p)"
  "p_cwd (wake_all ch n ps p) = p_cwd (ps p)" "p_state (wake_all ch n ps p) = p_state (ps p)"
  "p_parent (wake_all ch n ps p) = p_parent (ps p)" "p_sz (wake_all ch n ps p) = p_sz (ps p)"
  by (simp_all add: wake_all_def map_threads_def)

lemma acquiresleep_free:
  assumes "\<not> sl_locked (slk s l)" "LSleep l \<notin> set (held s)" "cproc s = Some p"
  shows "acquiresleep l s = Done () (s\<lparr>slk := (slk s)(l := \<lparr>sl_locked = True, sl_pid = p_pid (procs s p)\<rparr>)\<rparr>)"
  using assms by (simp add: acquiresleep_def acquiresleep_loop_def run_lock_release)

lemma acquiresleep_taken:
  assumes "sl_locked (slk s l)" "held s = []" "on_cpu p i s"
  shows "acquiresleep l s = Asleep (s\<lparr>held := [LProc p],
    procs := (procs s)(p := upd_thread i (\<lambda>r. r\<lparr>t_chan := ChSleep l, t_state := t_SLEEPING\<rparr>) (procs s p))\<rparr>)"
  using assms sleep_run [of p i "s\<lparr>held := [LSleep l]\<rparr>" "LSleep l" "ChSleep l"]
  by (simp add: acquiresleep_def acquiresleep_loop_def on_cpu_def)

lemma releasesleep_run:
  assumes "no_proc_lock s" "LSleep l \<notin> set (held s)"
  shows "releasesleep l s = Done () (s\<lparr>slk := (slk s)(l := \<lparr>sl_locked = False, sl_pid = 0\<rparr>),
    procs := wake_all (ChSleep l) NPROC (procs s)\<rparr>)"
  unfolding wp_eq_Done [symmetric] using assms
  by (simp add: releasesleep_def wp_wakeup no_proc_lock_def)

lemma holdingsleep_run:
  assumes "LSleep l \<notin> set (held s)" "cproc s = Some p"
  shows "holdingsleep l s = Done (sl_locked (slk s l) \<and> sl_pid (slk s l) = p_pid (procs s p)) s"
  unfolding wp_eq_Done [symmetric] using assms by (simp add: holdingsleep_def)

text \<open>
  Threads that take and give back one sleep lock: \<open>owner\<close> is the thread whose \<open>acquiresleep\<close> has
  returned and that has not called \<open>releasesleep\<close> yet. Each call is one step, since its spin lock
  makes it atomic to the other threads.
\<close>

inductive sl_reach :: "slid \<Rightarrow> 'z slst_scheme \<Rightarrow> (nat \<times> nat) list \<Rightarrow> bool" for l :: slid where
  sl_init: "initsleeplock l s = Done () t \<Longrightarrow> sl_reach l t []"
| sl_acq: "sl_reach l s us \<Longrightarrow> on_cpu p i s \<Longrightarrow> held s = [] \<Longrightarrow> acquiresleep l s = Done () t \<Longrightarrow>
    sl_reach l t ((p, i) # us)"
| sl_wait: "sl_reach l s us \<Longrightarrow> on_cpu p i s \<Longrightarrow> held s = [] \<Longrightarrow> acquiresleep l s = Asleep t \<Longrightarrow>
    sl_reach l (t\<lparr>held := []\<rparr>) us"
| sl_wake: "sl_reach l s us \<Longrightarrow> on_cpu p i s \<Longrightarrow> held s = [LProc p] \<Longrightarrow> acquiresleep_resume l s = Done () t \<Longrightarrow>
    sl_reach l t ((p, i) # us)"
| sl_again: "sl_reach l s us \<Longrightarrow> on_cpu p i s \<Longrightarrow> held s = [LProc p] \<Longrightarrow> acquiresleep_resume l s = Asleep t \<Longrightarrow>
    sl_reach l (t\<lparr>held := []\<rparr>) us"
| sl_rel: "sl_reach l s us \<Longrightarrow> on_cpu p i s \<Longrightarrow> held s = [] \<Longrightarrow> (p, i) \<in> set us \<Longrightarrow> releasesleep l s = Done () t \<Longrightarrow>
    sl_reach l t (remove1 (p, i) us)"
| sl_other: "sl_reach l s us \<Longrightarrow> slk t l = slk s l \<Longrightarrow> sl_reach l t us"

lemma acquiresleep_loop_cases:
  assumes "on_cpu p i s" "held s = [LSleep l]"
  shows "acquiresleep_loop l s =
    (if sl_locked (slk s l) then Asleep (s\<lparr>held := [LProc p],
       procs := (procs s)(p := upd_thread i (\<lambda>r. r\<lparr>t_chan := ChSleep l, t_state := t_SLEEPING\<rparr>) (procs s p))\<rparr>)
     else Done () (s\<lparr>held := [], slk := (slk s)(l := \<lparr>sl_locked = True, sl_pid = p_pid (procs s p)\<rparr>)\<rparr>))"
  using assms sleep_run [of p i s "LSleep l" "ChSleep l"]
  by (auto simp: acquiresleep_loop_def on_cpu_def run_lock_release)

lemma acquiresleep_cases:
  assumes "on_cpu p i s" "held s = []"
  shows "acquiresleep l s = acquiresleep_loop l (s\<lparr>held := [LSleep l]\<rparr>)" "on_cpu p i (s\<lparr>held := [LSleep l]\<rparr>)"
  using assms by (simp_all add: acquiresleep_def on_cpu_def)

lemma acquiresleep_resume_cases:
  assumes "on_cpu p i s" "held s = [LProc p]"
  obtains s' where "acquiresleep_resume l s = acquiresleep_loop l s'" "on_cpu p i s'" "held s' = [LSleep l]"
    "slk s' = slk s"
proof -
  let ?s = "s\<lparr>held := [LSleep l],
    procs := (procs s)(p := upd_thread i (\<lambda>r. r\<lparr>t_chan := ChNull\<rparr>) (procs s p))\<rparr>"
  have "acquiresleep_resume l s = acquiresleep_loop l ?s"
    using sleep_resume_run [OF assms, of "LSleep l"] by (simp add: acquiresleep_resume_def bnd_def)
  then show ?thesis using assms(1) by (intro that [of ?s]) (simp_all add: on_cpu_def)
qed

lemma sl_reach_owner: "sl_reach l s us \<Longrightarrow> (if sl_locked (slk s l) then length us = 1 else us = [])"
proof (induction rule: sl_reach.induct)
  case (sl_init s t)
  then show ?case by (simp add: initsleeplock_def setsl_def) auto
next
  case (sl_acq s us p i t)
  then show ?case using acquiresleep_cases [OF sl_acq.hyps(2,3), of l]
    by (auto simp: acquiresleep_loop_cases [of p i] split: if_splits)
next
  case (sl_wait s us p i t)
  then show ?case using acquiresleep_cases [OF sl_wait.hyps(2,3), of l]
    by (auto simp: acquiresleep_loop_cases [of p i] split: if_splits)
next
  case (sl_wake s us p i t)
  then obtain s' where "acquiresleep_resume l s = acquiresleep_loop l s'" "on_cpu p i s'" "held s' = [LSleep l]"
    "slk s' = slk s" using acquiresleep_resume_cases by metis
  then show ?case using sl_wake by (auto simp: acquiresleep_loop_cases [of p i] split: if_splits)
next
  case (sl_again s us p i t)
  then obtain s' where "acquiresleep_resume l s = acquiresleep_loop l s'" "on_cpu p i s'" "held s' = [LSleep l]"
    "slk s' = slk s" using acquiresleep_resume_cases by metis
  then show ?case using sl_again by (auto simp: acquiresleep_loop_cases [of p i] split: if_splits)
next
  case (sl_rel s us p i t)
  then have "t = s\<lparr>slk := (slk s)(l := \<lparr>sl_locked = False, sl_pid = 0\<rparr>),
      procs := wake_all (ChSleep l) NPROC (procs s)\<rparr>"
    using releasesleep_run [of s l] by (simp add: no_proc_lock_def)
  moreover have "remove1 (p, i) us = []" using sl_rel by (cases us) (auto split: if_splits)
  ultimately show ?case by simp
next
  case (sl_other s us t)
  then show ?case by simp
qed

text \<open>
  C18. A sleep lock has at most one owner: however threads take it, sleep on it, wake and release it,
  no thread returns from \<open>acquiresleep\<close> while another is between its \<open>acquiresleep\<close> and its
  \<open>releasesleep\<close>, and the lock word is set exactly while there is an owner.
\<close>

theorem sleeplock_exclusive:
  assumes "sl_reach l s us"
  shows "length us \<le> 1 \<and> (sl_locked (slk s l) \<longleftrightarrow> us \<noteq> [])"
  using sl_reach_owner [OF assms] by (auto split: if_splits)

definition demo_slst :: slst where
  "demo_slst = bst.extend demo_bst \<lparr>slk = (\<lambda>_. \<lparr>sl_locked = False, sl_pid = 0\<rparr>)\<rparr>"

theorem sleeplock_exclusive_witness:
  "\<exists>s :: slst. sl_reach (SBuf 0) s [(1, 0)] \<and> sl_locked (slk s (SBuf 0))"
proof -
  have h: "held demo_slst = []" "on_cpu 1 0 demo_slst"
    by (simp_all add: demo_slst_def demo_bst_def demo_pst_def bst.defs pst.defs on_cpu_def)
  have f: "\<not> sl_locked (slk demo_slst (SBuf 0))" by (simp add: demo_slst_def bst.defs)
  have "initsleeplock (SBuf 0) demo_slst = Done () demo_slst"
    by (simp add: initsleeplock_def setsl_def demo_slst_def bst.defs fun_upd_idem)
  then have "sl_reach (SBuf 0) demo_slst []" by (rule sl_reach.sl_init)
  moreover obtain t where "acquiresleep (SBuf 0) demo_slst = Done () t"
    using acquiresleep_free [of demo_slst "SBuf 0" 1] h f by (simp add: on_cpu_def)
  ultimately have "sl_reach (SBuf 0) t [(1, 0)]" using sl_reach.sl_acq h by blast
  with sleeplock_exclusive [OF this] show ?thesis by auto
qed

end
