(* ===== verification/Xv6_Ring.thy ===== *)
theory Xv6_Ring
  imports Xv6_Prelude
begin

text \<open>
  Ring buffers with free-running counters: the pipe and the console input (32-bit counters) and the
  UART output (64-bit counters) index an array of \<open>N\<close> bytes by a counter modulo \<open>N\<close>, and let the
  counters wrap around at the size of the word. The interface is a bounded queue.
\<close>

section \<open>The bounded queue interface\<close>

locale bounded_queue =
  fixes items :: "'q \<Rightarrow> 'a list"
    and cap :: nat
    and ok :: "'q \<Rightarrow> bool"
    and put :: "'a \<Rightarrow> 'q \<Rightarrow> 'q"
    and top :: "'q \<Rightarrow> 'a"
    and pop :: "'q \<Rightarrow> 'q"
    and is_full :: "'q \<Rightarrow> bool"
    and is_empty :: "'q \<Rightarrow> bool"
  assumes full_iff: "ok q \<Longrightarrow> is_full q \<longleftrightarrow> length (items q) = cap"
    and empty_iff: "ok q \<Longrightarrow> is_empty q \<longleftrightarrow> items q = []"
    and bounded: "ok q \<Longrightarrow> length (items q) \<le> cap"
    and put_items: "ok q \<Longrightarrow> \<not> is_full q \<Longrightarrow> ok (put x q) \<and> items (put x q) = items q @ [x]"
    and pop_items: "ok q \<Longrightarrow> \<not> is_empty q \<Longrightarrow> ok (pop q) \<and> items q = top q # items (pop q)"
begin

lemma put_many:
  "ok q \<Longrightarrow> length (items q) + length xs \<le> cap \<Longrightarrow> ok (fold put xs q) \<and> items (fold put xs q) = items q @ xs"
proof (induction xs arbitrary: q)
  case Nil
  then show ?case by simp
next
  case (Cons x xs)
  have "\<not> is_full q" using Cons.prems full_iff by simp
  note p = put_items [OF Cons.prems(1) this, of x]
  then show ?case using Cons.IH [of "put x q"] Cons.prems by simp
qed

lemma pop_many:
  "ok q \<Longrightarrow> n \<le> length (items q) \<Longrightarrow> ok ((pop ^^ n) q) \<and> items ((pop ^^ n) q) = drop n (items q)"
proof (induction n)
  case 0
  then show ?case by simp
next
  case (Suc n)
  then have q: "ok ((pop ^^ n) q)" "items ((pop ^^ n) q) = drop n (items q)" by auto
  then have "\<not> is_empty ((pop ^^ n) q)" using Suc.prems(2) empty_iff by simp
  note p = pop_items [OF q(1) this]
  then have "items (pop ((pop ^^ n) q)) = tl (drop n (items q))" using q(2) by simp
  then show ?case using p by (simp add: drop_Suc tl_drop)
qed

lemma top_nth: "ok q \<Longrightarrow> n < length (items q) \<Longrightarrow> top ((pop ^^ n) q) = items q ! n"
proof -
  assume a: "ok q" "n < length (items q)"
  then have q: "ok ((pop ^^ n) q)" "items ((pop ^^ n) q) = drop n (items q)" using pop_many [of q n] by auto
  then have "\<not> is_empty ((pop ^^ n) q)" using a(2) empty_iff by simp
  from pop_items [OF q(1) this] q(2) a(2) show ?thesis by (metis Cons_nth_drop_Suc list.inject)
qed

end

section \<open>Rings\<close>

definition ring_items :: "nat \<Rightarrow> (nat \<Rightarrow> 'a) \<Rightarrow> 'w :: len word \<Rightarrow> 'w word \<Rightarrow> 'a list" where
  "ring_items N data r w = map (\<lambda>k. data (unat (r + of_nat k) mod N)) [0..<unat (w - r)]"

lemma length_ring_items [simp]: "length (ring_items N data r w) = unat (w - r)"
  by (simp add: ring_items_def)

lemma ring_empty_iff: "ring_items N data r w = [] \<longleftrightarrow> r = w"
proof -
  have "ring_items N data r w = [] \<longleftrightarrow> unat (w - r) = 0" by (simp add: ring_items_def)
  also have "\<dots> \<longleftrightarrow> w - r = 0" by (rule unat_eq_0)
  finally show ?thesis by auto
qed

lemma counter_diff_Suc:
  fixes r w :: "'w :: len word"
  assumes "unat (w - r) < 2 ^ LENGTH('w) - 1"
  shows "unat (w + 1 - r) = Suc (unat (w - r))"
proof -
  have eq: "w + 1 - r = (w - r) + 1" by simp
  have "unat ((w - r) + 1) = unat (w - r) + 1"
    using assms unat_plus_of_nat [of "w - r" 1] by simp
  then show ?thesis unfolding eq by simp
qed

lemma ring_index:
  fixes r :: "'w :: len word"
  assumes "N dvd 2 ^ LENGTH('w)" "j < 2 ^ LENGTH('w)"
  shows "unat (r + of_nat j) mod N = (unat r + j) mod N"
proof -
  have "unat (r + of_nat j) = (unat r + j) mod 2 ^ LENGTH('w)"
    by (simp only: unat_word_ariths unat_of_nat take_bit_eq_mod mod_add_right_eq)
  then show ?thesis using assms(1) by (simp only: mod_mod_cancel)
qed

lemma ring_slot_ne:
  fixes r w :: "'w :: len word"
  assumes "N dvd 2 ^ LENGTH('w)" "k < unat (w - r)" "unat (w - r) < N"
  shows "unat (r + of_nat k) mod N \<noteq> unat w mod N"
proof
  define d where "d = unat (w - r)"
  have w: "w = r + of_nat d" by (simp add: d_def)
  have d: "d < 2 ^ LENGTH('w)" unfolding d_def using unsigned_less [of "w - r"] by simp
  assume "unat (r + of_nat k) mod N = unat w mod N"
  then have "(unat r + d) mod N = (unat r + k) mod N"
    using ring_index [OF assms(1), of k r] ring_index [OF assms(1) d, of r] assms(2) d w
    unfolding d_def [symmetric] by simp
  then have "N dvd d - k" using mod_eq_dvd_iff_nat [of "unat r + k" "unat r + d" N] assms(2)
    unfolding d_def [symmetric] by simp
  then show False using assms(2,3) unfolding d_def [symmetric] by (auto dest: dvd_imp_le)
qed

lemma ring_put:
  fixes r w :: "'w :: len word"
  assumes "N dvd 2 ^ LENGTH('w)" "unat (w - r) < N" "N < 2 ^ LENGTH('w)"
  shows "ring_items N (data(unat w mod N := x)) r (w + 1) = ring_items N data r w @ [x]"
proof -
  have "unat (w - r) < 2 ^ LENGTH('w) - 1" using assms(2,3) by linarith
  then have len: "unat (w + 1 - r) = Suc (unat (w - r))" by (rule counter_diff_Suc)
  have w: "r + of_nat (unat (w - r)) = w" by simp
  show ?thesis using ring_slot_ne [OF assms(1) _ assms(2)] w
    by (simp add: ring_items_def len)
qed

lemma ring_pop:
  assumes "r \<noteq> w"
  shows "ring_items N data r w = data (unat r mod N) # ring_items N data (r + 1) w"
proof -
  have "w - r \<noteq> 0" using assms by simp
  then have "unat (w - r) = Suc (unat (w - r - 1))" by (simp add: unat_minus_one unat_gt_0)
  then have len: "unat (w - r) = Suc (unat (w - (r + 1)))" by (simp add: diff_diff_eq)
  have "[0..<unat (w - r)] = 0 # map Suc [0..<unat (w - (r + 1))]"
    by (simp only: len upt_conv_Cons [of 0] map_Suc_upt zero_less_Suc)
  then show ?thesis by (simp add: ring_items_def comp_def algebra_simps)
qed

end
