(* ===== verification/Xv6_Copy.thy ===== *)
theory Xv6_Copy
  imports Xv6_PageTable
begin

text \<open>What \<open>copyin\<close> and \<open>copyout\<close> do with single bytes of user memory.\<close>

text \<open>The physical address of a user byte; \<open>None\<close> when its page is not mapped for the user.\<close>

definition upa :: "pmem \<Rightarrow> uint64 \<Rightarrow> uint64 \<Rightarrow> uint64 option" where
  "upa m pt va =
     (let va0 = PGROUNDDOWN va in
      if va0 < MAXVA \<and> user_pa m pt va0 \<noteq> 0 then Some (user_pa m pt va0 + (va - va0)) else None)"

lemma chunk_1 [simp]: "chunk va 1 = 1"
proof -
  have "unat (chunk va 1) = 1" unfolding unat_chunk using mod_less_divisor [of 4096 "unat va"] by simp
  then show ?thesis by (simp add: word_eq_unat)
qed

lemma memmove_1: "memmove m dst src 1 = store8 m dst (load8 m src)"
  by (simp add: memmove_def)

lemma walkaddr_run [simp]:
  "bnd (walkaddr pt va) f s = f (if va < MAXVA then user_pa (mem s) pt va else 0) s"
  by (simp add: bnd_def walkaddr_eq)

lemma copyin_0 [simp]: "copyin pt dst va 0 s = Done 0 s"
  by (simp add: copyin.simps)

lemma copyout_0 [simp]: "copyout pt dst va 0 s = Done 0 s"
  by (simp add: copyout.simps)

lemma copyin_byte:
  "copyin pt dst va 1 s = (case upa (mem s) pt va of
      None \<Rightarrow> Done (- 1) s
    | Some a \<Rightarrow> Done 0 (s\<lparr>mem := store8 (mem s) dst (load8 (mem s) a)\<rparr>))"
  by (subst copyin.simps) (simp add: Let_def upa_def memmove_1 [simplified])

lemma copyout_byte:
  "copyout pt va src 1 s = (case upa (mem s) pt va of
      None \<Rightarrow> Done (- 1) s
    | Some a \<Rightarrow> Done 0 (s\<lparr>mem := store8 (mem s) a (load8 (mem s) src)\<rparr>))"
  by (subst copyout.simps) (simp add: Let_def upa_def memmove_1 [simplified])

lemma wp_copyin_byte:
  "wp (copyin pt dst va 1) Q s = (case upa (mem s) pt va of
      None \<Rightarrow> Q (- 1) s
    | Some a \<Rightarrow> Q 0 (s\<lparr>mem := store8 (mem s) dst (load8 (mem s) a)\<rparr>))"
  by (simp add: wp_def copyin_byte [simplified] split: option.split)

lemma wp_copyout_byte:
  "wp (copyout pt va src 1) Q s = (case upa (mem s) pt va of
      None \<Rightarrow> Q (- 1) s
    | Some a \<Rightarrow> Q 0 (s\<lparr>mem := store8 (mem s) a (load8 (mem s) src)\<rparr>))"
  by (simp add: wp_def copyout_byte [simplified] split: option.split)

text \<open>
  A user buffer with the bytes \<open>bs\<close> that the kernel can read while it overwrites its own local
  variable at \<open>loc\<close>.
\<close>

definition ureadable :: "pmem \<Rightarrow> uint64 \<Rightarrow> uint64 \<Rightarrow> uint64 \<Rightarrow> byte list \<Rightarrow> bool" where
  "ureadable m0 loc pt addr bs \<longleftrightarrow> (\<forall>m. (\<forall>x. x \<noteq> cell loc \<longrightarrow> m x = m0 x) \<longrightarrow>
     (\<forall>j < length bs. \<exists>a. upa m pt (addr + of_nat j) = Some a \<and> load8 m a = bs ! j))"

lemma ureadable_step:
  assumes "ureadable m0 loc pt addr bs" "\<forall>x. x \<noteq> cell loc \<longrightarrow> m x = m0 x"
  shows "ureadable m loc pt addr bs"
  using assms unfolding ureadable_def by simp

lemma load8_store8_other: "x \<noteq> cell l \<Longrightarrow> store8 m l v x = m x"
  by (simp add: store8_def)

text \<open>
  A user buffer at the physical addresses \<open>as\<close> that the kernel can write: its translation depends
  neither on its own bytes nor on the kernel's local variable.
\<close>

definition uwritable :: "pmem \<Rightarrow> uint64 \<Rightarrow> uint64 \<Rightarrow> uint64 \<Rightarrow> uint64 list \<Rightarrow> bool" where
  "uwritable m0 loc pt addr as \<longleftrightarrow> distinct as \<and> cell loc \<notin> cell ` set as \<and>
     (\<forall>m. (\<forall>x. x \<notin> cell ` set as \<longrightarrow> x \<noteq> cell loc \<longrightarrow> m x = m0 x) \<longrightarrow>
       (\<forall>j < length as. upa m pt (addr + of_nat j) = Some (as ! j)))"

lemma uwritable_tail:
  assumes "uwritable m0 loc pt addr (a # as)" "\<forall>x. x \<noteq> cell a \<longrightarrow> x \<noteq> cell loc \<longrightarrow> m x = m0 x"
  shows "uwritable m loc pt (addr + 1) as" "upa m pt addr = Some a" "a \<notin> set as" "cell a \<noteq> cell loc"
proof -
  have all: "\<forall>m. (\<forall>x. x \<notin> cell ` set (a # as) \<longrightarrow> x \<noteq> cell loc \<longrightarrow> m x = m0 x) \<longrightarrow>
       (\<forall>j < Suc (length as). upa m pt (addr + of_nat j) = Some ((a # as) ! j))"
    using assms(1) by (simp add: uwritable_def)
  have "\<forall>j < length as. upa m' pt (addr + 1 + of_nat j) = Some (as ! j)"
    if "\<forall>x. x \<notin> cell ` set as \<longrightarrow> x \<noteq> cell loc \<longrightarrow> m' x = m x" for m'
  proof (intro allI impI)
    fix j assume "j < length as"
    then show "upa m' pt (addr + 1 + of_nat j) = Some (as ! j)"
      using all [rule_format, of m' "Suc j"] that assms(2) by (simp add: add.assoc)
  qed
  then show "uwritable m loc pt (addr + 1) as" using assms(1) by (simp add: uwritable_def)
  show "upa m pt addr = Some a" using all [rule_format, of m 0] assms(2) by simp
  show "a \<notin> set as" "cell a \<noteq> cell loc" using assms(1) by (auto simp: uwritable_def)
qed

text \<open>A page table at \<open>0x80010000\<close> that maps the first user page to the frame \<open>0x80013000\<close>.\<close>

definition demo_user_mem :: pmem where
  "demo_user_mem = (\<lambda>_. 0)(0x80010000 := 0x20004401, 0x80011000 := 0x20004801, 0x80012000 := 0x20004C17,
     0x80013000 := 0x6F6C6C6568)"

lemma demo_upa:
  assumes "m 0x80010000 = 0x20004401" "m 0x80011000 = 0x20004801" "m 0x80012000 = 0x20004C17"
    and "unat va < 4096"
  shows "upa m 0x80010000 va = Some (0x80013000 + va)"
proof -
  have va0: "PGROUNDDOWN va = 0" using assms(4) by (simp add: word_eq_unat unat_PGROUNDDOWN)
  have "leaf m (Suc (Suc 0)) 0x80010000 0 = 0x20004C17"
    using assms(1-3) by (simp add: leaf_def pte_valid_def pte_child_def PX_def pte_addr_def PTE2PA_def)
  then have "user_pa m 0x80010000 0 = 0x80013000" by (simp add: user_pa_def PTE2PA_def flip: numeral_2_eq_2)
  then show ?thesis by (simp add: upa_def va0)
qed

lemma demo_ureadable: "ureadable demo_user_mem 0x80002000 0x80010000 0 [0x68, 0x65, 0x6C]"
proof -
  have cl: "cell 0x80002000 = 0x80002000" by (simp add: cell_def)
  have "\<exists>a. upa m 0x80010000 (of_nat j) = Some a \<and> load8 m a = [0x68, 0x65, 0x6C] ! j"
    if m: "\<forall>x. x \<noteq> 0x80002000 \<longrightarrow> m x = demo_user_mem x" and j: "j < 3" for m j
  proof -
    have "upa m 0x80010000 (of_nat j) = Some (0x80013000 + of_nat j)"
      using m j by (intro demo_upa) (simp_all add: demo_user_mem_def unat_of_nat)
    moreover have "load8 m (0x80013000 + of_nat j) = [0x68, 0x65, 0x6C] ! j"
      using m j by (auto simp: load8_def cell_def lane_def demo_user_mem_def less_Suc_eq numeral_3_eq_3)
    ultimately show ?thesis by blast
  qed
  then show ?thesis by (simp add: ureadable_def cl)
qed

lemma demo_uwritable: "uwritable demo_user_mem 0x80002000 0x80010000 8 [0x80013008, 0x80013009]"
proof -
  have cl: "cell 0x80002000 = 0x80002000" "cell 0x80013008 = 0x80013008" "cell 0x80013009 = 0x80013008"
    by (simp_all add: cell_def)
  have "upa m 0x80010000 (8 + of_nat j) = Some ([0x80013008, 0x80013009] ! j)"
    if m: "\<forall>x. x \<noteq> 0x80013008 \<longrightarrow> x \<noteq> 0x80002000 \<longrightarrow> m x = demo_user_mem x" and j: "j < 2" for m j
  proof -
    have "j = 0 \<or> j = 1" using j by auto
    then show ?thesis using demo_upa [of m 8] demo_upa [of m 9] m by (auto simp: demo_user_mem_def)
  qed
  then show ?thesis by (simp add: uwritable_def cl)
qed

end
