(* ===== verification/Xv6_Pipe.thy ===== *)
theory Xv6_Pipe
  imports Xv6_Sleeplock Xv6_Ring Xv6_Copy
begin

text \<open>
  Pipes (\<^verbatim>\<open>kernel/pipe.c\<close>, apart from \<open>pipealloc\<close>, which needs the file table).

  A pipe is identified by the address of its page; the counters \<open>nread\<close> and \<open>nwrite\<close> are 32-bit and
  wrap around. A call that sleeps is the outcome \<open>Asleep\<close>; the definitions with \<open>_resume\<close> are what
  the woken thread executes, from where it slept.
\<close>

definition PIPESIZE :: nat where [simp]: "PIPESIZE = 512"

record pipe =
  pi_data :: "nat \<Rightarrow> byte"
  pi_nread :: uint
  pi_nwrite :: uint
  pi_readopen :: bool
  pi_writeopen :: bool

record pipest = slst +
  pipes :: "uint64 \<Rightarrow> pipe"

definition getpi :: "uint64 \<Rightarrow> (pipe \<Rightarrow> 'a) \<Rightarrow> ('z pipest_scheme, 'a) kmon" where
  "getpi a f = gets (\<lambda>s. f (pipes s a))"

definition setpi :: "uint64 \<Rightarrow> (pipe \<Rightarrow> pipe) \<Rightarrow> ('z pipest_scheme, unit) kmon" where
  "setpi a f = modify (\<lambda>s. s\<lparr>pipes := (pipes s)(a := f (pipes s a))\<rparr>)"

text \<open>\<open>data[nwrite++ % PIPESIZE] = ch\<close> and \<open>data[nread++ % PIPESIZE]\<close>.\<close>

definition pipe_put :: "byte \<Rightarrow> pipe \<Rightarrow> pipe" where
  "pipe_put ch pi = pi\<lparr>pi_data := (pi_data pi)(unat (pi_nwrite pi) mod PIPESIZE := ch), pi_nwrite := pi_nwrite pi + 1\<rparr>"

definition pipe_top :: "pipe \<Rightarrow> byte" where
  "pipe_top pi = pi_data pi (unat (pi_nread pi) mod PIPESIZE)"

definition pipe_pop :: "pipe \<Rightarrow> pipe" where
  "pipe_pop pi = pi\<lparr>pi_nread := pi_nread pi + 1\<rparr>"

definition pipe_full :: "pipe \<Rightarrow> bool" where
  "pipe_full pi \<longleftrightarrow> pi_nwrite pi = pi_nread pi + of_nat PIPESIZE"

definition pipe_empty :: "pipe \<Rightarrow> bool" where
  "pipe_empty pi \<longleftrightarrow> pi_nread pi = pi_nwrite pi"

definition pipe_init :: "pipe \<Rightarrow> pipe" where
  "pipe_init pi = pi\<lparr>pi_readopen := True, pi_writeopen := True, pi_nwrite := 0, pi_nread := 0\<rparr>"

definition pipeclose :: "uint64 \<Rightarrow> bool \<Rightarrow> ('z pipest_scheme, unit) kmon" where
  "pipeclose pi writable =
     bnd (lock_acquire (LPipe pi)) (\<lambda>_.
     bnd (if writable then
            bnd (setpi pi (\<lambda>r. r\<lparr>pi_writeopen := False\<rparr>)) (\<lambda>_. wakeup (ChPipeRead pi))
          else
            bnd (setpi pi (\<lambda>r. r\<lparr>pi_readopen := False\<rparr>)) (\<lambda>_. wakeup (ChPipeWrite pi))) (\<lambda>_.
     bnd (getpi pi (\<lambda>r. r)) (\<lambda>r.
     if \<not> pi_readopen r \<and> \<not> pi_writeopen r then
       bnd (lock_release (LPipe pi)) (\<lambda>_. kfree pi)
     else lock_release (LPipe pi))))"

text \<open>The loop of \<open>pipewrite\<close> from byte \<open>i\<close> on, with \<open>k\<close> bytes left.\<close>

definition pipewrite_end :: "uint64 \<Rightarrow> cint \<Rightarrow> ('z pipest_scheme, cint) kmon" where
  "pipewrite_end pi i =
     bnd (wakeup (ChPipeRead pi)) (\<lambda>_.
     bnd (lock_release (LPipe pi)) (\<lambda>_.
     ret i))"

fun pipewrite_loop :: "nat \<Rightarrow> uint64 \<Rightarrow> uint64 \<Rightarrow> cint \<Rightarrow> ('z pipest_scheme, cint) kmon" where
  "pipewrite_loop 0 pi addr i = pipewrite_end pi i"
| "pipewrite_loop (Suc k) pi addr i =
     bnd myproc (\<lambda>pr.
     bnd (getp pr p_killed) (\<lambda>killed.
     bnd (getpi pi (\<lambda>r. r)) (\<lambda>r.
     if \<not> pi_readopen r \<or> killed then bnd (lock_release (LPipe pi)) (\<lambda>_. ret (- 1))
     else if pipe_full r then
       bnd (wakeup (ChPipeRead pi)) (\<lambda>_.
       sleep (ChPipeWrite pi) (LPipe pi))
     else
       bnd (getp pr p_pagetable) (\<lambda>pagetable.
       bnd (gets k_local) (\<lambda>ch.
       bnd (copyin pagetable ch (addr + scast i) 1) (\<lambda>c.
       if c = - 1 then pipewrite_end pi i
       else
         bnd (ld8 ch) (\<lambda>b.
         bnd (setpi pi (pipe_put b)) (\<lambda>_.
         pipewrite_loop k pi addr (i + 1)))))))))"

definition pipewrite :: "uint64 \<Rightarrow> uint64 \<Rightarrow> cint \<Rightarrow> ('z pipest_scheme, cint) kmon" where
  "pipewrite pi addr n =
     bnd (lock_acquire (LPipe pi)) (\<lambda>_.
     pipewrite_loop (nat (sint n)) pi addr 0)"

definition pipewrite_resume :: "uint64 \<Rightarrow> uint64 \<Rightarrow> cint \<Rightarrow> cint \<Rightarrow> ('z pipest_scheme, cint) kmon" where
  "pipewrite_resume pi addr n i =
     bnd (sleep_resume (LPipe pi)) (\<lambda>_.
     pipewrite_loop (nat (sint n - sint i)) pi addr i)"

fun piperead_copy :: "nat \<Rightarrow> uint64 \<Rightarrow> uint64 \<Rightarrow> cint \<Rightarrow> ('z pipest_scheme, cint) kmon" where
  "piperead_copy 0 pi addr i = ret i"
| "piperead_copy (Suc k) pi addr i =
     bnd (getpi pi (\<lambda>r. r)) (\<lambda>r.
     if pipe_empty r then ret i
     else
       bnd (setpi pi pipe_pop) (\<lambda>_.
       bnd myproc (\<lambda>pr.
       bnd (getp pr p_pagetable) (\<lambda>pagetable.
       bnd (copyout_bytes pagetable (addr + scast i) [pipe_top r]) (\<lambda>c.
       if c = - 1 then ret i
       else piperead_copy k pi addr (i + 1))))))"

definition piperead_wait :: "uint64 \<Rightarrow> uint64 \<Rightarrow> cint \<Rightarrow> ('z pipest_scheme, cint) kmon" where
  "piperead_wait pi addr n =
     bnd myproc (\<lambda>pr.
     bnd (getpi pi (\<lambda>r. r)) (\<lambda>r.
     if pipe_empty r \<and> pi_writeopen r then
       bnd (getp pr p_killed) (\<lambda>killed.
       if killed then bnd (lock_release (LPipe pi)) (\<lambda>_. ret (- 1))
       else sleep (ChPipeRead pi) (LPipe pi))
     else
       bnd (piperead_copy (nat (sint n)) pi addr 0) (\<lambda>i.
       bnd (wakeup (ChPipeWrite pi)) (\<lambda>_.
       bnd (lock_release (LPipe pi)) (\<lambda>_.
       ret i)))))"

definition piperead :: "uint64 \<Rightarrow> uint64 \<Rightarrow> cint \<Rightarrow> ('z pipest_scheme, cint) kmon" where
  "piperead pi addr n =
     bnd (lock_acquire (LPipe pi)) (\<lambda>_. piperead_wait pi addr n)"

definition piperead_resume :: "uint64 \<Rightarrow> uint64 \<Rightarrow> cint \<Rightarrow> ('z pipest_scheme, cint) kmon" where
  "piperead_resume pi addr n =
     bnd (sleep_resume (LPipe pi)) (\<lambda>_. piperead_wait pi addr n)"

section \<open>A pipe is a bounded queue\<close>

definition pipe_items :: "pipe \<Rightarrow> byte list" where
  "pipe_items pi = ring_items PIPESIZE (pi_data pi) (pi_nread pi) (pi_nwrite pi)"

definition pipe_ok :: "pipe \<Rightarrow> bool" where
  "pipe_ok pi \<longleftrightarrow> unat (pi_nwrite pi - pi_nread pi) \<le> PIPESIZE"

lemma pipe_dvd: "PIPESIZE dvd 2 ^ LENGTH(32)"
  by simp

interpretation pq: bounded_queue pipe_items PIPESIZE pipe_ok pipe_put pipe_top pipe_pop pipe_full pipe_empty
proof
  fix q x
  assume ok: "pipe_ok q"
  have "pi_nwrite q = pi_nread q + 512 \<longleftrightarrow> pi_nwrite q - pi_nread q = 512" by (auto simp: algebra_simps)
  also have "\<dots> \<longleftrightarrow> unat (pi_nwrite q - pi_nread q) = 512" by (simp add: word_eq_unat)
  finally have full: "pipe_full q \<longleftrightarrow> unat (pi_nwrite q - pi_nread q) = 512" by (simp add: pipe_full_def)
  then show "pipe_full q \<longleftrightarrow> length (pipe_items q) = PIPESIZE" by (simp add: pipe_items_def)
  show "pipe_empty q \<longleftrightarrow> pipe_items q = []" by (simp add: pipe_items_def ring_empty_iff pipe_empty_def)
  show "length (pipe_items q) \<le> PIPESIZE" using ok by (simp add: pipe_items_def pipe_ok_def)
  show "pipe_ok (pipe_put x q) \<and> pipe_items (pipe_put x q) = pipe_items q @ [x]" if "\<not> pipe_full q"
  proof -
    have lt: "unat (pi_nwrite q - pi_nread q) < 512" using ok that full by (simp add: pipe_ok_def)
    then show ?thesis
      using ring_put [OF pipe_dvd, of "pi_nwrite q" "pi_nread q" "pi_data q" x] counter_diff_Suc [of "pi_nwrite q" "pi_nread q"]
      by (simp add: pipe_ok_def pipe_items_def pipe_put_def)
  qed
  show "pipe_ok (pipe_pop q) \<and> pipe_items q = pipe_top q # pipe_items (pipe_pop q)" if "\<not> pipe_empty q"
  proof -
    have eq: "pipe_items q = pipe_top q # pipe_items (pipe_pop q)"
      using that ring_pop [of "pi_nread q" "pi_nwrite q" PIPESIZE "pi_data q"]
      by (simp add: pipe_items_def pipe_empty_def pipe_pop_def pipe_top_def)
    then have "length (pipe_items (pipe_pop q)) \<le> length (pipe_items q)" by simp
    then have "pipe_ok (pipe_pop q)" using ok by (simp add: pipe_ok_def pipe_items_def pipe_pop_def)
    with eq show ?thesis by simp
  qed
qed

section \<open>Writing and reading\<close>

lemma wp_getpi [kwp, simp]: "wp (getpi a f) Q s = Q (f (pipes s a)) s"
  by (simp add: getpi_def)

lemma wp_setpi [kwp, simp]: "wp (setpi a f) Q s = Q () (s\<lparr>pipes := (pipes s)(a := f (pipes s a))\<rparr>)"
  by (simp add: setpi_def)

lemma pipe_put_open [simp]: "pi_readopen (pipe_put b r) = pi_readopen r" "pi_writeopen (pipe_put b r) = pi_writeopen r"
  by (simp_all add: pipe_put_def)

lemma scast_of_nat:
  assumes "k < 2 ^ 31"
  shows "(scast (of_nat k :: cint) :: uint64) = of_nat k"
proof -
  have "sint (of_nat k :: cint) = int k"
    using assms by (simp add: sint_uint unsigned_of_nat signed_take_bit_int_eq_self take_bit_nat_eq_self)
  then show ?thesis by (simp add: scast_eq)
qed

definition pipe_ready :: "nat \<Rightarrow> uint64 \<Rightarrow> 'z pipest_scheme \<Rightarrow> bool" where
  "pipe_ready p pi s \<longleftrightarrow> cproc s = Some p \<and> \<not> p_killed (procs s p) \<and> no_proc_lock s \<and> pipe_ok (pipes s pi)"

lemma wp_pipewrite_loop:
  assumes "pipe_ready p pi s" "LPipe pi \<in> set (held s)" "pi_readopen (pipes s pi)"
    and "length (pipe_items (pipes s pi)) + length bs \<le> PIPESIZE" "c + length bs < 2 ^ 31"
    and "ureadable (mem s) (k_local s) (p_pagetable (procs s p)) (addr + of_nat c) bs"
  shows "wp (pipewrite_loop (length bs) pi addr (of_nat c)) (\<lambda>r t. r = of_nat (c + length bs) \<and>
    pipe_items (pipes t pi) = pipe_items (pipes s pi) @ bs \<and> pipe_ok (pipes t pi) \<and>
    procs t = wake_all (ChPipeRead pi) NPROC (procs s) \<and> held t = remove1 (LPipe pi) (held s)) s"
  using assms
proof (induction bs arbitrary: s c)
  case Nil
  then show ?case
    by (simp add: pipewrite_end_def pipe_ready_def wp_wakeup)
next
  case (Cons b bs)
  let ?pt = "p_pagetable (procs s p)"
  obtain a where a: "upa (mem s) ?pt (addr + of_nat c) = Some a" "load8 (mem s) a = b"
    using Cons.prems(6) unfolding ureadable_def by (auto dest!: spec [of _ "mem s"] spec [of _ 0])
  let ?m = "store8 (mem s) (k_local s) b"
  let ?s = "s\<lparr>mem := ?m, pipes := (pipes s)(pi := pipe_put b (pipes s pi))\<rparr>"
  have nf: "\<not> pipe_full (pipes s pi)" and ok: "pipe_ok (pipes s pi)"
    using Cons.prems(1,4) pq.full_iff by (auto simp: pipe_ready_def)
  note put = pq.put_items [OF ok nf, of b]
  have rd: "ureadable (mem ?s) (k_local ?s) (p_pagetable (procs ?s p)) (addr + of_nat (Suc c)) bs"
  proof -
    have "ureadable (mem s) (k_local s) ?pt (addr + of_nat c) (b # bs) \<Longrightarrow>
        ureadable (mem s) (k_local s) ?pt (addr + of_nat (Suc c)) bs"
      unfolding ureadable_def by (auto simp: add_ac dest!: spec [of _ "Suc _"])
    then show ?thesis using Cons.prems(6) ureadable_step [of "mem s" "k_local s" ?pt _ bs ?m] by (simp add: load8_store8_other)
  qed
  have "wp (pipewrite_loop (length bs) pi addr (of_nat (Suc c))) (\<lambda>r t. r = of_nat (Suc c + length bs) \<and>
    pipe_items (pipes t pi) = pipe_items (pipes ?s pi) @ bs \<and> pipe_ok (pipes t pi) \<and>
    procs t = wake_all (ChPipeRead pi) NPROC (procs ?s) \<and> held t = remove1 (LPipe pi) (held ?s)) ?s"
    by (rule Cons.IH [OF _ _ _ _ _ rd]) (use Cons.prems put in \<open>simp_all add: pipe_ready_def no_proc_lock_def\<close>)
  then show ?case
    using Cons.prems(1,3,5) nf a put
    by (simp add: pipe_ready_def wp_copyin_byte [simplified] scast_of_nat load8_store8 add.commute)
qed

lemma wp_copyout_1:
  "wp (copyout_bytes pt va [b]) Q s =
    (let m = store8 (mem s) (k_local s) b in
     case upa m pt va of None \<Rightarrow> Q (- 1) (s\<lparr>mem := m\<rparr>) | Some a \<Rightarrow> Q 0 (s\<lparr>mem := store8 m a b\<rparr>))"
  by (simp add: copyout_bytes_def store_bytes_def wp_copyout_byte [simplified] Let_def load8_store8 split: option.split)

lemma wp_piperead_copy:
  assumes "cproc s = Some p" "pipe_ok (pipes s pi)" "length as = min k (length (pipe_items (pipes s pi)))"
    and "c + length as < 2 ^ 31" "uwritable (mem s) (k_local s) (p_pagetable (procs s p)) (addr + of_nat c) as"
  shows "wp (piperead_copy k pi addr (of_nat c)) (\<lambda>r t. r = of_nat (c + length as) \<and>
    pipe_items (pipes t pi) = drop (length as) (pipe_items (pipes s pi)) \<and> pipe_ok (pipes t pi) \<and>
    (\<forall>j < length as. load8 (mem t) (as ! j) = pipe_items (pipes s pi) ! j) \<and>
    (\<forall>x. x \<notin> set as \<longrightarrow> cell x \<noteq> cell (k_local s) \<longrightarrow> load8 (mem t) x = load8 (mem s) x) \<and>
    (\<exists>m ps. t = s\<lparr>mem := m, pipes := ps\<rparr>)) s"
  using assms
proof (induction as arbitrary: s c k)
  case Nil
  have stop: "k = 0 \<or> pipe_empty (pipes s pi)" using Nil.prems(2,3) pq.empty_iff by (auto simp: min_def split: if_splits)
  then show ?case using Nil.prems(2)
    by (cases k) (auto intro!: exI [of _ "mem s"] exI [of _ "pipes s"])
next
  case (Cons a as)
  obtain k' where k: "k = Suc k'" using Cons.prems(3) by (cases k) auto
  have ne: "\<not> pipe_empty (pipes s pi)" using Cons.prems(2,3) pq.empty_iff by auto
  note pop = pq.pop_items [OF Cons.prems(2) ne]
  let ?b = "pipe_top (pipes s pi)" and ?l = "k_local s"
  let ?m1 = "store8 (mem s) ?l ?b"
  let ?m = "store8 ?m1 a ?b"
  let ?s = "s\<lparr>pipes := (pipes s)(pi := pipe_pop (pipes s pi)), mem := ?m\<rparr>"
  note w1 = uwritable_tail [OF Cons.prems(5), of ?m1]
  note w = uwritable_tail [OF Cons.prems(5), of ?m]
  have m1: "upa ?m1 (p_pagetable (procs s p)) (addr + of_nat c) = Some a" by (rule w1(2)) (simp add: load8_store8_other)
  have wr: "uwritable (mem ?s) (k_local ?s) (p_pagetable (procs ?s p)) (addr + of_nat (Suc c)) as"
    using w(1) by (simp add: load8_store8_other add_ac)
  have "wp (piperead_copy k' pi addr (of_nat (Suc c))) (\<lambda>r t. r = of_nat (Suc c + length as) \<and>
    pipe_items (pipes t pi) = drop (length as) (pipe_items (pipes ?s pi)) \<and> pipe_ok (pipes t pi) \<and>
    (\<forall>j < length as. load8 (mem t) (as ! j) = pipe_items (pipes ?s pi) ! j) \<and>
    (\<forall>x. x \<notin> set as \<longrightarrow> cell x \<noteq> cell (k_local ?s) \<longrightarrow> load8 (mem t) x = load8 (mem ?s) x) \<and>
    (\<exists>m ps. t = ?s\<lparr>mem := m, pipes := ps\<rparr>)) ?s"
    by (rule Cons.IH [OF _ _ _ _ wr]) (use Cons.prems(1,3,4) pop k in simp_all)
  then have "wp (piperead_copy k' pi addr (of_nat (Suc c))) (\<lambda>r t. r = of_nat (c + length (a # as)) \<and>
    pipe_items (pipes t pi) = drop (length (a # as)) (pipe_items (pipes s pi)) \<and> pipe_ok (pipes t pi) \<and>
    (\<forall>j < length (a # as). load8 (mem t) ((a # as) ! j) = pipe_items (pipes s pi) ! j) \<and>
    (\<forall>x. x \<notin> set (a # as) \<longrightarrow> cell x \<noteq> cell (k_local s) \<longrightarrow> load8 (mem t) x = load8 (mem s) x) \<and>
    (\<exists>m ps. t = s\<lparr>mem := m, pipes := ps\<rparr>)) ?s"
  proof (rule wp_mono, elim conjE exE, intro conjI)
    fix r t m ps
    assume t: "\<forall>j < length as. load8 (mem t) (as ! j) = pipe_items (pipes ?s pi) ! j"
      "\<forall>x. x \<notin> set as \<longrightarrow> cell x \<noteq> cell (k_local ?s) \<longrightarrow> load8 (mem t) x = load8 (mem ?s) x"
      "t = ?s\<lparr>mem := m, pipes := ps\<rparr>"
    have a: "a \<notin> set as" "cell a \<noteq> cell ?l" using w(3,4) by (simp_all add: load8_store8_other)
    show "\<forall>j < length (a # as). load8 (mem t) ((a # as) ! j) = pipe_items (pipes s pi) ! j"
    proof (intro allI impI)
      fix j assume "j < length (a # as)"
      then show "load8 (mem t) ((a # as) ! j) = pipe_items (pipes s pi) ! j"
        using t(1) t(2) [rule_format, of a] a pop by (cases j) (simp_all add: load8_store8)
    qed
    show "\<forall>x. x \<notin> set (a # as) \<longrightarrow> cell x \<noteq> cell (k_local s) \<longrightarrow> load8 (mem t) x = load8 (mem s) x"
      using t(2) by (auto simp: load8_store8)
    show "\<exists>m ps. t = s\<lparr>mem := m, pipes := ps\<rparr>" using t(3) by (intro exI [of _ m] exI [of _ ps]) simp
  qed (use pop in \<open>auto simp: drop_Suc\<close>)
  then show ?case
    using Cons.prems(1,4) ne m1 unfolding k by (simp add: wp_copyout_1 Let_def scast_of_nat add.commute)
qed

lemma nat_sint_of_nat: "n < 2 ^ 31 \<Longrightarrow> nat (sint (of_nat n :: cint)) = n"
  by (simp add: sint_uint unsigned_of_nat signed_take_bit_int_eq_self take_bit_nat_eq_self)

text \<open>
  C16. Writing to a pipe with a reader and enough room appends exactly the user's bytes, in order,
  to the bytes in the pipe, returns their number and wakes the readers; the 32-bit counters may wrap
  around.
\<close>

theorem pipewrite_appends:
  assumes "pipe_ready p pi s" "LPipe pi \<notin> set (held s)" "pi_readopen (pipes s pi)"
    and "length (pipe_items (pipes s pi)) + length bs \<le> PIPESIZE"
    and "ureadable (mem s) (k_local s) (p_pagetable (procs s p)) addr bs"
  shows "wp (pipewrite pi addr (of_nat (length bs))) (\<lambda>r t. r = of_nat (length bs) \<and>
    pipe_items (pipes t pi) = pipe_items (pipes s pi) @ bs \<and> pipe_ok (pipes t pi) \<and>
    procs t = wake_all (ChPipeRead pi) NPROC (procs s) \<and> held t = held s) s"
proof -
  have len: "length bs < 2 ^ 31" using assms(4) by simp
  have "wp (pipewrite_loop (length bs) pi addr (of_nat 0)) (\<lambda>r t. r = of_nat (0 + length bs) \<and>
    pipe_items (pipes t pi) = pipe_items (pipes s pi) @ bs \<and> pipe_ok (pipes t pi) \<and>
    procs t = wake_all (ChPipeRead pi) NPROC (procs s) \<and>
    held t = remove1 (LPipe pi) (held (s\<lparr>held := LPipe pi # held s\<rparr>))) (s\<lparr>held := LPipe pi # held s\<rparr>)"
    using wp_pipewrite_loop [of p pi "s\<lparr>held := LPipe pi # held s\<rparr>" bs 0 addr] assms len
    by (simp add: pipe_ready_def)
  then show ?thesis using assms(2) len by (simp add: pipewrite_def nat_sint_of_nat)
qed

definition demo_pipe :: pipe where
  "demo_pipe = \<lparr>pi_data = (\<lambda>_. 0x41), pi_nread = 0xFFFFFFFF, pi_nwrite = 1, pi_readopen = True, pi_writeopen = True\<rparr>"

definition demo_pipest :: pipest where
  "demo_pipest = slst.extend (demo_slst\<lparr>mem := demo_user_mem,
     procs := (procs demo_slst)(1 := (procs demo_slst 1)\<lparr>p_pagetable := 0x80010000\<rparr>)\<rparr>) \<lparr>pipes = (\<lambda>_. demo_pipe)\<rparr>"

lemma demo_pipest_simps:
  "held demo_pipest = []" "cproc demo_pipest = Some 1" "mem demo_pipest = demo_user_mem"
  "k_local demo_pipest = 0x80002000" "p_pagetable (procs demo_pipest 1) = 0x80010000"
  "p_killed (procs demo_pipest 1) = False" "pipes demo_pipest = (\<lambda>_. demo_pipe)"
  by (simp_all add: demo_pipest_def demo_slst_def demo_bst_def demo_pst_def slst.defs bst.defs pst.defs
    demo_proc_def proc0_def)

lemma demo_pipe_ready: "pipe_ready 1 pi demo_pipest"
  using demo_pipest_simps(6) by (simp add: pipe_ready_def demo_pipest_simps(1-5,7) no_proc_lock_def pipe_ok_def demo_pipe_def)

lemma demo_pipe_items: "pipe_items demo_pipe = [0x41, 0x41]"
  by (simp add: pipe_items_def ring_items_def demo_pipe_def upt_rec)

theorem pipewrite_appends_witness:
  "wp (pipewrite 0x80009000 0 3) (\<lambda>r t. r = 3 \<and>
     pipe_items (pipes t 0x80009000) = [0x41, 0x41, 0x68, 0x65, 0x6C]) demo_pipest"
proof -
  have r: "ureadable (mem demo_pipest) (k_local demo_pipest) (p_pagetable (procs demo_pipest 1)) 0 [0x68, 0x65, 0x6C]"
    unfolding demo_pipest_simps by (rule demo_ureadable)
  have o: "pi_readopen (pipes demo_pipest 0x80009000)" "LPipe 0x80009000 \<notin> set (held demo_pipest)"
    "length (pipe_items (pipes demo_pipest 0x80009000)) + length [0x68 :: byte, 0x65, 0x6C] \<le> PIPESIZE"
    by (simp_all add: demo_pipest_simps demo_pipe_items) (simp add: demo_pipe_def)
  have n: "(of_nat (length [0x68 :: byte, 0x65, 0x6C]) :: cint) = 3" by simp
  show ?thesis
    by (rule wp_mono [OF pipewrite_appends [OF demo_pipe_ready o(2) o(1) o(3) r, unfolded n]])
      (simp add: demo_pipest_simps demo_pipe_items)
qed

text \<open>
  C17. Reading \<open>n\<close> bytes from a pipe that is not empty, or has no writer, gives the user the first
  \<open>min n length\<close> bytes of the pipe in order, removes exactly those, returns their number and wakes
  the writers: with no writer and an empty pipe it returns 0, the end of the file.
\<close>

theorem piperead_takes:
  assumes "pipe_ready p pi s" "LPipe pi \<notin> set (held s)" "\<not> pipe_empty (pipes s pi) \<or> \<not> pi_writeopen (pipes s pi)"
    and "n < 2 ^ 31" "length as = min n (length (pipe_items (pipes s pi)))"
    and "uwritable (mem s) (k_local s) (p_pagetable (procs s p)) addr as"
  shows "wp (piperead pi addr (of_nat n)) (\<lambda>r t. r = of_nat (length as) \<and>
    pipe_items (pipes t pi) = drop (length as) (pipe_items (pipes s pi)) \<and> pipe_ok (pipes t pi) \<and>
    map (load8 (mem t)) as = take n (pipe_items (pipes s pi)) \<and>
    procs t = wake_all (ChPipeWrite pi) NPROC (procs s) \<and> held t = held s) s"
proof -
  let ?s = "s\<lparr>held := LPipe pi # held s\<rparr>"
  have len: "length as < 2 ^ 31" using assms(4,5) by simp
  have "wp (piperead_copy n pi addr (of_nat 0)) (\<lambda>r t. r = of_nat (0 + length as) \<and>
    pipe_items (pipes t pi) = drop (length as) (pipe_items (pipes ?s pi)) \<and> pipe_ok (pipes t pi) \<and>
    (\<forall>j < length as. load8 (mem t) (as ! j) = pipe_items (pipes ?s pi) ! j) \<and>
    (\<forall>x. x \<notin> set as \<longrightarrow> cell x \<noteq> cell (k_local ?s) \<longrightarrow> load8 (mem t) x = load8 (mem ?s) x) \<and>
    (\<exists>m ps. t = ?s\<lparr>mem := m, pipes := ps\<rparr>)) ?s"
    by (rule wp_piperead_copy [of _ p]) (use assms len in \<open>simp_all add: pipe_ready_def\<close>)
  then have "wp (piperead_copy n pi addr (of_nat 0)) (\<lambda>r. wp (bnd (wakeup (ChPipeWrite pi)) (\<lambda>_.
      bnd (lock_release (LPipe pi)) (\<lambda>_. ret r))) (\<lambda>r t. r = of_nat (length as) \<and>
    pipe_items (pipes t pi) = drop (length as) (pipe_items (pipes s pi)) \<and> pipe_ok (pipes t pi) \<and>
    map (load8 (mem t)) as = take n (pipe_items (pipes s pi)) \<and>
    procs t = wake_all (ChPipeWrite pi) NPROC (procs s) \<and> held t = held s)) ?s"
  proof (rule wp_mono, elim conjE exE)
    fix r t m ps
    assume t: "r = of_nat (0 + length as)" "pipe_items (pipes t pi) = drop (length as) (pipe_items (pipes ?s pi))"
      "pipe_ok (pipes t pi)" "\<forall>j < length as. load8 (mem t) (as ! j) = pipe_items (pipes ?s pi) ! j"
      "t = ?s\<lparr>mem := m, pipes := ps\<rparr>"
    have "map (load8 (mem t)) as = take n (pipe_items (pipes s pi))"
      using t(4) assms(5) by (intro nth_equalityI) auto
    moreover have "no_proc_lock t" using assms(1) t(5) by (auto simp: pipe_ready_def no_proc_lock_def)
    ultimately show "wp (bnd (wakeup (ChPipeWrite pi)) (\<lambda>_. bnd (lock_release (LPipe pi)) (\<lambda>_. ret r)))
      (\<lambda>r t. r = of_nat (length as) \<and>
    pipe_items (pipes t pi) = drop (length as) (pipe_items (pipes s pi)) \<and> pipe_ok (pipes t pi) \<and>
    map (load8 (mem t)) as = take n (pipe_items (pipes s pi)) \<and>
    procs t = wake_all (ChPipeWrite pi) NPROC (procs s) \<and> held t = held s) t"
      using t(1,2,3,5) by (simp add: wp_wakeup)
  qed
  then show ?thesis
    using assms(1,2,3,4) by (auto simp: piperead_def piperead_wait_def nat_sint_of_nat pipe_ready_def)
qed

theorem piperead_takes_witness:
  "wp (piperead 0x80009000 8 10) (\<lambda>r t. r = 2 \<and> pipe_items (pipes t 0x80009000) = [] \<and>
     load8 (mem t) 0x80013009 = 0x41) demo_pipest"
proof -
  have w: "uwritable (mem demo_pipest) (k_local demo_pipest) (p_pagetable (procs demo_pipest 1)) 8 [0x80013008, 0x80013009]"
    unfolding demo_pipest_simps by (rule demo_uwritable)
  have e: "\<not> pipe_empty (pipes demo_pipest 0x80009000)" by (simp add: demo_pipest_simps pipe_empty_def demo_pipe_def)
  have l: "length [0x80013008 :: uint64, 0x80013009] = min 10 (length (pipe_items (pipes demo_pipest 0x80009000)))"
    "LPipe 0x80009000 \<notin> set (held demo_pipest)" "(10 :: nat) < 2 ^ 31"
    by (simp_all add: demo_pipest_simps demo_pipe_items)
  have n: "(of_nat 10 :: cint) = 10" by simp
  show ?thesis
    by (rule wp_mono [OF piperead_takes [OF demo_pipe_ready l(2) disjI1 [OF e] l(3,1) w, unfolded n]])
      (simp add: demo_pipest_simps demo_pipe_items)
qed

end
