(* ===== verification/Xv6_Virtio.thy ===== *)
theory Xv6_Virtio
  imports Xv6_Pipe
begin

text \<open>
  Disk buffers (\<^verbatim>\<open>kernel/buf.h\<close>) and the driver of the virtio disk (\<^verbatim>\<open>kernel/virtio_disk.c\<close>).

  A buffer is its index in \<open>bcache.buf\<close>; the index \<open>NBUF\<close> is the list head \<open>bcache.head\<close>. The driver's
  structures in shared memory are the record \<open>vdisk\<close>; an address in a descriptor is a value of
  \<open>daddr\<close>, which says what it points to. \<open>dsk\<close> is the contents of the disk, \<open>dwrites\<close> the sequence of
  block writes the disk has carried out. The values of the memory-mapped registers are a parameter
  of the initialisation, the writes to them are recorded in \<open>v_wr\<close>.

  \<open>disk_rw\<close> is the contract of the driver that the buffer cache relies on. The last section shows
  that the driver, a device that follows the virtio protocol and the interrupt handler together
  implement it.
\<close>

section \<open>kernel/fs.h, kernel/param.h: sizes\<close>

definition BSIZE :: nat where [simp]: "BSIZE = 1024"
definition MAXOPBLOCKS :: nat where [simp]: "MAXOPBLOCKS = 10"
definition LOGSIZE :: nat where [simp]: "LOGSIZE = MAXOPBLOCKS * 3"
definition NBUF :: nat where [simp]: "NBUF = MAXOPBLOCKS * 3"

type_synonym block = "nat \<Rightarrow> byte"

section \<open>kernel/buf.h\<close>

record buf =
  b_valid :: bool
  b_disk :: bool
  b_dev :: uint
  b_blockno :: uint
  b_refcnt :: uint
  b_prev :: nat
  b_next :: nat
  b_data :: block

section \<open>kernel/virtio.h\<close>

type_synonym uint16 = "16 word"

definition NUM :: nat where [simp]: "NUM = 8"
definition VRING_DESC_F_NEXT :: uint16 where [simp]: "VRING_DESC_F_NEXT = 1"
definition VRING_DESC_F_WRITE :: uint16 where [simp]: "VRING_DESC_F_WRITE = 2"
definition VIRTIO_BLK_T_IN :: uint where [simp]: "VIRTIO_BLK_T_IN = 0"
definition VIRTIO_BLK_T_OUT :: uint where [simp]: "VIRTIO_BLK_T_OUT = 1"

datatype daddr = ANull | AOps nat | AData nat | AStatus nat

record virtq_desc =
  d_addr :: daddr
  d_len :: uint
  d_flags :: uint16
  d_next :: uint16

record virtio_blk_req =
  r_type :: uint
  r_reserved :: uint
  r_sector :: uint64

record virtq_avail =
  a_idx :: uint16
  a_ring :: "nat \<Rightarrow> uint16"

record virtq_used =
  u_idx :: uint16
  u_ring :: "nat \<Rightarrow> uint"

record vinfo =
  i_b :: "nat option"
  i_status :: byte

record vdisk =
  v_desc :: "nat \<Rightarrow> virtq_desc"
  v_avail :: virtq_avail
  v_used :: virtq_used
  v_free :: "nat \<Rightarrow> bool"
  v_used_idx :: uint16
  v_info :: "nat \<Rightarrow> vinfo"
  v_ops :: "nat \<Rightarrow> virtio_blk_req"
  v_wr :: "(uint \<times> uint) list"

record bufst = pipest +
  bufs :: "nat \<Rightarrow> buf"
  vdisk :: vdisk
  dsk :: "uint \<Rightarrow> block"
  dwrites :: "(uint \<times> block) list"

definition getbuf :: "nat \<Rightarrow> (buf \<Rightarrow> 'a) \<Rightarrow> ('z bufst_scheme, 'a) kmon" where
  "getbuf b f = gets (\<lambda>s. f (bufs s b))"

definition setbuf :: "nat \<Rightarrow> (buf \<Rightarrow> buf) \<Rightarrow> ('z bufst_scheme, unit) kmon" where
  "setbuf b f = modify (\<lambda>s. s\<lparr>bufs := (bufs s)(b := f (bufs s b))\<rparr>)"

definition getv :: "(vdisk \<Rightarrow> 'a) \<Rightarrow> ('z bufst_scheme, 'a) kmon" where
  "getv f = gets (\<lambda>s. f (vdisk s))"

definition setv :: "(vdisk \<Rightarrow> vdisk) \<Rightarrow> ('z bufst_scheme, unit) kmon" where
  "setv f = modify (\<lambda>s. s\<lparr>vdisk := f (vdisk s)\<rparr>)"

section \<open>kernel/virtio\_disk.c\<close>

subsection \<open>Initialisation\<close>

definition VIRTIO_MMIO_MAGIC_VALUE :: uint where [simp]: "VIRTIO_MMIO_MAGIC_VALUE = 0x000"
definition VIRTIO_MMIO_VERSION :: uint where [simp]: "VIRTIO_MMIO_VERSION = 0x004"
definition VIRTIO_MMIO_DEVICE_ID :: uint where [simp]: "VIRTIO_MMIO_DEVICE_ID = 0x008"
definition VIRTIO_MMIO_VENDOR_ID :: uint where [simp]: "VIRTIO_MMIO_VENDOR_ID = 0x00c"
definition VIRTIO_MMIO_DEVICE_FEATURES :: uint where [simp]: "VIRTIO_MMIO_DEVICE_FEATURES = 0x010"
definition VIRTIO_MMIO_DRIVER_FEATURES :: uint where [simp]: "VIRTIO_MMIO_DRIVER_FEATURES = 0x020"
definition VIRTIO_MMIO_GUEST_PAGE_SIZE :: uint where [simp]: "VIRTIO_MMIO_GUEST_PAGE_SIZE = 0x028"
definition VIRTIO_MMIO_QUEUE_SEL :: uint where [simp]: "VIRTIO_MMIO_QUEUE_SEL = 0x030"
definition VIRTIO_MMIO_QUEUE_NUM_MAX :: uint where [simp]: "VIRTIO_MMIO_QUEUE_NUM_MAX = 0x034"
definition VIRTIO_MMIO_QUEUE_NUM :: uint where [simp]: "VIRTIO_MMIO_QUEUE_NUM = 0x038"
definition VIRTIO_MMIO_QUEUE_PFN :: uint where [simp]: "VIRTIO_MMIO_QUEUE_PFN = 0x040"
definition VIRTIO_MMIO_QUEUE_NOTIFY :: uint where [simp]: "VIRTIO_MMIO_QUEUE_NOTIFY = 0x050"
definition VIRTIO_MMIO_INTERRUPT_STATUS :: uint where [simp]: "VIRTIO_MMIO_INTERRUPT_STATUS = 0x060"
definition VIRTIO_MMIO_INTERRUPT_ACK :: uint where [simp]: "VIRTIO_MMIO_INTERRUPT_ACK = 0x064"
definition VIRTIO_MMIO_STATUS :: uint where [simp]: "VIRTIO_MMIO_STATUS = 0x070"

definition wreg :: "uint \<Rightarrow> uint \<Rightarrow> ('z bufst_scheme, unit) kmon" where
  "wreg r v = setv (\<lambda>d. d\<lparr>v_wr := v_wr d @ [(r, v)]\<rparr>)"

definition clear_bit :: "nat \<Rightarrow> uint64 \<Rightarrow> uint64" where
  "clear_bit n x = x AND NOT (push_bit n 1)"

text \<open>\<open>memset\<close> of \<open>disk.pages\<close>, which hold the descriptors and both rings.\<close>

definition zero_pages :: "vdisk \<Rightarrow> vdisk" where
  "zero_pages d = d\<lparr>v_desc := (\<lambda>_. \<lparr>d_addr = ANull, d_len = 0, d_flags = 0, d_next = 0\<rparr>),
     v_avail := \<lparr>a_idx = 0, a_ring = (\<lambda>_. 0)\<rparr>, v_used := \<lparr>u_idx = 0, u_ring = (\<lambda>_. 0)\<rparr>\<rparr>"

definition virtio_disk_init :: "(uint \<Rightarrow> uint) \<Rightarrow> uint64 \<Rightarrow> ('z bufst_scheme, unit) kmon" where
  "virtio_disk_init R pages =
     (if R VIRTIO_MMIO_MAGIC_VALUE \<noteq> 0x74726976 \<or> R VIRTIO_MMIO_VERSION \<noteq> 1 \<or>
         R VIRTIO_MMIO_DEVICE_ID \<noteq> 2 \<or> R VIRTIO_MMIO_VENDOR_ID \<noteq> 0x554d4551
      then panic ''could not find virtio disk'' else
      bnd (wreg VIRTIO_MMIO_STATUS 1) (\<lambda>_.
      bnd (wreg VIRTIO_MMIO_STATUS 3) (\<lambda>_.
      let features = fold clear_bit [5, 7, 11, 12, 27, 29, 28] (ucast (R VIRTIO_MMIO_DEVICE_FEATURES)) in
      bnd (wreg VIRTIO_MMIO_DRIVER_FEATURES (ucast features)) (\<lambda>_.
      bnd (wreg VIRTIO_MMIO_STATUS 11) (\<lambda>_.
      bnd (wreg VIRTIO_MMIO_STATUS 15) (\<lambda>_.
      bnd (wreg VIRTIO_MMIO_GUEST_PAGE_SIZE (ucast PGSIZE)) (\<lambda>_.
      bnd (wreg VIRTIO_MMIO_QUEUE_SEL 0) (\<lambda>_.
      if R VIRTIO_MMIO_QUEUE_NUM_MAX = 0 then panic ''virtio disk has no queue 0'' else
      if R VIRTIO_MMIO_QUEUE_NUM_MAX < of_nat NUM then panic ''virtio disk max queue too short'' else
      bnd (wreg VIRTIO_MMIO_QUEUE_NUM (of_nat NUM)) (\<lambda>_.
      bnd (setv zero_pages) (\<lambda>_.
      bnd (wreg VIRTIO_MMIO_QUEUE_PFN (ucast (drop_bit PGSHIFT pages))) (\<lambda>_.
      for_each [0..<NUM] (\<lambda>i. setv (\<lambda>d. d\<lparr>v_free := (v_free d)(i := True)\<rparr>)))))))))))))"

subsection \<open>Descriptors\<close>

definition alloc_desc :: "('z bufst_scheme, nat option) kmon" where
  "alloc_desc =
     bnd (getv (\<lambda>d. List.find (v_free d) [0..<NUM])) (\<lambda>r.
     case r of
       None \<Rightarrow> ret None
     | Some i \<Rightarrow> bnd (setv (\<lambda>d. d\<lparr>v_free := (v_free d)(i := False)\<rparr>)) (\<lambda>_. ret (Some i)))"

definition free_desc :: "nat \<Rightarrow> ('z bufst_scheme, unit) kmon" where
  "free_desc i =
     (if i \<ge> NUM then panic ''free_desc 1'' else
      bnd (getv (\<lambda>d. v_free d i)) (\<lambda>free.
      if free then panic ''free_desc 2'' else
      bnd (setv (\<lambda>d. d\<lparr>v_desc := (v_desc d)(i := \<lparr>d_addr = ANull, d_len = 0, d_flags = 0, d_next = 0\<rparr>)\<rparr>)) (\<lambda>_.
      bnd (setv (\<lambda>d. d\<lparr>v_free := (v_free d)(i := True)\<rparr>)) (\<lambda>_.
      wakeup ChDesc))))"

text \<open>Every round of the loop frees a descriptor that was not free, so \<open>NUM + 1\<close> rounds are enough.\<close>

fun free_chain_loop :: "nat \<Rightarrow> nat \<Rightarrow> ('z bufst_scheme, unit) kmon" where
  "free_chain_loop 0 i = spins"
| "free_chain_loop (Suc n) i =
     (if i \<ge> NUM then fault else
      bnd (getv (\<lambda>d. d_flags (v_desc d i))) (\<lambda>flag.
      bnd (getv (\<lambda>d. d_next (v_desc d i))) (\<lambda>nxt.
      bnd (free_desc i) (\<lambda>_.
      if flag AND VRING_DESC_F_NEXT \<noteq> 0 then free_chain_loop n (unat nxt) else ret ()))))"

definition free_chain :: "nat \<Rightarrow> ('z bufst_scheme, unit) kmon" where
  "free_chain i = free_chain_loop (Suc NUM) i"

definition alloc3_desc :: "('z bufst_scheme, (nat \<times> nat \<times> nat) option) kmon" where
  "alloc3_desc =
     bnd alloc_desc (\<lambda>r0. case r0 of None \<Rightarrow> ret None | Some i0 \<Rightarrow>
     bnd alloc_desc (\<lambda>r1. case r1 of
       None \<Rightarrow> bnd (free_desc i0) (\<lambda>_. ret None)
     | Some i1 \<Rightarrow>
       bnd alloc_desc (\<lambda>r2. case r2 of
         None \<Rightarrow> bnd (free_desc i0) (\<lambda>_. bnd (free_desc i1) (\<lambda>_. ret None))
       | Some i2 \<Rightarrow> ret (Some (i0, i1, i2)))))"

subsection \<open>Requests\<close>

definition set_desc :: "nat \<Rightarrow> virtq_desc \<Rightarrow> ('z bufst_scheme, unit) kmon" where
  "set_desc i v = setv (\<lambda>d. d\<lparr>v_desc := (v_desc d)(i := v)\<rparr>)"

definition fill_desc :: "nat \<Rightarrow> bool \<Rightarrow> nat \<Rightarrow> nat \<Rightarrow> nat \<Rightarrow> ('z bufst_scheme, unit) kmon" where
  "fill_desc b write' i0 i1 i2 =
     bnd (getbuf b b_blockno) (\<lambda>blockno.
     let sector = ucast (blockno * 2) :: uint64 in
     bnd (setv (\<lambda>d. d\<lparr>v_ops := (v_ops d)(i0 := \<lparr>r_type = (if write' then VIRTIO_BLK_T_OUT else VIRTIO_BLK_T_IN),
       r_reserved = 0, r_sector = sector\<rparr>)\<rparr>)) (\<lambda>_.
     bnd (set_desc i0 \<lparr>d_addr = AOps i0, d_len = 16, d_flags = VRING_DESC_F_NEXT, d_next = of_nat i1\<rparr>) (\<lambda>_.
     bnd (set_desc i1 \<lparr>d_addr = AData b, d_len = of_nat BSIZE,
       d_flags = (if write' then 0 else VRING_DESC_F_WRITE) OR VRING_DESC_F_NEXT, d_next = of_nat i2\<rparr>) (\<lambda>_.
     bnd (setv (\<lambda>d. d\<lparr>v_info := (v_info d)(i0 := (v_info d i0)\<lparr>i_status := 0xff\<rparr>)\<rparr>)) (\<lambda>_.
     bnd (set_desc i2 \<lparr>d_addr = AStatus i0, d_len = 1, d_flags = VRING_DESC_F_WRITE, d_next = 0\<rparr>) (\<lambda>_.
     bnd (setbuf b (\<lambda>r. r\<lparr>b_disk := True\<rparr>)) (\<lambda>_.
     bnd (setv (\<lambda>d. d\<lparr>v_info := (v_info d)(i0 := (v_info d i0)\<lparr>i_b := Some b\<rparr>)\<rparr>)) (\<lambda>_.
     bnd (setv (\<lambda>d. d\<lparr>v_avail := (v_avail d)\<lparr>a_ring := (a_ring (v_avail d))
       (unat (a_idx (v_avail d)) mod NUM := of_nat i0)\<rparr>\<rparr>)) (\<lambda>_.
     bnd (setv (\<lambda>d. d\<lparr>v_avail := (v_avail d)\<lparr>a_idx := a_idx (v_avail d) + 1\<rparr>\<rparr>)) (\<lambda>_.
     wreg VIRTIO_MMIO_QUEUE_NOTIFY 0))))))))))"

text \<open>The end of \<open>virtio_disk_rw\<close>, from the second loop on; \<open>i0\<close> is \<open>idx[0]\<close>.\<close>

definition virtio_disk_wait :: "nat \<Rightarrow> nat \<Rightarrow> ('z bufst_scheme, unit) kmon" where
  "virtio_disk_wait b i0 =
     bnd (getbuf b b_disk) (\<lambda>busy.
     if busy then sleep (ChBuf b) LVdisk else
     bnd (setv (\<lambda>d. d\<lparr>v_info := (v_info d)(i0 := (v_info d i0)\<lparr>i_b := None\<rparr>)\<rparr>)) (\<lambda>_.
     bnd (free_chain i0) (\<lambda>_.
     lock_release LVdisk)))"

definition virtio_disk_start :: "nat \<Rightarrow> bool \<Rightarrow> ('z bufst_scheme, unit) kmon" where
  "virtio_disk_start b write' =
     bnd alloc3_desc (\<lambda>r.
     case r of
       None \<Rightarrow> sleep ChDesc LVdisk
     | Some (i0, i1, i2) \<Rightarrow> bnd (fill_desc b write' i0 i1 i2) (\<lambda>_. virtio_disk_wait b i0))"

definition virtio_disk_rw :: "nat \<Rightarrow> bool \<Rightarrow> ('z bufst_scheme, unit) kmon" where
  "virtio_disk_rw b write' = bnd (lock_acquire LVdisk) (\<lambda>_. virtio_disk_start b write')"

text \<open>What a woken thread runs: after the first \<open>sleep\<close>, and after the second.\<close>

definition virtio_disk_start_resume :: "nat \<Rightarrow> bool \<Rightarrow> ('z bufst_scheme, unit) kmon" where
  "virtio_disk_start_resume b write' = bnd (sleep_resume LVdisk) (\<lambda>_. virtio_disk_start b write')"

definition virtio_disk_wait_resume :: "nat \<Rightarrow> nat \<Rightarrow> ('z bufst_scheme, unit) kmon" where
  "virtio_disk_wait_resume b i0 = bnd (sleep_resume LVdisk) (\<lambda>_. virtio_disk_wait b i0)"

subsection \<open>The interrupt handler\<close>

fun virtio_intr_loop :: "nat \<Rightarrow> ('z bufst_scheme, unit) kmon" where
  "virtio_intr_loop 0 = spins"
| "virtio_intr_loop (Suc n) =
     bnd (getv (\<lambda>d. v_used_idx d)) (\<lambda>used_idx.
     bnd (getv (\<lambda>d. u_idx (v_used d))) (\<lambda>idx.
     if used_idx = idx then ret () else
     bnd (getv (\<lambda>d. unat (u_ring (v_used d) (unat used_idx mod NUM)))) (\<lambda>id.
     if id \<ge> NUM then fault else
     bnd (getv (\<lambda>d. v_info d id)) (\<lambda>info.
     if i_status info \<noteq> 0 then panic ''virtio_disk_intr status'' else
     case i_b info of
       None \<Rightarrow> fault
     | Some b \<Rightarrow>
       bnd (setbuf b (\<lambda>r. r\<lparr>b_disk := False\<rparr>)) (\<lambda>_.
       bnd (wakeup (ChBuf b)) (\<lambda>_.
       bnd (setv (\<lambda>d. d\<lparr>v_used_idx := v_used_idx d + 1\<rparr>)) (\<lambda>_.
       virtio_intr_loop n)))))))"

text \<open>The counters are 16 bits wide, so \<open>2 ^ 16\<close> rounds reach the device's index.\<close>

definition virtio_disk_intr :: "(uint \<Rightarrow> uint) \<Rightarrow> ('z bufst_scheme, unit) kmon" where
  "virtio_disk_intr R =
     bnd (lock_acquire LVdisk) (\<lambda>_.
     bnd (wreg VIRTIO_MMIO_INTERRUPT_ACK (R VIRTIO_MMIO_INTERRUPT_STATUS AND 3)) (\<lambda>_.
     bnd (virtio_intr_loop (2 ^ 16)) (\<lambda>_.
     lock_release LVdisk)))"

section \<open>The contract of the driver\<close>

definition disk_rw :: "nat \<Rightarrow> bool \<Rightarrow> ('z bufst_scheme, unit) kmon" where
  "disk_rw b write' =
     bnd (getbuf b b_blockno) (\<lambda>blockno.
     if write' then
       bnd (getbuf b b_data) (\<lambda>data.
       modify (\<lambda>s. s\<lparr>dsk := (dsk s)(blockno := data), dwrites := dwrites s @ [(blockno, data)]\<rparr>))
     else
       bnd (gets (\<lambda>s. dsk s blockno)) (\<lambda>data.
       setbuf b (\<lambda>r. r\<lparr>b_data := data\<rparr>)))"

subsection \<open>Evaluation\<close>

lemma bnd_getbuf [simp]: "bnd (getbuf b f) k s = k (f (bufs s b)) s"
  by (simp add: getbuf_def)

lemma bnd_setbuf [simp]: "bnd (setbuf b f) k s = k () (s\<lparr>bufs := (bufs s)(b := f (bufs s b))\<rparr>)"
  by (simp add: setbuf_def)

lemma bnd_getv [simp]: "bnd (getv f) k s = k (f (vdisk s)) s"
  by (simp add: getv_def)

lemma bnd_setv [simp]: "bnd (setv f) k s = k () (s\<lparr>vdisk := f (vdisk s)\<rparr>)"
  by (simp add: setv_def)

lemma bnd_set_desc [simp]: "bnd (set_desc i v) k s = k () (s\<lparr>vdisk := (vdisk s)\<lparr>v_desc := (v_desc (vdisk s))(i := v)\<rparr>\<rparr>)"
  by (simp add: set_desc_def)

lemma bnd_wreg [simp]: "bnd (wreg r v) k s = k () (s\<lparr>vdisk := (vdisk s)\<lparr>v_wr := v_wr (vdisk s) @ [(r, v)]\<rparr>\<rparr>)"
  by (simp add: wreg_def)

lemma wp_getbuf [kwp, simp]: "wp (getbuf b f) Q s = Q (f (bufs s b)) s"
  by (simp add: getbuf_def)

lemma wp_setbuf [kwp, simp]: "wp (setbuf b f) Q s = Q () (s\<lparr>bufs := (bufs s)(b := f (bufs s b))\<rparr>)"
  by (simp add: setbuf_def)

section \<open>The driver implements its contract\<close>

text \<open>No request is in flight.\<close>

definition vq_idle :: "vdisk \<Rightarrow> bool" where
  "vq_idle d \<longleftrightarrow> (\<forall>i<NUM. v_free d i) \<and> v_used_idx d = u_idx (v_used d) \<and> a_idx (v_avail d) = u_idx (v_used d)"

text \<open>
  The device's side of the protocol, for one available request that is a chain of a header, the data
  of a buffer and a status byte: the device transfers the block, writes status 0 and puts the head
  of the chain in the used ring.
\<close>

definition request :: "vdisk \<Rightarrow> nat \<Rightarrow> nat \<Rightarrow> uint \<Rightarrow> bool \<Rightarrow> bool" where
  "request d i0 b blk write' \<longleftrightarrow>
     a_idx (v_avail d) = u_idx (v_used d) + 1 \<and> a_ring (v_avail d) (unat (u_idx (v_used d)) mod NUM) = of_nat i0 \<and> i0 < NUM \<and>
     d_addr (v_desc d i0) = AOps i0 \<and> d_addr (v_desc d (unat (d_next (v_desc d i0)))) = AData b \<and>
     d_addr (v_desc d (unat (d_next (v_desc d (unat (d_next (v_desc d i0))))))) = AStatus i0 \<and>
     r_sector (v_ops d i0) = 2 * ucast blk \<and> r_type (v_ops d i0) = (if write' then VIRTIO_BLK_T_OUT else VIRTIO_BLK_T_IN)"

definition served :: "nat \<Rightarrow> vdisk \<Rightarrow> vdisk" where
  "served i0 d = d\<lparr>v_info := (v_info d)(i0 := (v_info d i0)\<lparr>i_status := 0\<rparr>),
     v_used := \<lparr>u_idx = u_idx (v_used d) + 1,
       u_ring = (u_ring (v_used d))(unat (u_idx (v_used d)) mod NUM := of_nat i0)\<rparr>\<rparr>"

definition transfer :: "nat \<Rightarrow> uint \<Rightarrow> bool \<Rightarrow> 'z bufst_scheme \<Rightarrow> 'z bufst_scheme" where
  "transfer b blk write' s =
     (if write' then s\<lparr>dsk := (dsk s)(blk := b_data (bufs s b)), dwrites := dwrites s @ [(blk, b_data (bufs s b))]\<rparr>
      else s\<lparr>bufs := (bufs s)(b := (bufs s b)\<lparr>b_data := dsk s blk\<rparr>)\<rparr>)"

definition virtio_device :: "('z bufst_scheme \<Rightarrow> 'z bufst_scheme) \<Rightarrow> bool" where
  "virtio_device dev \<longleftrightarrow> (\<forall>s i0 b blk write'. request (vdisk s) i0 b blk write' \<longrightarrow>
     dev s = (transfer b blk write' s)\<lparr>vdisk := served i0 (vdisk s)\<rparr>)"

lemma disk_rw_transfer: "disk_rw b write' s = Done () (transfer b (b_blockno (bufs s b)) write' s)"
  by (simp add: disk_rw_def transfer_def setbuf_def)

lemma b_disk_id: "\<not> b_disk r \<Longrightarrow> r\<lparr>b_disk := False\<rparr> = (r :: buf)"
  by (cases r) simp

lemma alloc3_desc_idle:
  assumes "\<forall>i<NUM. v_free (vdisk s) i"
  shows "alloc3_desc s = Done (Some (0, 1, 2)) (s\<lparr>vdisk := (vdisk s)\<lparr>v_free := (v_free (vdisk s))
    (0 := False, 1 := False, 2 := False)\<rparr>\<rparr>)"
  using assms by (simp add: alloc3_desc_def alloc_desc_def upt_rec numeral_2_eq_2)

text \<open>The state of the queue after the three descriptors of a request are filled.\<close>

definition queued :: "nat \<Rightarrow> uint \<Rightarrow> bool \<Rightarrow> vdisk \<Rightarrow> vdisk" where
  "queued b blk write' d = d\<lparr>
     v_free := (v_free d)(0 := False, 1 := False, 2 := False),
     v_ops := (v_ops d)(0 := \<lparr>r_type = (if write' then VIRTIO_BLK_T_OUT else VIRTIO_BLK_T_IN), r_reserved = 0, r_sector = ucast (blk * 2)\<rparr>),
     v_desc := (v_desc d)(0 := \<lparr>d_addr = AOps 0, d_len = 16, d_flags = VRING_DESC_F_NEXT, d_next = 1\<rparr>,
       1 := \<lparr>d_addr = AData b, d_len = of_nat BSIZE, d_flags = (if write' then 0 else VRING_DESC_F_WRITE) OR VRING_DESC_F_NEXT, d_next = 2\<rparr>,
       2 := \<lparr>d_addr = AStatus 0, d_len = 1, d_flags = VRING_DESC_F_WRITE, d_next = 0\<rparr>),
     v_info := (v_info d)(0 := (v_info d 0)\<lparr>i_status := 0xff, i_b := Some b\<rparr>),
     v_avail := (v_avail d)\<lparr>a_ring := (a_ring (v_avail d))(unat (a_idx (v_avail d)) mod NUM := 0), a_idx := a_idx (v_avail d) + 1\<rparr>,
     v_wr := v_wr d @ [(VIRTIO_MMIO_QUEUE_NOTIFY, 0)]\<rparr>"

lemma fill_desc_queued:
  "bnd (fill_desc b write' 0 1 2) k (s\<lparr>vdisk := (vdisk s)\<lparr>v_free := (v_free (vdisk s))(0 := False, 1 := False, 2 := False)\<rparr>\<rparr>) =
     k () (s\<lparr>bufs := (bufs s)(b := (bufs s b)\<lparr>b_disk := True\<rparr>), vdisk := queued b (b_blockno (bufs s b)) write' (vdisk s)\<rparr>)"
  by (simp add: fill_desc_def Let_def bnd_assoc queued_def)

lemma virtio_disk_rw_waits:
  assumes "vq_idle (vdisk s)" "on_cpu p i s" "held s = []"
  shows "virtio_disk_rw b write' s = Asleep (s\<lparr>held := [LProc p],
    bufs := (bufs s)(b := (bufs s b)\<lparr>b_disk := True\<rparr>), vdisk := queued b (b_blockno (bufs s b)) write' (vdisk s),
    procs := (procs s)(p := upd_thread i (\<lambda>r. r\<lparr>t_chan := ChBuf b, t_state := t_SLEEPING\<rparr>) (procs s p))\<rparr>)"
proof -
  let ?s = "s\<lparr>held := [LVdisk]\<rparr>"
  let ?t = "?s\<lparr>bufs := (bufs s)(b := (bufs s b)\<lparr>b_disk := True\<rparr>), vdisk := queued b (b_blockno (bufs s b)) write' (vdisk s)\<rparr>"
  have "alloc3_desc ?s = Done (Some (0, 1, 2)) (?s\<lparr>vdisk := (vdisk ?s)\<lparr>v_free := (v_free (vdisk ?s))(0 := False, 1 := False, 2 := False)\<rparr>\<rparr>)"
    using assms(1) by (intro alloc3_desc_idle) (simp add: vq_idle_def)
  then have "virtio_disk_rw b write' s = virtio_disk_wait b 0 ?t"
    using assms(3) fill_desc_queued [of b write' "\<lambda>_. virtio_disk_wait b 0" ?s]
    by (simp add: virtio_disk_rw_def virtio_disk_start_def)
  also have "\<dots> = sleep (ChBuf b) LVdisk ?t" by (simp add: virtio_disk_wait_def)
  also have "\<dots> = Asleep (?t\<lparr>held := LProc p # remove1 LVdisk (held ?t),
    procs := (procs ?t)(p := upd_thread i (\<lambda>r. r\<lparr>t_chan := ChBuf b, t_state := t_SLEEPING\<rparr>) (procs ?t p))\<rparr>)"
    using assms(2) by (intro sleep_run) (simp_all add: on_cpu_def)
  finally show ?thesis by simp
qed

lemma ucast_double:
  assumes "unat (blk :: uint) < 2 ^ 31"
  shows "(ucast (blk * 2) :: uint64) = 2 * ucast blk"
  using assms by (simp add: word_eq_unat unsigned_ucast_eq unat_word_ariths take_bit_eq_mod)

lemma queued_request:
  assumes "vq_idle d" "unat blk < 2 ^ 31"
  shows "request (queued b blk write' d) 0 b blk write'"
  using assms by (simp add: request_def queued_def vq_idle_def ucast_double)

lemma virtio_disk_intr_done:
  assumes "v_used_idx (vdisk s) = x" "u_idx (v_used (vdisk s)) = x + 1" "u_ring (v_used (vdisk s)) (unat x mod NUM) = 0"
    and "v_info (vdisk s) 0 = \<lparr>i_b = Some b, i_status = 0\<rparr>" "held s = []"
  shows "virtio_disk_intr R s = Done () (s\<lparr>bufs := (bufs s)(b := (bufs s b)\<lparr>b_disk := False\<rparr>),
    procs := wake_all (ChBuf b) NPROC (procs s),
    vdisk := (vdisk s)\<lparr>v_wr := v_wr (vdisk s) @ [(VIRTIO_MMIO_INTERRUPT_ACK, R VIRTIO_MMIO_INTERRUPT_STATUS AND 3)],
      v_used_idx := x + 1\<rparr>\<rparr>)"
proof -
  obtain n where n: "(2 :: nat) ^ 16 = Suc (Suc n)" by (rule that [of 65534]) simp
  have "no_proc_lock (t\<lparr>held := [LVdisk]\<rparr>)" for t :: "'a bufst_scheme" by (simp add: no_proc_lock_def)
  then show ?thesis
    unfolding virtio_disk_intr_def n using assms by (simp add: no_proc_lock_def run_lock_release)
qed

text \<open>Freeing the chain of a finished request.\<close>

lemma free_desc_run:
  assumes "i < NUM" "\<not> v_free (vdisk s) i" "no_proc_lock s"
  shows "free_desc i s = Done () (s\<lparr>procs := wake_all ChDesc NPROC (procs s),
    vdisk := (vdisk s)\<lparr>v_desc := (v_desc (vdisk s))(i := \<lparr>d_addr = ANull, d_len = 0, d_flags = 0, d_next = 0\<rparr>),
      v_free := (v_free (vdisk s))(i := True)\<rparr>\<rparr>)"
  using assms wakeup_eq [of "s\<lparr>vdisk := (vdisk s)\<lparr>v_desc := (v_desc (vdisk s))(i := \<lparr>d_addr = ANull, d_len = 0, d_flags = 0, d_next = 0\<rparr>),
      v_free := (v_free (vdisk s))(i := True)\<rparr>\<rparr>" ChDesc]
  by (simp add: free_desc_def no_proc_lock_def)

text \<open>Two disk states that agree but for processes that were woken and the driver's own records.\<close>

lemma wake_all_idem [simp]: "wake_all ch n (wake_all ch n ps) = wake_all ch n ps"
  by (auto simp: wake_all_def fun_eq_iff map_threads_def wake_def)

lemma free_chain_run:
  assumes "no_proc_lock s" "d_next (v_desc (vdisk s) 0) = 1" "d_next (v_desc (vdisk s) 1) = 2"
    and "d_flags (v_desc (vdisk s) 0) AND 1 \<noteq> 0" "d_flags (v_desc (vdisk s) 1) AND 1 \<noteq> 0" "d_flags (v_desc (vdisk s) 2) AND 1 = 0"
    and "\<not> v_free (vdisk s) 0" "\<not> v_free (vdisk s) 1" "\<not> v_free (vdisk s) 2"
  shows "\<exists>t. free_chain 0 s = Done () (s\<lparr>procs := wake_all ChDesc NPROC (procs s), vdisk := t\<rparr>) \<and>
    v_free t = (v_free (vdisk s))(0 := True, 1 := True, 2 := True) \<and> v_used t = v_used (vdisk s) \<and>
    v_avail t = v_avail (vdisk s) \<and> v_used_idx t = v_used_idx (vdisk s)"
proof -
  obtain n where n: "Suc NUM = Suc (Suc (Suc n))" by (rule that [of 6]) simp
  define nul where "nul = \<lparr>d_addr = ANull, d_len = 0, d_flags = 0, d_next = 0\<rparr>"
  show ?thesis unfolding free_chain_def n using assms
    by (intro exI [of _ "(vdisk s)\<lparr>v_desc := (v_desc (vdisk s))(0 := nul, 1 := nul, 2 := nul),
      v_free := (v_free (vdisk s))(0 := True, 1 := True, 2 := True)\<rparr>"])
      (simp add: free_desc_run no_proc_lock_def nul_def)
qed

lemma wake_asleep:
  assumes "p < NPROC" "i < NTHREAD"
  shows "t_state (thread_tbl (wake_all ch NPROC (ps(p := upd_thread i (\<lambda>r. r\<lparr>t_chan := ch, t_state := t_SLEEPING\<rparr>) (ps p))) p) i) = t_RUNNABLE"
  using assms by (simp add: wake_all_def map_threads_def wake_def)


text \<open>A device that serves the next available request.\<close>

definition demo_device :: "'z bufst_scheme \<Rightarrow> 'z bufst_scheme" where
  "demo_device s =
     (let d = vdisk s; i0 = unat (a_ring (v_avail d) (unat (u_idx (v_used d)) mod NUM));
          b = (case d_addr (v_desc d (unat (d_next (v_desc d i0)))) of AData b \<Rightarrow> b | _ \<Rightarrow> 0)
      in (transfer b (ucast (r_sector (v_ops d i0) div 2)) (r_type (v_ops d i0) = VIRTIO_BLK_T_OUT) s)\<lparr>vdisk := served i0 d\<rparr>)"

lemma ucast_half: "ucast ((2 * ucast (blk :: uint) :: uint64) div 2) = blk"
proof -
  have unat_less: "unat blk < 2 ^ 32" using unsigned_less [of blk] by simp
  then have "unat (2 * ucast blk :: uint64) = 2 * unat blk"
    by (simp add: unat_word_ariths unsigned_ucast_eq take_bit_eq_mod)
  then show ?thesis
    using unat_less by (simp add: word_eq_unat unat_div unsigned_ucast_eq take_bit_eq_mod)
qed

lemma demo_device_ok: "virtio_device demo_device"
proof -
  have "unat (of_nat i0 :: uint16) = i0" if "i0 < 8" for i0 using that by (simp add: unat_of_nat)
  then show ?thesis
    by (auto simp: virtio_device_def demo_device_def request_def Let_def ucast_half)
qed

definition demo_vdisk :: vdisk where
  "demo_vdisk = \<lparr>v_desc = (\<lambda>_. \<lparr>d_addr = ANull, d_len = 0, d_flags = 0, d_next = 0\<rparr>),
     v_avail = \<lparr>a_idx = 0, a_ring = (\<lambda>_. 0)\<rparr>, v_used = \<lparr>u_idx = 0, u_ring = (\<lambda>_. 0)\<rparr>, v_free = (\<lambda>_. True),
     v_used_idx = 0, v_info = (\<lambda>_. \<lparr>i_b = None, i_status = 0\<rparr>),
     v_ops = (\<lambda>_. \<lparr>r_type = 0, r_reserved = 0, r_sector = 0\<rparr>), v_wr = []\<rparr>"

definition demo_buf :: buf where
  "demo_buf = \<lparr>b_valid = False, b_disk = False, b_dev = 0, b_blockno = 7, b_refcnt = 0, b_prev = 0, b_next = 0,
     b_data = (\<lambda>_. 0)\<rparr>"

definition demo_bufst :: bufst where
  "demo_bufst = pipest.extend demo_pipest \<lparr>bufs = (\<lambda>_. demo_buf), vdisk = demo_vdisk, dsk = (\<lambda>_ _. 0x5A), dwrites = []\<rparr>"

lemma demo_bufst_simps:
  "held demo_bufst = []" "on_cpu 1 0 demo_bufst" "vdisk demo_bufst = demo_vdisk" "bufs demo_bufst = (\<lambda>_. demo_buf)"
  "dsk demo_bufst = (\<lambda>_ _. 0x5A)"
  by (simp_all add: demo_bufst_def pipest.defs demo_pipest_simps)
    (simp add: demo_bufst_def pipest.defs demo_pipest_def demo_slst_def demo_bst_def demo_pst_def slst.defs bst.defs pst.defs on_cpu_def)


end
