(* ===== verification/Xv6_Bio.thy ===== *)
theory Xv6_Bio
  imports Xv6_Virtio
begin

text \<open>
  The buffer cache (\<^verbatim>\<open>kernel/bio.c\<close>). The buffers form a doubly linked list through the indices
  \<open>b_prev\<close> and \<open>b_next\<close>, with \<open>NBUF\<close> for \<open>bcache.head\<close>, as in the source. The loops over the list
  run at most \<open>NBUF + 1\<close> rounds; a list that does not come back to the head would loop for ever
  (\<open>Spins\<close>), which the invariant excludes.
\<close>

section \<open>kernel/bio.c\<close>

definition binit :: "('z bufst_scheme, unit) kmon" where
  "binit =
     bnd (setbuf NBUF (\<lambda>h. h\<lparr>b_prev := NBUF, b_next := NBUF\<rparr>)) (\<lambda>_.
     for_each [0..<NBUF] (\<lambda>b.
       bnd (getbuf NBUF b_next) (\<lambda>hn.
       bnd (setbuf b (\<lambda>r. r\<lparr>b_next := hn\<rparr>)) (\<lambda>_.
       bnd (setbuf b (\<lambda>r. r\<lparr>b_prev := NBUF\<rparr>)) (\<lambda>_.
       bnd (initsleeplock (SBuf b)) (\<lambda>_.
       bnd (getbuf NBUF b_next) (\<lambda>hn.
       bnd (setbuf hn (\<lambda>r. r\<lparr>b_prev := b\<rparr>)) (\<lambda>_.
       setbuf NBUF (\<lambda>h. h\<lparr>b_next := b\<rparr>)))))))))"

fun bget_cached :: "nat \<Rightarrow> uint \<Rightarrow> uint \<Rightarrow> nat \<Rightarrow> ('z bufst_scheme, nat option) kmon" where
  "bget_cached 0 dev blockno b = spins"
| "bget_cached (Suc n) dev blockno b =
     (if b = NBUF then ret None else
      bnd (getbuf b (\<lambda>r. r)) (\<lambda>r.
      if b_dev r = dev \<and> b_blockno r = blockno then ret (Some b) else bget_cached n dev blockno (b_next r)))"

fun bget_unused :: "nat \<Rightarrow> nat \<Rightarrow> ('z bufst_scheme, nat option) kmon" where
  "bget_unused 0 b = spins"
| "bget_unused (Suc n) b =
     (if b = NBUF then ret None else
      bnd (getbuf b (\<lambda>r. r)) (\<lambda>r.
      if b_refcnt r = 0 then ret (Some b) else bget_unused n (b_prev r)))"

definition bget :: "uint \<Rightarrow> uint \<Rightarrow> ('z bufst_scheme, nat) kmon" where
  "bget dev blockno =
     bnd (lock_acquire LBcache) (\<lambda>_.
     bnd (getbuf NBUF b_next) (\<lambda>first.
     bnd (bget_cached (Suc NBUF) dev blockno first) (\<lambda>r.
     case r of
       Some b \<Rightarrow>
         bnd (setbuf b (\<lambda>r. r\<lparr>b_refcnt := b_refcnt r + 1\<rparr>)) (\<lambda>_.
         bnd (lock_release LBcache) (\<lambda>_.
         bnd (acquiresleep (SBuf b)) (\<lambda>_.
         ret b)))
     | None \<Rightarrow>
         bnd (getbuf NBUF b_prev) (\<lambda>last.
         bnd (bget_unused (Suc NBUF) last) (\<lambda>r.
         case r of
           Some b \<Rightarrow>
             bnd (setbuf b (\<lambda>r. r\<lparr>b_dev := dev, b_blockno := blockno, b_valid := False, b_refcnt := 1\<rparr>)) (\<lambda>_.
             bnd (lock_release LBcache) (\<lambda>_.
             bnd (acquiresleep (SBuf b)) (\<lambda>_.
             ret b)))
         | None \<Rightarrow> panic ''bget: no buffers'')))))"

definition bread :: "uint \<Rightarrow> uint \<Rightarrow> ('z bufst_scheme, nat) kmon" where
  "bread dev blockno =
     bnd (bget dev blockno) (\<lambda>b.
     bnd (getbuf b b_valid) (\<lambda>valid.
     if valid then ret b else
     bnd (disk_rw b False) (\<lambda>_.
     bnd (setbuf b (\<lambda>r. r\<lparr>b_valid := True\<rparr>)) (\<lambda>_.
     ret b))))"

definition bwrite :: "nat \<Rightarrow> ('z bufst_scheme, unit) kmon" where
  "bwrite b =
     bnd (holdingsleep (SBuf b)) (\<lambda>h.
     if \<not> h then panic ''bwrite'' else disk_rw b True)"

text \<open>The pointer updates of \<open>brelse\<close>, one by one.\<close>

definition move_to_head :: "nat \<Rightarrow> ('z bufst_scheme, unit) kmon" where
  "move_to_head b =
     bnd (getbuf b (\<lambda>r. r)) (\<lambda>r.
     bnd (setbuf (b_next r) (\<lambda>x. x\<lparr>b_prev := b_prev r\<rparr>)) (\<lambda>_.
     bnd (getbuf b (\<lambda>r. r)) (\<lambda>r.
     bnd (setbuf (b_prev r) (\<lambda>x. x\<lparr>b_next := b_next r\<rparr>)) (\<lambda>_.
     bnd (getbuf NBUF b_next) (\<lambda>hn.
     bnd (setbuf b (\<lambda>x. x\<lparr>b_next := hn\<rparr>)) (\<lambda>_.
     bnd (setbuf b (\<lambda>x. x\<lparr>b_prev := NBUF\<rparr>)) (\<lambda>_.
     bnd (getbuf NBUF b_next) (\<lambda>hn.
     bnd (setbuf hn (\<lambda>x. x\<lparr>b_prev := b\<rparr>)) (\<lambda>_.
     setbuf NBUF (\<lambda>x. x\<lparr>b_next := b\<rparr>))))))))))"

definition brelse :: "nat \<Rightarrow> ('z bufst_scheme, unit) kmon" where
  "brelse b =
     bnd (holdingsleep (SBuf b)) (\<lambda>h.
     if \<not> h then panic ''brelse'' else
     bnd (releasesleep (SBuf b)) (\<lambda>_.
     bnd (lock_acquire LBcache) (\<lambda>_.
     bnd (setbuf b (\<lambda>r. r\<lparr>b_refcnt := b_refcnt r - 1\<rparr>)) (\<lambda>_.
     bnd (getbuf b b_refcnt) (\<lambda>n.
     bnd (if n = 0 then move_to_head b else ret ()) (\<lambda>_.
     lock_release LBcache))))))"

definition bpin :: "nat \<Rightarrow> ('z bufst_scheme, unit) kmon" where
  "bpin b =
     bnd (lock_acquire LBcache) (\<lambda>_.
     bnd (setbuf b (\<lambda>r. r\<lparr>b_refcnt := b_refcnt r + 1\<rparr>)) (\<lambda>_.
     lock_release LBcache))"

definition bunpin :: "nat \<Rightarrow> ('z bufst_scheme, unit) kmon" where
  "bunpin b =
     bnd (lock_acquire LBcache) (\<lambda>_.
     bnd (setbuf b (\<lambda>r. r\<lparr>b_refcnt := b_refcnt r - 1\<rparr>)) (\<lambda>_.
     lock_release LBcache))"

section \<open>The list of buffers\<close>

text \<open>\<open>links nx pv a xs z\<close>: the pointers lead from \<open>a\<close> through \<open>xs\<close> to \<open>z\<close> and back.\<close>

fun links :: "(nat \<Rightarrow> nat) \<Rightarrow> (nat \<Rightarrow> nat) \<Rightarrow> nat \<Rightarrow> nat list \<Rightarrow> nat \<Rightarrow> bool" where
  "links nx pv a [] z \<longleftrightarrow> nx a = z \<and> pv z = a"
| "links nx pv a (x # xs) z \<longleftrightarrow> nx a = x \<and> pv x = a \<and> links nx pv x xs z"

lemma links_append:
  "links nx pv a (xs @ x # ys) z \<longleftrightarrow> links nx pv a xs x \<and> links nx pv x ys z"
  by (induction xs arbitrary: a) auto

lemma links_rev: "links nx pv a xs z \<Longrightarrow> links pv nx z (rev xs) a"
proof (induction xs arbitrary: a)
  case Nil
  then show ?case by simp
next
  case (Cons x xs)
  then show ?case using links_append [of pv nx z "rev xs" x "[]" a] by simp
qed

lemma links_next: "links nx pv a xs z \<Longrightarrow> nx a = hd (xs @ [z])" "links nx pv a xs z \<Longrightarrow> pv z = last (a # xs)"
proof -
  show "links nx pv a xs z \<Longrightarrow> nx a = hd (xs @ [z])" by (cases xs) auto
  show "links nx pv a xs z \<Longrightarrow> pv z = last (a # xs)" by (induction xs arbitrary: a) auto
qed

lemma links_cong:
  assumes "links nx pv a xs z" "\<And>i. i \<in> insert a (set xs) \<Longrightarrow> nx' i = nx i" "\<And>i. i \<in> insert z (set xs) \<Longrightarrow> pv' i = pv i"
  shows "links nx' pv' a xs z"
  using assms by (induction xs arbitrary: a) auto

lemma links_end:
  assumes "links nx pv a xs z" "distinct (a # xs)" "y \<notin> set xs"
  shows "links (nx(last (a # xs) := y)) (pv(y := last (a # xs))) a xs y"
  using assms
proof (induction xs arbitrary: a)
  case Nil
  then show ?case by simp
next
  case (Cons x xs)
  have "links (nx(last (x # xs) := y)) (pv(y := last (x # xs))) x xs y"
    using Cons.prems by (intro Cons.IH) auto
  moreover have "last (x # xs) \<noteq> a" using Cons.prems(2) last_in_set [of "x # xs"] by auto
  ultimately show ?case using Cons.prems by (simp del: last.simps fun_upd_apply) (simp add: fun_upd_def)
qed

text \<open>Taking a buffer out of the list, and putting one at its front.\<close>

lemma links_unlink:
  assumes "links nx pv a (xs @ b # ys) z" "distinct (a # xs @ b # ys)" "z \<notin> set (xs @ b # ys)"
  shows "links (nx(pv b := nx b)) (pv(nx b := pv b)) a (xs @ ys) z"
proof (cases ys)
  case Nil
  have l: "links nx pv a xs b" "nx b = z" "pv b = last (a # xs)"
    using assms(1) links_next(2) [of nx pv a xs b] by (auto simp: Nil links_append)
  show ?thesis using links_end [OF l(1), of z] assms(2,3) l(2,3) by (simp add: Nil)
next
  case (Cons y zs)
  have l: "links nx pv a xs b" "nx b = y" "pv b = last (a # xs)" "links nx pv y zs z"
    using assms(1) links_next(2) [of nx pv a xs b] by (auto simp: Cons links_append)
  have p: "last (a # xs) \<in> insert a (set xs)" using last_in_set [of "a # xs"] by simp
  have "links (nx(pv b := nx b)) (pv(nx b := pv b)) y zs z"
    using l(4) p assms(2,3) by (intro links_cong [OF l(4)]) (auto simp: l Cons)
  moreover have "links (nx(pv b := nx b)) (pv(nx b := pv b)) a xs y"
    using links_end [OF l(1), of y] assms(2) l(2,3) by (simp add: Cons)
  ultimately show ?thesis by (simp add: Cons links_append)
qed

lemma links_push:
  assumes "links nx pv a ps z" "distinct ps" "b \<notin> set ps" "a \<notin> set ps" "z \<notin> set ps" "b \<noteq> a" "b \<noteq> z"
  shows "links (nx(b := nx a, a := b)) (pv(b := a, nx a := b)) a (b # ps) z"
proof (cases ps)
  case Nil
  then show ?thesis using assms by auto
next
  case (Cons x xs)
  then have "links nx pv x xs z" "nx a = x" using assms(1) by auto
  moreover have "links (nx(b := nx a, a := b)) (pv(b := a, nx a := b)) x xs z"
    using assms Cons by (intro links_cong [OF \<open>links nx pv x xs z\<close>]) auto
  ultimately show ?thesis using assms Cons by auto
qed

abbreviation nextp :: "'z bufst_scheme \<Rightarrow> nat \<Rightarrow> nat" where
  "nextp s \<equiv> \<lambda>i. b_next (bufs s i)"

abbreviation prevp :: "'z bufst_scheme \<Rightarrow> nat \<Rightarrow> nat" where
  "prevp s \<equiv> \<lambda>i. b_prev (bufs s i)"

text \<open>The buffers in the order of the list: each once, most recently used first.\<close>

definition dll :: "nat list \<Rightarrow> 'z bufst_scheme \<Rightarrow> bool" where
  "dll ps s \<longleftrightarrow> links (nextp s) (prevp s) NBUF ps NBUF \<and> distinct ps \<and> set ps = {..<NBUF}"

lemma dll_length: "dll ps s \<Longrightarrow> length ps = NBUF"
  using distinct_card [of ps] by (simp add: dll_def)

lemma bget_cached_find:
  assumes "links (nextp s) pv a xs NBUF" "NBUF \<notin> set xs" "length xs < n"
  shows "bget_cached n dev blockno (b_next (bufs s a)) s =
    Done (List.find (\<lambda>b. b_dev (bufs s b) = dev \<and> b_blockno (bufs s b) = blockno) xs) s"
  using assms
proof (induction xs arbitrary: a n)
  case Nil
  then show ?case by (cases n) (auto simp: ret_def)
next
  case (Cons x xs)
  obtain m where n: "n = Suc m" "length xs < m" using Cons.prems(3) by (cases n) auto
  have "bget_cached m dev blockno (b_next (bufs s x)) s =
    Done (List.find (\<lambda>b. b_dev (bufs s b) = dev \<and> b_blockno (bufs s b) = blockno) xs) s"
    using Cons.prems n by (intro Cons.IH) auto
  then show ?case using Cons.prems by (simp add: n)
qed

lemma bget_unused_find:
  assumes "links (prevp s) nx a xs NBUF" "NBUF \<notin> set xs" "length xs < n"
  shows "bget_unused n (b_prev (bufs s a)) s = Done (List.find (\<lambda>b. b_refcnt (bufs s b) = 0) xs) s"
  using assms
proof (induction xs arbitrary: a n)
  case Nil
  then show ?case by (cases n) (auto simp: ret_def)
next
  case (Cons x xs)
  obtain m where n: "n = Suc m" "length xs < m" using Cons.prems(3) by (cases n) auto
  have "bget_unused m (b_prev (bufs s x)) s = Done (List.find (\<lambda>b. b_refcnt (bufs s b) = 0) xs) s"
    using Cons.prems n by (intro Cons.IH) auto
  then show ?case using Cons.prems by (simp add: n)
qed

lemma find_unique:
  assumes "set xs = set ys" "\<And>x y. x \<in> set xs \<Longrightarrow> y \<in> set xs \<Longrightarrow> P x \<Longrightarrow> P y \<Longrightarrow> x = y"
  shows "List.find P xs = List.find P ys"
proof (cases "List.find P xs")
  case None
  then show ?thesis using assms(1) by (metis find_None_iff)
next
  case (Some x)
  then have x: "x \<in> set xs" "P x" by (auto dest: find_SomeD)
  then have "List.find P ys \<noteq> None" using assms(1) by (metis find_None_iff)
  then obtain y where "List.find P ys = Some y" by blast
  then show ?thesis using Some x assms find_SomeD [of P ys y] by auto
qed

lemma bnd_holdingsleep [simp]:
  "LSleep l \<notin> set (held s) \<Longrightarrow> cproc s = Some p \<Longrightarrow>
    bnd (holdingsleep l) k s = k (sl_locked (slk s l) \<and> sl_pid (slk s l) = p_pid (procs s p)) s"
  using holdingsleep_run [of l s p] by simp

definition set_next :: "nat \<Rightarrow> nat \<Rightarrow> (nat \<Rightarrow> buf) \<Rightarrow> nat \<Rightarrow> buf" where
  "set_next x v B = B(x := (B x)\<lparr>b_next := v\<rparr>)"

definition set_prev :: "nat \<Rightarrow> nat \<Rightarrow> (nat \<Rightarrow> buf) \<Rightarrow> nat \<Rightarrow> buf" where
  "set_prev x v B = B(x := (B x)\<lparr>b_prev := v\<rparr>)"

lemma set_links [simp]:
  "(\<lambda>i. b_next (set_next x v B i)) = (\<lambda>i. b_next (B i))(x := v)" "(\<lambda>i. b_prev (set_next x v B i)) = (\<lambda>i. b_prev (B i))"
  "(\<lambda>i. b_prev (set_prev x v B i)) = (\<lambda>i. b_prev (B i))(x := v)" "(\<lambda>i. b_next (set_prev x v B i)) = (\<lambda>i. b_next (B i))"
  "b_next (set_next x v B i) = (if i = x then v else b_next (B i))" "b_prev (set_next x v B i) = b_prev (B i)"
  "b_prev (set_prev x v B i) = (if i = x then v else b_prev (B i))" "b_next (set_prev x v B i) = b_next (B i)"
  by (auto simp: set_next_def set_prev_def fun_eq_iff)

lemma setbuf_run:
  "wp (setbuf x (\<lambda>r. r\<lparr>b_next := v\<rparr>)) Q s = Q () (s\<lparr>bufs := set_next x v (bufs s)\<rparr>)"
  "wp (setbuf x (\<lambda>r. r\<lparr>b_prev := v\<rparr>)) Q s = Q () (s\<lparr>bufs := set_prev x v (bufs s)\<rparr>)"
  by (simp_all add: set_next_def set_prev_def)

definition same_but_links :: "(nat \<Rightarrow> buf) \<Rightarrow> (nat \<Rightarrow> buf) \<Rightarrow> bool" where
  "same_but_links B B' \<longleftrightarrow> (\<forall>i. (B' i)\<lparr>b_next := 0, b_prev := 0\<rparr> = (B i)\<lparr>b_next := 0, b_prev := 0\<rparr>)"

lemma same_but_links_refl: "same_but_links B B"
  by (simp add: same_but_links_def)

lemma same_but_links_next: "same_but_links B B' \<Longrightarrow> same_but_links B (set_next x v B')"
  by (simp add: same_but_links_def set_next_def)

lemma same_but_links_prev: "same_but_links B B' \<Longrightarrow> same_but_links B (set_prev x v B')"
  by (simp add: same_but_links_def set_prev_def)

lemma same_but_linksD:
  assumes "same_but_links B B'"
  shows "b_valid (B' i) = b_valid (B i)" "b_disk (B' i) = b_disk (B i)" "b_dev (B' i) = b_dev (B i)"
    "b_blockno (B' i) = b_blockno (B i)" "b_refcnt (B' i) = b_refcnt (B i)" "b_data (B' i) = b_data (B i)"
proof -
  have e: "(B' i)\<lparr>b_next := 0, b_prev := 0\<rparr> = (B i)\<lparr>b_next := 0, b_prev := 0\<rparr>" using assms by (simp add: same_but_links_def)
  show "b_valid (B' i) = b_valid (B i)" "b_disk (B' i) = b_disk (B i)" "b_dev (B' i) = b_dev (B i)"
    "b_blockno (B' i) = b_blockno (B i)" "b_refcnt (B' i) = b_refcnt (B i)" "b_data (B' i) = b_data (B i)"
    using arg_cong [OF e, of b_valid] arg_cong [OF e, of b_disk] arg_cong [OF e, of b_dev] arg_cong [OF e, of b_blockno]
      arg_cong [OF e, of b_refcnt] arg_cong [OF e, of b_data] by simp_all
qed

text \<open>\<open>brelse\<close> moves the buffer to the front of the list and keeps the order of the others.\<close>

lemma move_to_head_run:
  assumes "dll (xs @ b # ys) s"
  shows "wp (move_to_head b) (\<lambda>_ t. dll (b # xs @ ys) t \<and> t = s\<lparr>bufs := bufs t\<rparr> \<and>
    same_but_links (bufs s) (bufs t)) s"
proof -
  let ?h = NBUF
  have l: "links (nextp s) (prevp s) ?h (xs @ b # ys) ?h" and d: "distinct (xs @ b # ys)"
    and st: "set (xs @ b # ys) = {..<?h}" using assms by (auto simp: dll_def)
  have h: "?h \<notin> set (xs @ b # ys)" "b \<noteq> ?h" using st by auto
  define nx1 where "nx1 = (nextp s)(b_prev (bufs s b) := b_next (bufs s b))"
  define pv1 where "pv1 = (prevp s)(b_next (bufs s b) := b_prev (bufs s b))"
  have l1: "links nx1 pv1 ?h (xs @ ys) ?h"
    unfolding nx1_def pv1_def using links_unlink [OF l] d h by simp
  have l2: "links (nx1(b := nx1 ?h, ?h := b)) (pv1(b := ?h, nx1 ?h := b)) ?h (b # xs @ ys) ?h"
    using d h by (intro links_push [OF l1]) auto
  have "b_next (bufs s b) = hd (ys @ [?h])" "b_prev (bufs s b) = last (?h # xs)"
    using l links_next [of "nextp s" "prevp s" b ys ?h] links_next [of "nextp s" "prevp s" ?h xs b]
    by (auto simp: links_append)
  moreover have "hd (ys @ [?h]) \<in> insert ?h (set ys)" "last (?h # xs) \<in> insert ?h (set xs)"
    using last_in_set [of "?h # xs"] by (cases ys; simp)+
  ultimately have bn: "b_next (bufs s b) \<noteq> b" "b_prev (bufs s b) \<noteq> b" using d h(2) by auto
  define B1 where "B1 = set_prev (b_next (bufs s b)) (b_prev (bufs s b)) (bufs s)"
  define B2 where "B2 = set_next (b_prev (B1 b)) (b_next (B1 b)) B1"
  define B3 where "B3 = set_next b (b_next (B2 ?h)) B2"
  define B4 where "B4 = set_prev b ?h B3"
  define B5 where "B5 = set_prev (b_next (B4 ?h)) b B4"
  define B6 where "B6 = set_next ?h b B5"
  have "wp (move_to_head b) (\<lambda>_ t. t = s\<lparr>bufs := B6\<rparr>) s"
    unfolding move_to_head_def
    by (simp add: setbuf_run del: wp_setbuf NBUF_def set_links flip: B1_def B2_def B3_def B4_def B5_def B6_def)
  moreover have "(\<lambda>i. b_next (B2 i)) = nx1" "(\<lambda>i. b_prev (B2 i)) = pv1"
    using bn by (auto simp: B2_def B1_def nx1_def pv1_def)
  then have "(\<lambda>i. b_next (B6 i)) = nx1(b := nx1 ?h, ?h := b)" "(\<lambda>i. b_prev (B6 i)) = pv1(b := ?h, nx1 ?h := b)"
    using h(2) by (auto simp: B6_def B5_def B4_def B3_def)
  then have "dll (b # xs @ ys) (s\<lparr>bufs := B6\<rparr>)" using l2 d st by (simp add: dll_def)
  moreover have "same_but_links (bufs s) B6"
    unfolding B1_def B2_def B3_def B4_def B5_def B6_def by (intro same_but_links_next same_but_links_prev same_but_links_refl)
  ultimately show ?thesis by (elim wp_mono) simp
qed

text \<open>\<open>binit\<close> builds the list.\<close>

lemma wp_initsleeplock [kwp, simp]:
  "wp (initsleeplock l) Q s = Q () (s\<lparr>slk := (slk s)(l := \<lparr>sl_locked = False, sl_pid = 0\<rparr>)\<rparr>)"
  by (simp add: initsleeplock_def)

lemma wp_binit:
  "wp binit (\<lambda>_ t. dll (rev [0..<NBUF]) t \<and> same_but_links (bufs s) (bufs t) \<and> (\<forall>b<NBUF. \<not> sl_locked (slk t (SBuf b)))) s"
proof -
  let ?I = "\<lambda>k t. k \<le> NBUF \<longrightarrow> links (nextp t) (prevp t) NBUF (rev [0..<k]) NBUF \<and> same_but_links (bufs s) (bufs t) \<and>
    (\<forall>b<k. \<not> sl_locked (slk t (SBuf b)))"
  let ?f = "\<lambda>b. bnd (getbuf NBUF b_next) (\<lambda>hn. bnd (setbuf b (\<lambda>r. r\<lparr>b_next := hn\<rparr>)) (\<lambda>_.
    bnd (setbuf b (\<lambda>r. r\<lparr>b_prev := NBUF\<rparr>)) (\<lambda>_. bnd (initsleeplock (SBuf b)) (\<lambda>_.
    bnd (getbuf NBUF b_next) (\<lambda>hn. bnd (setbuf hn (\<lambda>r. r\<lparr>b_prev := b\<rparr>)) (\<lambda>_. setbuf NBUF (\<lambda>h. h\<lparr>b_next := b\<rparr>)))))))"
  have "wp (?f b) (\<lambda>_. ?I (Suc b)) t" if b: "b < NBUF" and I: "?I b t" for b and t :: "'a bufst_scheme"
  proof -
    define B where "B = set_next NBUF b (set_prev (b_next (bufs t NBUF)) b (set_prev b NBUF (set_next b (b_next (bufs t NBUF)) (bufs t))))"
    have "links (nextp t) (prevp t) NBUF (rev [0..<b]) NBUF" using b I by simp
    then have "links ((nextp t)(b := nextp t NBUF, NBUF := b)) ((prevp t)(b := NBUF, nextp t NBUF := b)) NBUF (b # rev [0..<b]) NBUF"
      using b by (intro links_push) auto
    then have "links (\<lambda>i. b_next (B i)) (\<lambda>i. b_prev (B i)) NBUF (rev [0..<Suc b]) NBUF"
      unfolding B_def set_links(1-4) by simp
    moreover have "same_but_links (bufs s) B"
      unfolding B_def using b I by (intro same_but_links_next same_but_links_prev) simp
    moreover have "NBUF \<noteq> b" using b by simp
    then have "wp (?f b) (\<lambda>_ u. bufs u = B \<and> slk u = (slk t)(SBuf b := \<lparr>sl_locked = False, sl_pid = 0\<rparr>)) t"
      by (simp add: setbuf_run B_def del: wp_setbuf NBUF_def)
    ultimately show ?thesis using b I by (elim wp_mono) (auto simp: less_Suc_eq)
  qed
  from wp_for_upt [of NBUF ?I ?f, OF this]
  have "wp (for_each [0..<NBUF] ?f) (\<lambda>_. ?I NBUF) (s\<lparr>bufs := set_next NBUF NBUF (set_prev NBUF NBUF (bufs s))\<rparr>)"
    by (simp add: same_but_links_next same_but_links_prev same_but_links_refl del: NBUF_def)
  then show ?thesis unfolding binit_def
    by (simp add: del: NBUF_def) (auto simp: set_next_def set_prev_def dll_def atLeast0LessThan simp del: NBUF_def elim!: wp_mono)
qed

section \<open>The cache as a map from blocks to contents\<close>

definition ROOTDEV :: uint where [simp]: "ROOTDEV = 1"

text \<open>The buffer that caches a block of the root device, the block's contents as the kernel sees
  them, and the number of references to its buffer.\<close>

definition cslot :: "(nat \<Rightarrow> buf) \<Rightarrow> uint \<Rightarrow> nat option" where
  "cslot B blk = List.find (\<lambda>i. b_dev (B i) = ROOTDEV \<and> b_blockno (B i) = blk) [0..<NBUF]"

definition cview :: "(nat \<Rightarrow> buf) \<Rightarrow> (uint \<Rightarrow> block) \<Rightarrow> uint \<Rightarrow> block" where
  "cview B D blk = (case cslot B blk of None \<Rightarrow> D blk | Some i \<Rightarrow> if b_valid (B i) then b_data (B i) else D blk)"

definition crefs :: "(nat \<Rightarrow> buf) \<Rightarrow> uint \<Rightarrow> nat" where
  "crefs B blk = (case cslot B blk of None \<Rightarrow> 0 | Some i \<Rightarrow> unat (b_refcnt (B i)))"

definition cuniq :: "(nat \<Rightarrow> buf) \<Rightarrow> bool" where
  "cuniq B \<longleftrightarrow> (\<forall>i<NBUF. \<forall>j<NBUF. b_dev (B i) = ROOTDEV \<longrightarrow> b_dev (B j) = ROOTDEV \<longrightarrow> b_blockno (B i) = b_blockno (B j) \<longrightarrow> i = j)"

lemma cslot_None: "cslot B blk = None \<longleftrightarrow> (\<forall>i<NBUF. b_dev (B i) = ROOTDEV \<longrightarrow> b_blockno (B i) \<noteq> blk)"
  by (auto simp: cslot_def find_None_iff)

lemma cslot_Some:
  assumes "cuniq B"
  shows "cslot B blk = Some i \<longleftrightarrow> i < NBUF \<and> b_dev (B i) = ROOTDEV \<and> b_blockno (B i) = blk"
proof
  assume "cslot B blk = Some i"
  then show "i < NBUF \<and> b_dev (B i) = ROOTDEV \<and> b_blockno (B i) = blk" by (auto simp: cslot_def dest!: find_SomeD)
next
  assume i: "i < NBUF \<and> b_dev (B i) = ROOTDEV \<and> b_blockno (B i) = blk"
  then have "cslot B blk \<noteq> None" unfolding cslot_None by auto
  then obtain j where j: "cslot B blk = Some j" by blast
  then have "j < NBUF" "b_dev (B j) = ROOTDEV" "b_blockno (B j) = blk" by (auto simp: cslot_def dest!: find_SomeD)
  then have "j = i" using assms i unfolding cuniq_def by blast
  then show "cslot B blk = Some i" using j by simp
qed

lemma cslot_find:
  assumes "cuniq B" "set ps = {..<NBUF}"
  shows "List.find (\<lambda>i. b_dev (B i) = ROOTDEV \<and> b_blockno (B i) = blk) ps = cslot B blk"
  unfolding cslot_def using assms by (intro find_unique) (auto simp: cuniq_def atLeast0LessThan simp del: ROOTDEV_def NBUF_def)

text \<open>Giving a buffer a block, or a cached block new data.\<close>

lemma cslot_upd:
  assumes "cuniq B" "i < NBUF" "b_dev nb = ROOTDEV" "cslot B (b_blockno nb) \<in> {None, Some i}"
  shows "cuniq (B(i := nb))"
    "cslot (B(i := nb)) x = (if x = b_blockno nb then Some i else if b_dev (B i) = ROOTDEV \<and> b_blockno (B i) = x then None else cslot B x)"
proof -
  have o: "j = i" if "j < NBUF" "b_dev (B j) = ROOTDEV" "b_blockno (B j) = b_blockno nb" for j
    using assms(4) that cslot_Some [OF assms(1), of "b_blockno nb" j] by auto
  show u: "cuniq (B(i := nb))"
    unfolding cuniq_def
  proof (intro allI impI)
    fix j k
    assume a: "j < NBUF" "k < NBUF" "b_dev ((B(i := nb)) j) = ROOTDEV" "b_dev ((B(i := nb)) k) = ROOTDEV"
      "b_blockno ((B(i := nb)) j) = b_blockno ((B(i := nb)) k)"
    show "j = k"
    proof (cases "j = i \<or> k = i")
      case True
      then show ?thesis using a o [of j] o [of k] by (auto split: if_splits)
    next
      case False
      then show ?thesis using a assms(1) by (simp add: cuniq_def)
    qed
  qed
  show "cslot (B(i := nb)) x = (if x = b_blockno nb then Some i else if b_dev (B i) = ROOTDEV \<and> b_blockno (B i) = x then None else cslot B x)"
  proof (cases "x = b_blockno nb")
    case True
    then show ?thesis using assms(2,3) cslot_Some [OF u, of x i] by simp
  next
    case ne: False
    show ?thesis
    proof (cases "b_dev (B i) = ROOTDEV \<and> b_blockno (B i) = x")
      case True
      then have "cslot B x = Some i" using assms(2) cslot_Some [OF assms(1)] by blast
      then have "j = i" if "j < NBUF" "b_dev (B j) = ROOTDEV" "b_blockno (B j) = x" for j
        using that cslot_Some [OF assms(1), of x j] by simp
      then have "cslot (B(i := nb)) x = None" using ne unfolding cslot_None by auto
      then show ?thesis using True ne by simp
    next
      case False
      then have "cslot (B(i := nb)) x = Some j \<longleftrightarrow> cslot B x = Some j" for j
        using ne assms(3) by (auto simp: cslot_Some [OF u] cslot_Some [OF assms(1)] simp del: ROOTDEV_def NBUF_def)
      then have "cslot (B(i := nb)) x = cslot B x" by (metis option.exhaust)
      then show ?thesis using False ne by auto
    qed
  qed
qed

lemma cview_upd:
  assumes "cuniq B" "i < NBUF" "b_dev nb = ROOTDEV" "cslot B (b_blockno nb) \<in> {None, Some i}"
  shows "cview (B(i := nb)) D x = (if x = b_blockno nb then (if b_valid nb then b_data nb else D x)
      else if b_dev (B i) = ROOTDEV \<and> b_blockno (B i) = x then D x else cview B D x)"
    "crefs (B(i := nb)) x = (if x = b_blockno nb then unat (b_refcnt nb)
      else if b_dev (B i) = ROOTDEV \<and> b_blockno (B i) = x then 0 else crefs B x)"
proof -
  have "j \<noteq> i" if "cslot B x = Some j" "\<not> (b_dev (B i) = ROOTDEV \<and> b_blockno (B i) = x)" for j
    using that cslot_Some [OF assms(1)] by blast
  then show "cview (B(i := nb)) D x = (if x = b_blockno nb then (if b_valid nb then b_data nb else D x)
      else if b_dev (B i) = ROOTDEV \<and> b_blockno (B i) = x then D x else cview B D x)"
    "crefs (B(i := nb)) x = (if x = b_blockno nb then unat (b_refcnt nb)
      else if b_dev (B i) = ROOTDEV \<and> b_blockno (B i) = x then 0 else crefs B x)"
    using cslot_upd(2) [OF assms, of x]
    by (simp_all add: cview_def crefs_def del: ROOTDEV_def split: option.splits)
qed

lemma same_but_links_obs:
  assumes "same_but_links B B'"
  shows "cslot B' = cslot B" "cview B' = cview B" "crefs B' = crefs B" "cuniq B' = cuniq B"
proof -
  show c: "cslot B' = cslot B" by (simp add: fun_eq_iff cslot_def same_but_linksD [OF assms])
  show "cview B' = cview B" by (intro ext) (simp add: cview_def c same_but_linksD [OF assms] split: option.split)
  show "crefs B' = crefs B" by (intro ext) (simp add: crefs_def c same_but_linksD [OF assms] split: option.split)
  show "cuniq B' = cuniq B" by (simp add: cuniq_def same_but_linksD [OF assms])
qed

end
