(* ===== verification/Xv6_Cache.thy ===== *)
theory Xv6_Cache
  imports Xv6_Bio
begin

text \<open>
  What the buffer cache (\<^verbatim>\<open>kernel/bio.c\<close>) promises to the layers above. The invariant \<open>bc_ok\<close> says that the
  buffers form one list, cache each block at most once, and agree with the disk when nobody refers to
  them. The observations of a state are the contents of every block as the kernel sees them
  (\<open>bview\<close>), the reference counts (\<open>brefs\<close>), the locked blocks (\<open>blocked\<close>), the disk and the writes to it.
  Each operation has a law that says how it changes them; the locale \<open>block_cache\<close> collects the laws.
\<close>

section \<open>The invariant of the cache\<close>

text \<open>
  The cache as one thread sees it while no other thread holds a buffer: \<open>pd\<close> is the id of its process.
  A locked buffer is referenced and valid and locked by this process; a buffer that is not referenced
  agrees with the disk, so that it can be recycled.
\<close>

abbreviation dllB :: "nat list \<Rightarrow> (nat \<Rightarrow> buf) \<Rightarrow> bool" where
  "dllB ps B \<equiv> links (\<lambda>i. b_next (B i)) (\<lambda>i. b_prev (B i)) NBUF ps NBUF \<and> distinct ps \<and> set ps = {..<NBUF}"

definition bc_slot :: "(uint \<Rightarrow> block) \<Rightarrow> cint \<Rightarrow> buf \<Rightarrow> sleeplock \<Rightarrow> bool" where
  "bc_slot D pd r l \<longleftrightarrow>
     (sl_locked l \<longrightarrow> sl_pid l = pd \<and> b_refcnt r \<noteq> 0 \<and> b_valid r) \<and>
     (b_refcnt r \<noteq> 0 \<longrightarrow> b_dev r = ROOTDEV) \<and>
     (b_refcnt r = 0 \<longrightarrow> b_valid r \<longrightarrow> b_dev r = ROOTDEV \<longrightarrow> b_data r = D (b_blockno r))"

definition bc_inv :: "(nat \<Rightarrow> buf) \<Rightarrow> (uint \<Rightarrow> block) \<Rightarrow> (nat \<Rightarrow> sleeplock) \<Rightarrow> cint \<Rightarrow> bool" where
  "bc_inv B D L pd \<longleftrightarrow> (\<exists>ps. dllB ps B) \<and> cuniq B \<and> (\<forall>b<NBUF. bc_slot D pd (B b) (L b))"

definition clocked :: "(nat \<Rightarrow> buf) \<Rightarrow> (nat \<Rightarrow> sleeplock) \<Rightarrow> uint \<Rightarrow> bool" where
  "clocked B L blk \<longleftrightarrow> (case cslot B blk of None \<Rightarrow> False | Some b \<Rightarrow> sl_locked (L b))"

lemma dllB_upd:
  assumes "dllB ps B" "b_next nb = b_next (B b)" "b_prev nb = b_prev (B b)"
  shows "dllB ps (B(b := nb))"
proof -
  have "(\<lambda>i. b_next ((B(b := nb)) i)) = (\<lambda>i. b_next (B i))" "(\<lambda>i. b_prev ((B(b := nb)) i)) = (\<lambda>i. b_prev (B i))"
    using assms(2,3) by auto
  then show ?thesis using assms(1) by simp
qed

lemma bc_inv_upd:
  assumes "bc_inv B D L pd" "b < NBUF" "b_dev nb = ROOTDEV" "cslot B (b_blockno nb) \<in> {None, Some b}"
    "b_next nb = b_next (B b)" "b_prev nb = b_prev (B b)" "bc_slot D pd nb l'"
  shows "bc_inv (B(b := nb)) D (L(b := l')) pd"
proof -
  obtain ps where "dllB ps B" using assms(1) by (auto simp: bc_inv_def)
  then have "dllB ps (B(b := nb))" using assms(5,6) by (rule dllB_upd)
  moreover have "cuniq (B(b := nb))" using assms by (intro cslot_upd) (auto simp: bc_inv_def)
  ultimately show ?thesis using assms(1,7) unfolding bc_inv_def by (auto simp del: NBUF_def)
qed

lemma clocked_upd:
  assumes "cuniq B" "b < NBUF" "b_dev nb = ROOTDEV" "cslot B (b_blockno nb) \<in> {None, Some b}"
  shows "clocked (B(b := nb)) (L(b := l')) x = (if x = b_blockno nb then sl_locked l'
      else if b_dev (B b) = ROOTDEV \<and> b_blockno (B b) = x then False else clocked B L x)"
proof -
  have "j \<noteq> b" if "cslot B x = Some j" "\<not> (b_dev (B b) = ROOTDEV \<and> b_blockno (B b) = x)" for j
    using that cslot_Some [OF assms(1)] by blast
  then show ?thesis using cslot_upd(2) [OF assms, of x] by (simp add: clocked_def del: ROOTDEV_def split: option.splits)
qed

text \<open>A referenced block stays in its buffer.\<close>

lemma bc_keep:
  assumes "bc_inv B D L pd" "b < NBUF" "b_dev (B b) = ROOTDEV" "b_dev nb = ROOTDEV" "b_blockno nb = b_blockno (B b)"
  shows "cslot B (b_blockno nb) = Some b"
    "cview (B(b := nb)) D = (cview B D)(b_blockno (B b) := if b_valid nb then b_data nb else D (b_blockno (B b)))"
    "crefs (B(b := nb)) = (crefs B)(b_blockno (B b) := unat (b_refcnt nb))"
    "\<And>l'. clocked (B(b := nb)) (L(b := l')) = (clocked B L)(b_blockno (B b) := sl_locked l')"
proof -
  have u: "cuniq B" using assms(1) by (simp add: bc_inv_def)
  show c: "cslot B (b_blockno nb) = Some b" using assms cslot_Some [OF u] by simp
  then have c': "cslot B (b_blockno nb) \<in> {None, Some b}" by simp
  show "cview (B(b := nb)) D = (cview B D)(b_blockno (B b) := if b_valid nb then b_data nb else D (b_blockno (B b)))"
    "crefs (B(b := nb)) = (crefs B)(b_blockno (B b) := unat (b_refcnt nb))"
    "clocked (B(b := nb)) (L(b := l')) = (clocked B L)(b_blockno (B b) := sl_locked l')" for l'
    using cview_upd [OF u assms(2,4) c'] clocked_upd [OF u assms(2,4) c'] assms(3,5) by (auto simp: fun_eq_iff simp del: ROOTDEV_def)
qed

text \<open>A buffer that is not referenced is given to another block: the kernel's view does not change.\<close>

lemma bc_recycle:
  assumes "bc_inv B D L pd" "b < NBUF" "b_refcnt (B b) = 0" "cslot B (b_blockno nb) = None" "b_dev nb = ROOTDEV"
    "b_valid nb \<longrightarrow> b_data nb = D (b_blockno nb)"
  shows "cview (B(b := nb)) D = cview B D"
    "crefs (B(b := nb)) = (crefs B)(b_blockno nb := unat (b_refcnt nb))"
    "\<And>l'. clocked (B(b := nb)) (L(b := l')) = (clocked B L)(b_blockno nb := sl_locked l')"
proof -
  have u: "cuniq B" using assms(1) by (simp add: bc_inv_def)
  have c: "cslot B (b_blockno nb) \<in> {None, Some b}" using assms(4) by simp
  have s: "bc_slot D pd (B b) (L b)" using assms(1,2) by (simp add: bc_inv_def)
  have new: "cview B D (b_blockno nb) = D (b_blockno nb)" "crefs B (b_blockno nb) = 0" using assms(4) by (simp_all add: cview_def crefs_def)
  have old: "cview B D x = D x \<and> crefs B x = 0 \<and> \<not> clocked B L x" if "b_dev (B b) = ROOTDEV" "b_blockno (B b) = x" for x
  proof -
    have "cslot B x = Some b" using that assms(2) cslot_Some [OF u] by blast
    then show ?thesis using s that assms(3) by (auto simp: cview_def crefs_def clocked_def bc_slot_def)
  qed
  show "cview (B(b := nb)) D = cview B D" "crefs (B(b := nb)) = (crefs B)(b_blockno nb := unat (b_refcnt nb))"
    "clocked (B(b := nb)) (L(b := l')) = (clocked B L)(b_blockno nb := sl_locked l')" for l'
    using cview_upd [OF u assms(2,5) c] clocked_upd [OF u assms(2,5) c] old new assms(6) by (auto simp: fun_eq_iff simp del: ROOTDEV_def)
qed

text \<open>A buffer is free as long as fewer blocks than buffers are referenced.\<close>

lemma free_buffer:
  assumes "bc_inv B D L pd" "card {x. crefs B x \<noteq> 0} < NBUF"
  shows "\<exists>b<NBUF. b_refcnt (B b) = 0"
proof (rule ccontr)
  assume "\<not> ?thesis"
  then have all: "b_refcnt (B b) \<noteq> 0" if "b < NBUF" for b using that by blast
  have u: "cuniq B" using assms(1) by (simp add: bc_inv_def)
  have dev: "b_dev (B b) = ROOTDEV" if "b < NBUF" for b using all [OF that] assms(1) that by (auto simp: bc_inv_def bc_slot_def simp del: NBUF_def)
  have inj: "inj_on (\<lambda>b. b_blockno (B b)) {..<NBUF}"
    using u dev unfolding cuniq_def inj_on_def by (simp del: NBUF_def ROOTDEV_def)
  have sub: "crefs B (b_blockno (B b)) \<noteq> 0" if "b < NBUF" for b
  proof -
    have "cslot B (b_blockno (B b)) = Some b" using that dev cslot_Some [OF u] by blast
    then show ?thesis using all [OF that] by (simp add: crefs_def unat_eq_0)
  qed
  have "card ((\<lambda>b. b_blockno (B b)) ` {..<NBUF}) \<le> card {x. crefs B x \<noteq> 0}"
    using sub by (intro card_mono) (auto simp del: NBUF_def)
  then show False using assms(2) card_image [OF inj] by simp
qed

section \<open>States\<close>

definition mypid :: "'z pst_scheme \<Rightarrow> cint" where
  "mypid s = p_pid (procs s (the (cproc s)))"

abbreviation bcl :: "'z slst_scheme \<Rightarrow> nat \<Rightarrow> sleeplock" where
  "bcl s \<equiv> \<lambda>b. slk s (SBuf b)"

definition bc_ok :: "'z bufst_scheme \<Rightarrow> bool" where
  "bc_ok s \<longleftrightarrow> bc_inv (bufs s) (dsk s) (bcl s) (mypid s) \<and> cproc s \<noteq> None \<and> LBcache \<notin> set (held s) \<and>
     (\<forall>b. LSleep (SBuf b) \<notin> set (held s)) \<and> no_proc_lock s"

definition bview :: "'z bufst_scheme \<Rightarrow> uint \<Rightarrow> block" where
  "bview s = cview (bufs s) (dsk s)"

definition brefs :: "'z bufst_scheme \<Rightarrow> uint \<Rightarrow> nat" where
  "brefs s = crefs (bufs s)"

definition blocked :: "'z bufst_scheme \<Rightarrow> uint \<Rightarrow> bool" where
  "blocked s = clocked (bufs s) (bcl s)"

definition owns :: "'z bufst_scheme \<Rightarrow> nat \<Rightarrow> uint \<Rightarrow> bool" where
  "owns s b blk \<longleftrightarrow> b < NBUF \<and> b_dev (bufs s b) = ROOTDEV \<and> b_blockno (bufs s b) = blk \<and> sl_locked (slk s (SBuf b))"

definition bc_frame :: "'z bufst_scheme \<Rightarrow> 'z bufst_scheme \<Rightarrow> bool" where
  "bc_frame s t \<longleftrightarrow> t = s\<lparr>slk := slk t, procs := procs t, bufs := bufs t, dsk := dsk t, dwrites := dwrites t\<rparr>"

lemma bc_frame_refl: "bc_frame s s"
  by (simp add: bc_frame_def)

lemma bc_frame_trans: "bc_frame s t \<Longrightarrow> bc_frame t u \<Longrightarrow> bc_frame s u"
  unfolding bc_frame_def
proof -
  assume a: "t = s\<lparr>slk := slk t, procs := procs t, bufs := bufs t, dsk := dsk t, dwrites := dwrites t\<rparr>"
    and b: "u = t\<lparr>slk := slk u, procs := procs u, bufs := bufs u, dsk := dsk u, dwrites := dwrites u\<rparr>"
  show "u = s\<lparr>slk := slk u, procs := procs u, bufs := bufs u, dsk := dsk u, dwrites := dwrites u\<rparr>"
    by (subst b, subst a) simp
qed

section \<open>The operations\<close>

text \<open>What an operation does to what a thread can observe of the cache.\<close>

definition bc_effect :: "'z bufst_scheme \<Rightarrow> 'z bufst_scheme \<Rightarrow> (uint \<Rightarrow> block) \<Rightarrow> (uint \<Rightarrow> nat) \<Rightarrow> (uint \<Rightarrow> bool) \<Rightarrow> (uint \<Rightarrow> block) \<Rightarrow> (uint \<times> block) list \<Rightarrow> bool" where
  "bc_effect s t V R K D W \<longleftrightarrow> bc_ok t \<and> bview t = V \<and> brefs t = R \<and> blocked t = K \<and> dsk t = D \<and> dwrites t = W \<and> bc_frame s t"

lemma bc_ok_unfold:
  assumes "bc_ok s"
  obtains p ps where "cproc s = Some p" "dll ps s" "cuniq (bufs s)" "bc_inv (bufs s) (dsk s) (bcl s) (p_pid (procs s p))"
    "LBcache \<notin> set (held s)" "\<forall>b. LSleep (SBuf b) \<notin> set (held s)" "no_proc_lock s"
  using assms by (auto simp: bc_ok_def bc_inv_def dll_def mypid_def)

lemma ownsD:
  assumes "bc_ok s" "owns s b blk"
  shows "b < NBUF" "b_dev (bufs s b) = ROOTDEV" "b_blockno (bufs s b) = blk" "sl_locked (slk s (SBuf b))"
    "sl_pid (slk s (SBuf b)) = mypid s" "b_refcnt (bufs s b) \<noteq> 0" "b_valid (bufs s b)" "b_data (bufs s b) = bview s blk"
    "brefs s blk = unat (b_refcnt (bufs s b))" "blocked s blk"
proof -
  show o: "b < NBUF" "b_dev (bufs s b) = ROOTDEV" "b_blockno (bufs s b) = blk" "sl_locked (slk s (SBuf b))"
    using assms(2) by (simp_all add: owns_def)
  have i: "bc_inv (bufs s) (dsk s) (bcl s) (mypid s)" using assms(1) by (simp add: bc_ok_def)
  then have sl: "bc_slot (dsk s) (mypid s) (bufs s b) (slk s (SBuf b))" and u: "cuniq (bufs s)"
    using o(1) by (simp_all add: bc_inv_def)
  show v: "sl_pid (slk s (SBuf b)) = mypid s" "b_refcnt (bufs s b) \<noteq> 0" "b_valid (bufs s b)" using sl o by (auto simp: bc_slot_def)
  have "cslot (bufs s) blk = Some b" using o cslot_Some [OF u] by blast
  then show "b_data (bufs s b) = bview s blk" "brefs s blk = unat (b_refcnt (bufs s b))" "blocked s blk"
    using v o by (simp_all add: bview_def cview_def brefs_def crefs_def blocked_def clocked_def)
qed

text \<open>A change of one buffer and its lock.\<close>

lemma bc_ok_upd:
  assumes "bc_ok s" "bc_inv ((bufs s)(b := nb)) D ((bcl s)(b := l')) (mypid s)"
  shows "bc_ok (s\<lparr>bufs := (bufs s)(b := nb), slk := (slk s)(SBuf b := l'), dsk := D, dwrites := W\<rparr>)"
proof -
  have "(\<lambda>x. ((slk s)(SBuf b := l')) (SBuf x)) = (bcl s)(b := l')" by auto
  then show ?thesis using assms by (simp add: bc_ok_def mypid_def no_proc_lock_def)
qed

lemma clocked_slk: "(\<lambda>x. ((slk s)(SBuf b := l')) (SBuf x)) = (bcl s)(b := l')"
  by auto

lemma bread_run:
  assumes ok: "bc_ok s" and nl: "\<not> blocked s blk" and fr: "brefs s blk \<noteq> 0 \<or> card {x. brefs s x \<noteq> 0} < NBUF"
    and mx: "brefs s blk < 2 ^ 32 - 1"
  shows "\<exists>b nb. bread ROOTDEV blk s = Done b (s\<lparr>bufs := (bufs s)(b := nb), slk := (slk s)(SBuf b := \<lparr>sl_locked = True, sl_pid = mypid s\<rparr>)\<rparr>) \<and>
    b < NBUF \<and> b_dev nb = ROOTDEV \<and> b_blockno nb = blk \<and> b_next nb = b_next (bufs s b) \<and> b_prev nb = b_prev (bufs s b) \<and>
    b_valid nb \<and> b_data nb = bview s blk \<and> \<not> sl_locked (slk s (SBuf b)) \<and>
    (cslot (bufs s) blk = Some b \<and> b_refcnt nb = b_refcnt (bufs s b) + 1 \<or> cslot (bufs s) blk = None \<and> b_refcnt (bufs s b) = 0 \<and> b_refcnt nb = 1)"
proof -
  from ok obtain p ps where p: "cproc s = Some p" and d: "dll ps s" and u: "cuniq (bufs s)"
    and i: "bc_inv (bufs s) (dsk s) (bcl s) (p_pid (procs s p))" and h: "LBcache \<notin> set (held s)"
    "\<forall>b. LSleep (SBuf b) \<notin> set (held s)" "no_proc_lock s" by (rule bc_ok_unfold)
  have pid: "mypid s = p_pid (procs s p)" by (simp add: mypid_def p)
  have ps: "set ps = {..<NBUF}" "NBUF \<notin> set ps" "length ps < Suc NBUF" "links (nextp s) (prevp s) NBUF ps NBUF"
    using d dll_length [OF d] by (auto simp: dll_def)
  let ?s = "s\<lparr>held := LBcache # held s\<rparr>"
  have c: "bget_cached (Suc NBUF) ROOTDEV blk (b_next (bufs ?s NBUF)) ?s = Done (cslot (bufs s) blk) ?s"
    using bget_cached_find [of ?s "prevp s" NBUF ps "Suc NBUF" ROOTDEV blk] ps cslot_find [OF u ps(1), of blk] by simp
  show ?thesis
  proof (cases "cslot (bufs s) blk")
    case (Some b)
    then have b: "b < NBUF" "b_dev (bufs s b) = ROOTDEV" "b_blockno (bufs s b) = blk" using cslot_Some [OF u] by blast+
    have nl': "\<not> sl_locked (slk s (SBuf b))" using nl Some by (simp add: blocked_def clocked_def)
    have g: "bget ROOTDEV blk s = Done b (s\<lparr>bufs := (bufs s)(b := (bufs s b)\<lparr>b_refcnt := b_refcnt (bufs s b) + 1\<rparr>),
        slk := (slk s)(SBuf b := \<lparr>sl_locked = True, sl_pid = mypid s\<rparr>)\<rparr>)"
      using h c nl' p unfolding bget_def
      by (simp add: Some acquiresleep_free pid del: NBUF_def ROOTDEV_def bget_cached.simps)
    show ?thesis
    proof (cases "b_valid (bufs s b)")
      case True
      then have "b_data (bufs s b) = bview s blk" using Some by (simp add: bview_def cview_def)
      then show ?thesis using g b True nl' Some
        by (intro exI [of _ b] exI [of _ "(bufs s b)\<lparr>b_refcnt := b_refcnt (bufs s b) + 1\<rparr>"]) (simp add: bread_def)
    next
      case False
      then have "dsk s blk = bview s blk" using Some by (simp add: bview_def cview_def)
      then show ?thesis using g b False nl' Some
        by (intro exI [of _ b] exI [of _ "(bufs s b)\<lparr>b_refcnt := b_refcnt (bufs s b) + 1, b_data := dsk s blk, b_valid := True\<rparr>"])
          (simp add: bread_def disk_rw_def bnd_assoc)
    qed
  next
    case None
    then have "brefs s blk = 0" by (simp add: brefs_def crefs_def)
    then have "card {x. crefs (bufs s) x \<noteq> 0} < NBUF" using fr by (simp add: brefs_def)
    then obtain b0 where b0: "b0 < NBUF" "b_refcnt (bufs s b0) = 0" using free_buffer [OF i] by blast
    have "links (prevp ?s) (nextp s) NBUF (rev ps) NBUF" using links_rev [OF ps(4)] by simp
    then have un: "bget_unused (Suc NBUF) (b_prev (bufs ?s NBUF)) ?s = Done (List.find (\<lambda>b. b_refcnt (bufs s b) = 0) (rev ps)) ?s"
      using bget_unused_find [of ?s "nextp s" NBUF "rev ps" "Suc NBUF"] ps by simp
    have "List.find (\<lambda>b. b_refcnt (bufs s b) = 0) (rev ps) \<noteq> None" using b0 ps(1) by (auto simp: find_None_iff simp del: NBUF_def)
    then obtain b where f: "List.find (\<lambda>b. b_refcnt (bufs s b) = 0) (rev ps) = Some b" by blast
    then have b: "b < NBUF" "b_refcnt (bufs s b) = 0" using find_SomeD [OF f] ps(1) by auto
    have sl: "bc_slot (dsk s) (p_pid (procs s p)) (bufs s b) (slk s (SBuf b))" using i b(1) by (simp add: bc_inv_def)
    then have nl': "\<not> sl_locked (slk s (SBuf b))" using b(2) by (simp add: bc_slot_def)
    let ?nb = "(bufs s b)\<lparr>b_dev := ROOTDEV, b_blockno := blk, b_valid := False, b_refcnt := 1\<rparr>"
    have g: "bget ROOTDEV blk s = Done b (s\<lparr>bufs := (bufs s)(b := ?nb),
        slk := (slk s)(SBuf b := \<lparr>sl_locked = True, sl_pid = mypid s\<rparr>)\<rparr>)"
      using h c un f nl' p unfolding bget_def
      by (simp add: None acquiresleep_free pid del: NBUF_def ROOTDEV_def bget_cached.simps bget_unused.simps)
    have "dsk s blk = bview s blk" using None by (simp add: bview_def cview_def)
    then show ?thesis using g b nl' None
      by (intro exI [of _ b] exI [of _ "?nb\<lparr>b_data := dsk s blk, b_valid := True\<rparr>"]) (simp add: bread_def disk_rw_def bnd_assoc)
  qed
qed

lemma bread_law:
  assumes ok: "bc_ok s" and nl: "\<not> blocked s blk" and fr: "brefs s blk \<noteq> 0 \<or> card {x. brefs s x \<noteq> 0} < NBUF"
    and mx: "brefs s blk < 2 ^ 32 - 1"
  shows "wp (bread ROOTDEV blk) (\<lambda>b t. owns t b blk \<and> (\<forall>c x. owns s c x \<longrightarrow> owns t c x) \<and>
    bc_effect s t (bview s) ((brefs s)(blk := brefs s blk + 1)) ((blocked s)(blk := True)) (dsk s) (dwrites s)) s"
proof -
  obtain b nb where r: "bread ROOTDEV blk s = Done b (s\<lparr>bufs := (bufs s)(b := nb), slk := (slk s)(SBuf b := \<lparr>sl_locked = True, sl_pid = mypid s\<rparr>)\<rparr>)"
    and b: "b < NBUF" "b_dev nb = ROOTDEV" "b_blockno nb = blk" "b_next nb = b_next (bufs s b)" "b_prev nb = b_prev (bufs s b)"
      "b_valid nb" "b_data nb = bview s blk" "\<not> sl_locked (slk s (SBuf b))"
    and c: "cslot (bufs s) blk = Some b \<and> b_refcnt nb = b_refcnt (bufs s b) + 1 \<or> cslot (bufs s) blk = None \<and> b_refcnt (bufs s b) = 0 \<and> b_refcnt nb = 1"
    using bread_run [OF assms] by blast
  let ?l = "\<lparr>sl_locked = True, sl_pid = mypid s\<rparr>"
  let ?B = "(bufs s)(b := nb)"
  define t where "t = s\<lparr>bufs := ?B, slk := (slk s)(SBuf b := ?l)\<rparr>"
  have i: "bc_inv (bufs s) (dsk s) (bcl s) (mypid s)" and u: "cuniq (bufs s)" using ok by (auto simp: bc_ok_def bc_inv_def)
  have n0: "b_refcnt nb \<noteq> 0 \<and> unat (b_refcnt nb) = brefs s blk + 1"
    using c
  proof
    assume a: "cslot (bufs s) blk = Some b \<and> b_refcnt nb = b_refcnt (bufs s b) + 1"
    then have "brefs s blk = unat (b_refcnt (bufs s b))" by (simp add: brefs_def crefs_def)
    then show ?thesis using a mx unat_plus_of_nat [of "b_refcnt (bufs s b)" 1] by (auto simp flip: unat_eq_0)
  next
    assume "cslot (bufs s) blk = None \<and> b_refcnt (bufs s b) = 0 \<and> b_refcnt nb = 1"
    then show ?thesis by (simp add: brefs_def crefs_def)
  qed
  have "bc_inv ?B (dsk s) ((bcl s)(b := ?l)) (mypid s)"
    using b n0 c by (intro bc_inv_upd [OF i]) (auto simp: bc_slot_def)
  from bc_ok_upd [OF ok this, of "dwrites s"] have "bc_ok t" by (simp add: t_def)
  moreover have obs: "bview t = bview s" "brefs t = (brefs s)(blk := brefs s blk + 1)" "blocked t = (blocked s)(blk := True)"
  proof -
    have "cview ?B (dsk s) = cview (bufs s) (dsk s) \<and> crefs ?B = (crefs (bufs s))(blk := unat (b_refcnt nb)) \<and>
      clocked ?B ((bcl s)(b := ?l)) = (clocked (bufs s) (bcl s))(blk := True)"
      using c
    proof
      assume a: "cslot (bufs s) blk = Some b \<and> b_refcnt nb = b_refcnt (bufs s b) + 1"
      then have "b_dev (bufs s b) = ROOTDEV" "b_blockno (bufs s b) = blk" using cslot_Some [OF u] by blast+
      then show ?thesis using bc_keep [OF i b(1) _ b(2)] b by (simp add: bview_def fun_upd_idem)
    next
      assume a: "cslot (bufs s) blk = None \<and> b_refcnt (bufs s b) = 0 \<and> b_refcnt nb = 1"
      then have "bview s blk = dsk s blk" by (simp add: bview_def cview_def)
      then show ?thesis using bc_recycle [OF i b(1) _ _ b(2)] a b by simp
    qed
    moreover have "bufs t = ?B" "dsk t = dsk s" "bcl t = (bcl s)(b := ?l)" by (auto simp: t_def)
    ultimately show "bview t = bview s" "brefs t = (brefs s)(blk := brefs s blk + 1)" "blocked t = (blocked s)(blk := True)"
      using n0 unfolding bview_def brefs_def blocked_def by simp_all
  qed
  moreover have "owns t b blk" "owns t c x" if "owns s c x" for c x using b that by (auto simp: t_def owns_def)
  moreover have "owns t b blk" using b by (simp add: t_def owns_def)
  moreover have "bc_frame s t" by (simp add: bc_frame_def t_def)
  moreover have "dsk t = dsk s" "dwrites t = dwrites s" by (simp_all add: t_def)
  ultimately show ?thesis using r by (simp add: wp_Done t_def [symmetric] bc_effect_def)
qed

lemma setdata_law:
  assumes ok: "bc_ok s" and o: "owns s b blk"
  shows "wp (setbuf b (\<lambda>r. r\<lparr>b_data := d\<rparr>)) (\<lambda>_ t. (\<forall>c x. owns s c x \<longrightarrow> owns t c x) \<and>
    bc_effect s t ((bview s)(blk := d)) (brefs s) (blocked s) (dsk s) (dwrites s)) s"
proof -
  note ow = ownsD [OF ok o]
  have i: "bc_inv (bufs s) (dsk s) (bcl s) (mypid s)" using ok by (simp add: bc_ok_def)
  let ?nb = "(bufs s b)\<lparr>b_data := d\<rparr>"
  define t where "t = s\<lparr>bufs := (bufs s)(b := ?nb)\<rparr>"
  note k = bc_keep [OF i ow(1,2), of ?nb]
  have "bc_inv ((bufs s)(b := ?nb)) (dsk s) ((bcl s)(b := slk s (SBuf b))) (mypid s)"
    using ow k(1) by (intro bc_inv_upd [OF i]) (simp_all add: bc_slot_def)
  from bc_ok_upd [OF ok this, of "dwrites s"] have "bc_ok t" by (simp add: t_def)
  moreover have "bview t = (bview s)(blk := d)" "brefs t = brefs s" "blocked t = blocked s"
    using k(2,3) k(4) [of "slk s (SBuf b)"] ow by (simp_all add: t_def bview_def brefs_def blocked_def fun_upd_idem)
  moreover have "owns t c x" if "owns s c x" for c x using that by (auto simp: t_def owns_def)
  moreover have "bc_frame s t" by (simp add: bc_frame_def t_def)
  moreover have "dsk t = dsk s" "dwrites t = dwrites s" by (simp_all add: t_def)
  ultimately show ?thesis by (simp add: t_def [symmetric] bc_effect_def)
qed

lemma bwrite_law:
  assumes ok: "bc_ok s" and o: "owns s b blk"
  shows "wp (bwrite b) (\<lambda>_ t. (\<forall>c x. owns s c x \<longrightarrow> owns t c x) \<and>
    bc_effect s t (bview s) (brefs s) (blocked s) ((dsk s)(blk := bview s blk)) (dwrites s @ [(blk, bview s blk)])) s"
proof -
  note ow = ownsD [OF ok o]
  have i: "bc_inv (bufs s) (dsk s) (bcl s) (mypid s)" and u: "cuniq (bufs s)" and h: "LSleep (SBuf b) \<notin> set (held s)"
    using ok by (auto simp: bc_ok_def bc_inv_def)
  obtain p where p: "cproc s = Some p" using ok by (auto simp: bc_ok_def)
  let ?D = "(dsk s)(blk := bview s blk)"
  define t where "t = s\<lparr>dsk := ?D, dwrites := dwrites s @ [(blk, bview s blk)]\<rparr>"
  have cs: "cslot (bufs s) blk = Some b" using ow cslot_Some [OF u] by blast
  have r: "bwrite b s = Done () t"
    using h p ow by (simp add: bwrite_def disk_rw_def mypid_def t_def)
  have "bc_slot ?D (mypid s) (bufs s c) (slk s (SBuf c))" if c: "c < NBUF" for c
  proof -
    have s: "bc_slot (dsk s) (mypid s) (bufs s c) (slk s (SBuf c))" using i c by (simp add: bc_inv_def)
    have "b_blockno (bufs s c) \<noteq> blk" if "b_refcnt (bufs s c) = 0" "b_dev (bufs s c) = ROOTDEV"
      using that c cs ow(6) cslot_Some [OF u, of blk c] by auto
    then show ?thesis using s by (auto simp: bc_slot_def)
  qed
  then have "bc_ok t" using ok i by (auto simp: bc_ok_def bc_inv_def t_def mypid_def no_proc_lock_def)
  moreover have "bview t = bview s"
  proof
    fix x
    show "bview t x = bview s x" using cs ow by (cases "x = blk") (auto simp: t_def bview_def cview_def split: option.split)
  qed
  moreover have "brefs t = brefs s" "blocked t = blocked s" by (simp_all add: t_def brefs_def blocked_def)
  moreover have "owns t c x" if "owns s c x" for c x using that by (auto simp: t_def owns_def)
  moreover have "bc_frame s t" by (simp add: bc_frame_def t_def)
  moreover have "dsk t = ?D" "dwrites t = dwrites s @ [(blk, bview s blk)]" by (simp_all add: t_def)
  ultimately show ?thesis using r by (simp add: wp_Done bc_effect_def)
qed

text \<open>Changing the number of references of a buffer one holds: \<open>bpin\<close> and \<open>bunpin\<close>.\<close>

lemma refcnt_law:
  assumes ok: "bc_ok s" and o: "owns s b blk" and n: "n \<noteq> 0"
    and t: "t = s\<lparr>bufs := (bufs s)(b := (bufs s b)\<lparr>b_refcnt := n\<rparr>)\<rparr>"
  shows "(\<forall>c x. owns s c x \<longrightarrow> owns t c x) \<and> bc_effect s t (bview s) ((brefs s)(blk := unat n)) (blocked s) (dsk s) (dwrites s)"
proof -
  note ow = ownsD [OF ok o]
  have i: "bc_inv (bufs s) (dsk s) (bcl s) (mypid s)" using ok by (simp add: bc_ok_def)
  let ?nb = "(bufs s b)\<lparr>b_refcnt := n\<rparr>"
  note k = bc_keep [OF i ow(1,2), of ?nb]
  have "bc_inv ((bufs s)(b := ?nb)) (dsk s) ((bcl s)(b := slk s (SBuf b))) (mypid s)"
    using ow k(1) n by (intro bc_inv_upd [OF i]) (simp_all add: bc_slot_def)
  from bc_ok_upd [OF ok this, of "dwrites s"] have "bc_ok t" by (simp add: t)
  moreover have "bview t = bview s" "brefs t = (brefs s)(blk := unat n)" "blocked t = blocked s"
    using k(2,3) k(4) [of "slk s (SBuf b)"] ow by (simp_all add: t bview_def brefs_def blocked_def fun_upd_idem)
  moreover have "owns t c x" if "owns s c x" for c x using that by (auto simp: t owns_def)
  moreover have "bc_frame s t" by (simp add: bc_frame_def t)
  moreover have "dsk t = dsk s" "dwrites t = dwrites s" by (simp_all add: t)
  ultimately show ?thesis by (simp add: bc_effect_def)
qed

lemma unat_minus_1: "(n :: 'a :: len word) \<noteq> 0 \<Longrightarrow> unat (n - 1) = unat n - 1"
  by (simp add: unat_minus_one)

lemma bunpin_law:
  assumes ok: "bc_ok s" and o: "owns s b blk" and n: "1 < brefs s blk"
  shows "wp (bunpin b) (\<lambda>_ t. (\<forall>c x. owns s c x \<longrightarrow> owns t c x) \<and>
    bc_effect s t (bview s) ((brefs s)(blk := brefs s blk - 1)) (blocked s) (dsk s) (dwrites s)) s"
proof -
  note ow = ownsD [OF ok o]
  let ?n = "b_refcnt (bufs s b) - 1"
  have n': "unat ?n = brefs s blk - 1" using ow(6,9) unat_minus_1 by metis
  then have "?n \<noteq> 0" using n by (metis unat_eq_0 less_numeral_extra(3) zero_less_diff)
  from refcnt_law [OF ok o this refl] n' ok show ?thesis
    by (simp add: bunpin_def bc_ok_def)
qed

lemma bpin_law:
  assumes ok: "bc_ok s" and o: "owns s b blk" and n: "brefs s blk < 2 ^ 32 - 1"
  shows "wp (bpin b) (\<lambda>_ t. (\<forall>c x. owns s c x \<longrightarrow> owns t c x) \<and>
    bc_effect s t (bview s) ((brefs s)(blk := brefs s blk + 1)) (blocked s) (dsk s) (dwrites s)) s"
proof -
  note ow = ownsD [OF ok o]
  let ?n = "b_refcnt (bufs s b) + 1"
  have n': "unat ?n = brefs s blk + 1" using ow(9) n unat_plus_of_nat [of "b_refcnt (bufs s b)" 1] by simp
  then have "?n \<noteq> 0" by (metis unat_eq_0 add_is_0 zero_neq_one)
  from refcnt_law [OF ok o this refl] n' ok show ?thesis
    by (simp add: bpin_def bc_ok_def)
qed

lemma bc_inv_links:
  assumes "bc_inv B D L pd" "same_but_links B B'" "dllB ps B'"
  shows "bc_inv B' D L pd"
  using assms by (auto simp: bc_inv_def bc_slot_def same_but_linksD [OF assms(2)] same_but_links_obs [OF assms(2)] simp del: NBUF_def)

lemma brelse_run:
  assumes ok: "bc_ok s" and o: "owns s b blk"
  defines "n \<equiv> b_refcnt (bufs s b) - 1"
  defines "u \<equiv> s\<lparr>slk := (slk s)(SBuf b := \<lparr>sl_locked = False, sl_pid = 0\<rparr>), procs := wake_all (ChSleep (SBuf b)) NPROC (procs s),
    bufs := (bufs s)(b := (bufs s b)\<lparr>b_refcnt := n\<rparr>)\<rparr>"
  shows "wp (brelse b) (\<lambda>_ t. t = u\<lparr>bufs := bufs t\<rparr> \<and> same_but_links (bufs u) (bufs t) \<and> (\<exists>ps. dll ps t)) s"
proof -
  note ow = ownsD [OF ok o]
  from ok obtain p ps where p: "cproc s = Some p" and d: "dll ps s" and h: "LBcache \<notin> set (held s)"
    "\<forall>b. LSleep (SBuf b) \<notin> set (held s)" "no_proc_lock s" by (rule bc_ok_unfold)
  have hs: "wp (holdingsleep (SBuf b)) Q s = Q True s" for Q
    using holdingsleep_run [of "SBuf b" s p] h p ow by (simp add: wp_Done mypid_def)
  have rl: "wp (releasesleep (SBuf b)) Q s = Q () (s\<lparr>slk := (slk s)(SBuf b := \<lparr>sl_locked = False, sl_pid = 0\<rparr>),
      procs := wake_all (ChSleep (SBuf b)) NPROC (procs s)\<rparr>)" for Q
    using releasesleep_run [of s "SBuf b"] h by (simp add: wp_Done)
  let ?u = "s\<lparr>slk := (slk s)(SBuf b := \<lparr>sl_locked = False, sl_pid = 0\<rparr>), procs := wake_all (ChSleep (SBuf b)) NPROC (procs s),
    held := LBcache # held s, bufs := (bufs s)(b := (bufs s b)\<lparr>b_refcnt := n\<rparr>)\<rparr>"
  have bu: "bufs u = (bufs s)(b := (bufs s b)\<lparr>b_refcnt := n\<rparr>)" by (simp add: u_def)
  have "dllB ps (bufs s)" using d by (simp add: dll_def)
  then have "dllB ps (bufs u)" unfolding bu by (rule dllB_upd) simp_all
  then have du: "dll ps u" by (simp add: dll_def)
  show ?thesis
  proof (cases "n = 0")
    case False
    then show ?thesis using hs rl h du same_but_links_refl [of "bufs u"] unfolding brelse_def
      by (auto simp: u_def n_def simp del: NPROC_def)
  next
    case True
    have "b \<in> set ps" using du ow(1) by (auto simp: dll_def)
    then obtain xs ys where "ps = xs @ b # ys" by (meson split_list)
    then have "dll (xs @ b # ys) ?u" using du bu by (simp add: dll_def)
    from move_to_head_run [OF this]
    have m: "wp (move_to_head b) (\<lambda>_ t. dll (b # xs @ ys) t \<and> t = ?u\<lparr>bufs := bufs t\<rparr> \<and> same_but_links (bufs u) (bufs t)) ?u" by (simp add: bu)
    have "wp (move_to_head b) (\<lambda>_ t. wp (lock_release LBcache) (\<lambda>_ t. t = u\<lparr>bufs := bufs t\<rparr> \<and>
        same_but_links (bufs u) (bufs t) \<and> (\<exists>ps. dll ps t)) t) ?u" (is "wp _ (\<lambda>_ t. wp _ ?Q t) _")
    proof (rule wp_mono [OF m])
      fix r t
      assume t: "dll (b # xs @ ys) t \<and> t = ?u\<lparr>bufs := bufs t\<rparr> \<and> same_but_links (bufs u) (bufs t)"
      then have te: "t = ?u\<lparr>bufs := bufs t\<rparr>" by blast
      have "held t = LBcache # held s" by (subst te) simp
      moreover have "t\<lparr>held := held s\<rparr> = u\<lparr>bufs := bufs t\<rparr>"
      proof -
        have "t\<lparr>held := held s\<rparr> = ?u\<lparr>bufs := bufs t\<rparr>\<lparr>held := held s\<rparr>" using t by metis
        also have "\<dots> = u\<lparr>bufs := bufs t\<rparr>" by (simp add: u_def)
        finally show ?thesis .
      qed
      moreover have "dll (b # xs @ ys) (t\<lparr>held := held s\<rparr>)" using t by (simp add: dll_def)
      ultimately show "wp (lock_release LBcache) (\<lambda>_ t. t = u\<lparr>bufs := bufs t\<rparr> \<and>
        same_but_links (bufs u) (bufs t) \<and> (\<exists>ps. dll ps t)) t" using t by auto
    qed
    then have "wp (bnd (move_to_head b) (\<lambda>_. lock_release LBcache)) ?Q ?u" by (simp only: wp_bnd)
    moreover have "wp (brelse b) ?Q s = wp (bnd (move_to_head b) (\<lambda>_. lock_release LBcache)) ?Q ?u"
      unfolding brelse_def wp_bnd [of "holdingsleep (SBuf b)"] hs
      using h True by (simp add: rl n_def [symmetric] del: NPROC_def wp_bnd) (simp add: rl n_def [symmetric] del: NPROC_def)
    ultimately show ?thesis by simp
  qed
qed

lemma brelse_law:
  assumes ok: "bc_ok s" and o: "owns s b blk" and cl: "brefs s blk = 1 \<longrightarrow> bview s blk = dsk s blk"
  shows "wp (brelse b) (\<lambda>_ t. (\<forall>c x. owns s c x \<longrightarrow> x \<noteq> blk \<longrightarrow> owns t c x) \<and>
    bc_effect s t (bview s) ((brefs s)(blk := brefs s blk - 1)) ((blocked s)(blk := False)) (dsk s) (dwrites s)) s"
proof -
  note ow = ownsD [OF ok o]
  have i: "bc_inv (bufs s) (dsk s) (bcl s) (mypid s)" using ok by (simp add: bc_ok_def)
  define n where "n = b_refcnt (bufs s b) - 1"
  let ?nb = "(bufs s b)\<lparr>b_refcnt := n\<rparr>"
  let ?l = "\<lparr>sl_locked = False, sl_pid = 0\<rparr> :: sleeplock"
  let ?B = "(bufs s)(b := ?nb)"
  define u where "u = s\<lparr>slk := (slk s)(SBuf b := ?l), procs := wake_all (ChSleep (SBuf b)) NPROC (procs s), bufs := ?B\<rparr>"
  have n': "unat n = brefs s blk - 1" unfolding n_def using ow(6,9) unat_minus_1 by metis
  have "n = 0 \<Longrightarrow> brefs s blk = 1" using n' ow(6,9) by (metis One_nat_def Suc_pred unat_gt_0 unat_0 word_neq_0_conv)
  then have sl: "bc_slot (dsk s) (mypid s) ?nb ?l" using cl ow by (auto simp: bc_slot_def)
  note k = bc_keep [OF i ow(1,2), of ?nb]
  have bi: "bc_inv ?B (dsk s) ((bcl s)(b := ?l)) (mypid s)" using ow k(1) sl by (intro bc_inv_upd [OF i]) simp_all
  have bcl_u: "bcl u = (bcl s)(b := ?l)" and mp: "mypid u = mypid s" by (auto simp: u_def mypid_def)
  have "(\<forall>c x. owns s c x \<longrightarrow> x \<noteq> blk \<longrightarrow> owns t c x) \<and>
    bc_effect s t (bview s) ((brefs s)(blk := brefs s blk - 1)) ((blocked s)(blk := False)) (dsk s) (dwrites s)"
    if t: "t = u\<lparr>bufs := bufs t\<rparr>" "same_but_links (bufs u) (bufs t)" "dll ps t" for t ps
  proof -
    have f: "slk t = slk u" "procs t = procs u" "dsk t = dsk s" "dwrites t = dwrites s" "held t = held s" "cproc t = cproc s"
      by (subst t(1), simp add: u_def)+
    have bu: "bufs u = ?B" by (simp add: u_def)
    note L = same_but_linksD [OF t(2)[unfolded bu]] and O = same_but_links_obs [OF t(2)[unfolded bu]]
    have "bc_inv (bufs t) (dsk s) ((bcl s)(b := ?l)) (mypid s)"
      using bc_inv_links [OF bi t(2)[unfolded bu]] t(3) by (auto simp: dll_def simp del: NBUF_def)
    moreover have mt: "mypid t = mypid s" "bcl t = (bcl s)(b := ?l)" using f mp bcl_u by (simp_all add: mypid_def u_def)
    ultimately have "bc_ok t" using ok f by (simp add: bc_ok_def no_proc_lock_def)
    moreover have "clocked (bufs t) = clocked ?B" using O by (simp add: clocked_def fun_eq_iff)
    then have "bview t = bview s" "brefs t = (brefs s)(blk := brefs s blk - 1)" "blocked t = (blocked s)(blk := False)"
      using k(2,3) k(4) [of ?l] ow n' f mt unfolding bview_def brefs_def blocked_def O by (simp_all add: fun_upd_idem)
    moreover have "owns t c x" if "owns s c x" "x \<noteq> blk" for c x
      using that ow(3) f L by (auto simp: owns_def u_def)
    moreover have "t = s\<lparr>slk := slk t, procs := procs t, bufs := bufs t, dsk := dsk t, dwrites := dwrites t\<rparr>"
      by (subst t(1)) (simp add: u_def f)
    ultimately show ?thesis using f by (simp add: bc_effect_def bc_frame_def)
  qed
  moreover have "wp (brelse b) (\<lambda>_ t. t = u\<lparr>bufs := bufs t\<rparr> \<and> same_but_links (bufs u) (bufs t) \<and> (\<exists>ps. dll ps t)) s"
    using brelse_run [OF ok o] unfolding u_def n_def .
  ultimately show ?thesis by (auto elim!: wp_mono)
qed

section \<open>The interface of the cache\<close>

text \<open>
  What the layers above rely on: the view of the blocks, the reference counts, the set of locked blocks,
  the disk and the list of writes to it, and how each operation changes them.
\<close>

locale block_cache =
  fixes ok :: "'s \<Rightarrow> bool"
    and view :: "'s \<Rightarrow> uint \<Rightarrow> block"
    and refs :: "'s \<Rightarrow> uint \<Rightarrow> nat"
    and lckd :: "'s \<Rightarrow> uint \<Rightarrow> bool"
    and disk :: "'s \<Rightarrow> uint \<Rightarrow> block"
    and wrote :: "'s \<Rightarrow> (uint \<times> block) list"
    and owner :: "'s \<Rightarrow> nat \<Rightarrow> uint \<Rightarrow> bool"
    and frame :: "'s \<Rightarrow> 's \<Rightarrow> bool"
    and eff :: "'s \<Rightarrow> 's \<Rightarrow> (uint \<Rightarrow> block) \<Rightarrow> (uint \<Rightarrow> nat) \<Rightarrow> (uint \<Rightarrow> bool) \<Rightarrow> (uint \<Rightarrow> block) \<Rightarrow> (uint \<times> block) list \<Rightarrow> bool"
    and rd :: "uint \<Rightarrow> ('s, nat) kmon"
    and mv :: "nat \<Rightarrow> nat \<Rightarrow> ('s, unit) kmon"
    and wrt :: "nat \<Rightarrow> ('s, unit) kmon"
    and unpin :: "nat \<Rightarrow> ('s, unit) kmon"
    and rel :: "nat \<Rightarrow> ('s, unit) kmon"
    and cap :: nat
  assumes eff_iff: "eff s t V R K D W \<longleftrightarrow> ok t \<and> view t = V \<and> refs t = R \<and> lckd t = K \<and> disk t = D \<and> wrote t = W \<and> frame s t"
    and frame_trans: "frame s t \<Longrightarrow> frame t u \<Longrightarrow> frame s u"
    and rd_law: "ok s \<Longrightarrow> \<not> lckd s x \<Longrightarrow> refs s x \<noteq> 0 \<or> card {y. refs s y \<noteq> 0} < cap \<Longrightarrow> refs s x < 2 ^ 32 - 1 \<Longrightarrow>
      wp (rd x) (\<lambda>b t. owner t b x \<and> (\<forall>c y. owner s c y \<longrightarrow> owner t c y) \<and>
        eff s t (view s) ((refs s)(x := refs s x + 1)) ((lckd s)(x := True)) (disk s) (wrote s)) s"
    and mv_law: "ok s \<Longrightarrow> owner s i x \<Longrightarrow> owner s j y \<Longrightarrow>
      wp (mv j i) (\<lambda>_ t. (\<forall>c z. owner s c z \<longrightarrow> owner t c z) \<and> eff s t ((view s)(y := view s x)) (refs s) (lckd s) (disk s) (wrote s)) s"
    and wrt_law: "ok s \<Longrightarrow> owner s j y \<Longrightarrow>
      wp (wrt j) (\<lambda>_ t. (\<forall>c z. owner s c z \<longrightarrow> owner t c z) \<and>
        eff s t (view s) (refs s) (lckd s) ((disk s)(y := view s y)) (wrote s @ [(y, view s y)])) s"
    and unpin_law: "ok s \<Longrightarrow> owner s j y \<Longrightarrow> 1 < refs s y \<Longrightarrow>
      wp (unpin j) (\<lambda>_ t. (\<forall>c z. owner s c z \<longrightarrow> owner t c z) \<and>
        eff s t (view s) ((refs s)(y := refs s y - 1)) (lckd s) (disk s) (wrote s)) s"
    and rel_law: "ok s \<Longrightarrow> owner s j y \<Longrightarrow> (refs s y = 1 \<longrightarrow> view s y = disk s y) \<Longrightarrow>
      wp (rel j) (\<lambda>_ t. (\<forall>c z. owner s c z \<longrightarrow> z \<noteq> y \<longrightarrow> owner t c z) \<and>
        eff s t (view s) ((refs s)(y := refs s y - 1)) ((lckd s)(y := False)) (disk s) (wrote s)) s"
begin

lemma effD:
  assumes "eff s t V R K D W"
  shows "ok t" "view t = V" "refs t = R" "lckd t = K" "disk t = D" "wrote t = W" "frame s t"
  using assms by (simp_all add: eff_iff)

lemma eff_trans: "eff s t V R K D W \<Longrightarrow> eff t u V' R' K' D' W' \<Longrightarrow> eff s u V' R' K' D' W'"
  using frame_trans by (auto simp: eff_iff)

lemma two_reads:
  assumes "ok s" "\<not> lckd s x" "\<not> lckd s y" "x \<noteq> y" "refs s x \<noteq> 0 \<or> card {z. refs s z \<noteq> 0} < cap"
    "refs s y \<noteq> 0 \<or> card {z. refs s z \<noteq> 0} + 1 < cap" "refs s x < 2 ^ 32 - 1" "refs s y < 2 ^ 32 - 1"
  shows "wp (rd x) (\<lambda>i t. frame s t \<and> wp (rd y) (\<lambda>j u. owner u i x \<and> owner u j y \<and>
    eff s u (view s) ((refs s)(x := refs s x + 1, y := refs s y + 1)) ((lckd s)(x := True, y := True)) (disk s) (wrote s)) t) s"
proof (rule wp_mono [OF rd_law [OF assms(1,2,5,7)]])
  fix i t
  assume t: "owner t i x \<and> (\<forall>c y. owner s c y \<longrightarrow> owner t c y) \<and>
        eff s t (view s) ((refs s)(x := refs s x + 1)) ((lckd s)(x := True)) (disk s) (wrote s)"
  then have e: "eff s t (view s) ((refs s)(x := refs s x + 1)) ((lckd s)(x := True)) (disk s) (wrote s)" by blast
  note d = effD [OF e]
  have "{z. refs t z \<noteq> 0} = insert x {z. refs s z \<noteq> 0}" using d(3) by auto
  then have le: "card {z. refs t z \<noteq> 0} \<le> card {z. refs s z \<noteq> 0} + 1" by (simp add: card_insert_if)
  have cap_ok: "refs t y \<noteq> 0 \<or> card {z. refs t z \<noteq> 0} < cap"
  proof (cases "refs s y = 0")
    case True
    then have "card {z. refs s z \<noteq> 0} + 1 < cap" using assms(6) by blast
    then show ?thesis using le by linarith
  next
    case False
    then show ?thesis using d(3) assms(4) by simp
  qed
  have "\<not> lckd t y" "refs t y < 2 ^ 32 - 1" using assms d by simp_all
  from rd_law [OF d(1) this(1) cap_ok this(2)]
  have "wp (rd y) (\<lambda>j u. owner u j y \<and> (\<forall>c z. owner t c z \<longrightarrow> owner u c z) \<and>
      eff t u (view t) ((refs t)(y := refs t y + 1)) ((lckd t)(y := True)) (disk t) (wrote t)) t" .
  then show "frame s t \<and> wp (rd y) (\<lambda>j u. owner u i x \<and> owner u j y \<and>
    eff s u (view s) ((refs s)(x := refs s x + 1, y := refs s y + 1)) ((lckd s)(x := True, y := True)) (disk s) (wrote s)) t"
    using t d assms(4) eff_trans [OF e] by (auto elim!: wp_mono)
qed

text \<open>The end of copying one block to another through the cache.\<close>

lemma copy_tail:
  assumes "ok s" "owner s i x" "owner s j y" "x \<noteq> y" "refs s x = 1 \<longrightarrow> view s x = disk s x" "un \<longrightarrow> 1 < refs s y"
  shows "wp (bnd (mv j i) (\<lambda>_. bnd (wrt j) (\<lambda>_. bnd (if un then unpin j else ret ()) (\<lambda>_. bnd (rel i) (\<lambda>_. rel j)))))
    (\<lambda>_ t. eff s t ((view s)(y := view s x)) ((refs s)(x := refs s x - 1, y := refs s y - (if un then 2 else 1)))
      ((lckd s)(x := False, y := False)) ((disk s)(y := view s x)) (wrote s @ [(y, view s x)])) s"
  unfolding wp_bnd
proof (rule wp_mono [OF mv_law [OF assms(1-3)]], goal_cases)
  case (1 _ t)
  then have e1: "eff s t ((view s)(y := view s x)) (refs s) (lckd s) (disk s) (wrote s)" and o1: "owner t i x" "owner t j y"
    using assms by blast+
  note d1 = effD [OF e1]
  show ?case
  proof (rule wp_mono [OF wrt_law [OF d1(1) o1(2)]], goal_cases)
    case (1 _ u)
    then have e2: "eff t u (view t) (refs t) (lckd t) ((disk t)(y := view t y)) (wrote t @ [(y, view t y)])"
      and o2: "owner u i x" "owner u j y" using o1 by blast+
    note d2 = effD [OF e2]
    have "wp (if un then unpin j else ret ()) (\<lambda>_ v. owner v i x \<and> owner v j y \<and>
      eff s v (view u) ((refs s)(y := refs s y - (if un then 1 else 0))) (lckd s) (disk u) (wrote u)) u"
    proof (cases un)
      case True
      then have "1 < refs u y" using assms(6) d2 d1 by simp
      from unpin_law [OF d2(1) o2(2) this] show ?thesis
        using True o2 d1 d2 eff_trans [OF eff_trans [OF e1 e2]] by (auto elim!: wp_mono)
    next
      case False
      have "eff s u (view u) (refs u) (lckd u) (disk u) (wrote u)" using eff_trans [OF e1 e2] d2 by simp
      then show ?thesis using False o2 d1 d2 by simp
    qed
    then show ?case
    proof (rule wp_mono, goal_cases)
      case (1 _ v)
      then have e3: "eff s v (view u) ((refs s)(y := refs s y - (if un then 1 else 0))) (lckd s) (disk u) (wrote u)"
        and o3: "owner v i x" "owner v j y" by blast+
      note d3 = effD [OF e3]
      have "refs v x = 1 \<longrightarrow> view v x = disk v x" using assms(4,5) d1 d2 d3 by simp
      from rel_law [OF d3(1) o3(1) this] show ?case
      proof (rule wp_mono, goal_cases)
        case (1 _ w)
        then have e4: "eff v w (view v) ((refs v)(x := refs v x - 1)) ((lckd v)(x := False)) (disk v) (wrote v)"
          and o4: "owner w j y" using o3 assms(4) by blast+
        note d4 = effD [OF e4]
        have "view w y = disk w y" using d1 d2 d3 d4 by simp
        then have "wp (rel j) (\<lambda>_ t. eff w t (view w) ((refs w)(y := refs w y - 1)) ((lckd w)(y := False)) (disk w) (wrote w)) w"
          using rel_law [OF d4(1) o4] by (auto elim!: wp_mono)
        then show ?case
        proof (rule wp_mono)
          fix r t'
          assume "eff w t' (view w) ((refs w)(y := refs w y - 1)) ((lckd w)(y := False)) (disk w) (wrote w)"
          from eff_trans [OF eff_trans [OF e3 e4] this]
          show "eff s t' ((view s)(y := view s x)) ((refs s)(x := refs s x - 1, y := refs s y - (if un then 2 else 1)))
            ((lckd s)(x := False, y := False)) ((disk s)(y := view s x)) (wrote s @ [(y, view s x)])"
            using d1 d2 d3 d4 assms(4) by (simp add: fun_upd_twist [of x y] numeral_2_eq_2 split: if_splits)
        qed
      qed
    qed
  qed
qed

end

lemma bcopy_law:
  assumes "bc_ok s" "owns s i x" "owns s j y"
  shows "wp (bnd (getbuf i b_data) (\<lambda>d. setbuf j (\<lambda>r. r\<lparr>b_data := d\<rparr>))) (\<lambda>_ t. (\<forall>c z. owns s c z \<longrightarrow> owns t c z) \<and>
    bc_effect s t ((bview s)(y := bview s x)) (brefs s) (blocked s) (dsk s) (dwrites s)) s"
  using setdata_law [OF assms(1,3), of "b_data (bufs s i)"] ownsD(8) [OF assms(1,2)] by (simp del: wp_setbuf)

interpretation bcache: block_cache bc_ok bview brefs blocked dsk dwrites owns bc_frame bc_effect "bread ROOTDEV"
  "\<lambda>j i. bnd (getbuf i b_data) (\<lambda>d. setbuf j (\<lambda>r. r\<lparr>b_data := d\<rparr>))" bwrite bunpin brelse NBUF
proof (unfold_locales, goal_cases)
  case 1
  show ?case by (rule bc_effect_def)
next
  case 2
  then show ?case by (rule bc_frame_trans)
next
  case 3
  then show ?case by (rule bread_law)
next
  case 4
  then show ?case by (rule bcopy_law)
next
  case 5
  then show ?case by (rule bwrite_law)
next
  case 6
  then show ?case by (rule bunpin_law)
next
  case 7
  then show ?case by (rule brelse_law)
qed

text \<open>A cache for examples: buffer 3 holds block 100, with contents that are not on the disk.\<close>

definition demo_bufs :: "nat \<Rightarrow> buf" where
  "demo_bufs i = (if i = 3 then demo_buf\<lparr>b_valid := True, b_dev := 1, b_blockno := 100, b_refcnt := 1, b_data := (\<lambda>_. 7)\<rparr>
     else demo_buf\<lparr>b_valid := False, b_dev := 0, b_refcnt := 0\<rparr>)\<lparr>b_next := (i + 1) mod 31, b_prev := (i + 30) mod 31\<rparr>"

lemma demo_links: "links (\<lambda>i. (i + 1) mod 31) (\<lambda>i. (i + 30) mod 31) 30 [0..<30] 30"
  by code_simp

lemma demo_bufs_inv: "bc_inv demo_bufs (\<lambda>_ _. 0) (\<lambda>_. \<lparr>sl_locked = False, sl_pid = 0\<rparr>) pd"
proof -
  have "(\<lambda>i. b_next (demo_bufs i)) = (\<lambda>i. (i + 1) mod 31)" "(\<lambda>i. b_prev (demo_bufs i)) = (\<lambda>i. (i + 30) mod 31)"
    by (simp_all add: demo_bufs_def fun_eq_iff)
  then have "dllB [0..<30] demo_bufs" using demo_links by (simp add: atLeast0LessThan)
  then show ?thesis unfolding bc_inv_def
    by (auto simp: cuniq_def bc_slot_def demo_bufs_def split: if_splits)
qed

lemma demo_cslot: "cslot demo_bufs x = (if x = 100 then Some 3 else None)"
proof -
  have u: "cuniq demo_bufs" using demo_bufs_inv by (simp add: bc_inv_def)
  show ?thesis
  proof (cases "x = 100")
    case True
    then show ?thesis using cslot_Some [OF u, of 100 3] by (simp add: demo_bufs_def)
  next
    case False
    then show ?thesis by (auto simp: cslot_None demo_bufs_def)
  qed
qed

end
