(* ===== verification/Xv6_Log.thy ===== *)
theory Xv6_Log
  imports Xv6_Cache
begin

text \<open>
  Fields of disk blocks, and the write-ahead log (\<^verbatim>\<open>kernel/log.c\<close>).

  A block is a function from byte offsets; the structures stored in it are read and written with
  \<open>rd16\<close>, \<open>rd32\<close>, \<open>wr16\<close> and \<open>wr32\<close> in the byte order of the machine. \<open>lh_n\<close> and \<open>lh_block\<close> are the
  in-memory header \<open>log.lh\<close>; an access beyond \<open>LOGSIZE\<close> entries is a fault.
\<close>

section \<open>Little-endian fields\<close>

definition rd16 :: "block \<Rightarrow> nat \<Rightarrow> uint16" where
  "rd16 d o' = ucast (d o') OR push_bit 8 (ucast (d (o' + 1)))"

definition rd32 :: "block \<Rightarrow> nat \<Rightarrow> uint" where
  "rd32 d o' = ucast (d o') OR push_bit 8 (ucast (d (o' + 1))) OR push_bit 16 (ucast (d (o' + 2))) OR
     push_bit 24 (ucast (d (o' + 3)))"

definition wr16 :: "block \<Rightarrow> nat \<Rightarrow> uint16 \<Rightarrow> block" where
  "wr16 d o' v = d(o' := ucast v, o' + 1 := ucast (drop_bit 8 v))"

definition wr32 :: "block \<Rightarrow> nat \<Rightarrow> uint \<Rightarrow> block" where
  "wr32 d o' v = d(o' := ucast v, o' + 1 := ucast (drop_bit 8 v), o' + 2 := ucast (drop_bit 16 v),
     o' + 3 := ucast (drop_bit 24 v))"

lemma rd32_wr32 [simp]: "rd32 (wr32 d a v) a = v"
proof (rule bit_word_eqI)
  fix n
  assume "n < LENGTH(32)"
  then consider "n < 8" | "8 \<le> n" "n < 16" | "16 \<le> n" "n < 24" | "24 \<le> n" "n < 32" by fastforce
  then show "bit (rd32 (wr32 d a v) a) n = bit v n"
    by cases (auto simp: rd32_def wr32_def bit_or_iff bit_push_bit_iff bit_ucast_iff bit_drop_bit_eq)
qed

lemma rd16_wr16 [simp]: "rd16 (wr16 d a v) a = v"
  by (rule bit_word_eqI) (auto simp: rd16_def wr16_def bit_or_iff bit_push_bit_iff bit_ucast_iff bit_drop_bit_eq)

lemma rd32_wr32_other [simp]: "a + 4 \<le> b \<or> b + 4 \<le> a \<Longrightarrow> rd32 (wr32 d a v) b = rd32 d b"
  by (auto simp: rd32_def wr32_def)

lemma rd16_wr16_other [simp]: "a + 2 \<le> b \<or> b + 2 \<le> a \<Longrightarrow> rd16 (wr16 d a v) b = rd16 d b"
  by (auto simp: rd16_def wr16_def)

lemma rd16_wr32_other [simp]: "a + 4 \<le> b \<or> b + 2 \<le> a \<Longrightarrow> rd16 (wr32 d a v) b = rd16 d b"
  by (auto simp: rd16_def wr32_def)

lemma wr32_outside: "x < a \<or> a + 4 \<le> x \<Longrightarrow> wr32 d a v x = d x"
  by (auto simp: wr32_def)

lemma wr16_outside: "x < a \<or> a + 2 \<le> x \<Longrightarrow> wr16 d a v x = d x"
  by (auto simp: wr16_def)

lemma rd32_fold_wr32:
  "rd32 (fold (\<lambda>k d. wr32 d (a + 4 * k) (f k)) [0..<n] d) (a + 4 * i) = (if i < n then f i else rd32 d (a + 4 * i))"
proof (induction n)
  case 0
  then show ?case by simp
next
  case (Suc n)
  show ?case
  proof (cases "i = n")
    case True
    then show ?thesis by simp
  next
    case False
    then have "rd32 (wr32 e (a + 4 * n) v) (a + 4 * i) = rd32 e (a + 4 * i)" for e v
      by (intro rd32_wr32_other) linarith
    then show ?thesis using Suc False by simp
  qed
qed

lemma fold_wr32_outside: "x < a \<or> a + 4 * n \<le> x \<Longrightarrow> fold (\<lambda>k d. wr32 d (a + 4 * k) (f k)) [0..<n] d x = d x"
  by (induction n) (auto simp: wr32_outside)

section \<open>kernel/log.c\<close>

record logst = bufst +
  log_start :: cint
  log_size :: cint
  log_outstanding :: cint
  log_committing :: bool
  log_dev :: cint
  lh_n :: cint
  lh_block :: "nat \<Rightarrow> cint"

record superblock =
  sb_magic :: uint
  sb_size :: uint
  sb_nblocks :: uint
  sb_ninodes :: uint
  sb_nlog :: uint
  sb_logstart :: uint
  sb_inodestart :: uint
  sb_bmapstart :: uint

definition get_lh_block :: "nat \<Rightarrow> ('z logst_scheme, cint) kmon" where
  "get_lh_block i = (if i \<ge> LOGSIZE then fault else gets (\<lambda>s. lh_block s i))"

definition set_lh_block :: "nat \<Rightarrow> cint \<Rightarrow> ('z logst_scheme, unit) kmon" where
  "set_lh_block i v = (if i \<ge> LOGSIZE then fault else modify (\<lambda>s. s\<lparr>lh_block := (lh_block s)(i := v)\<rparr>))"

text \<open>\<open>memmove(to->data, from->data, BSIZE)\<close>.\<close>

definition bmove :: "nat \<Rightarrow> nat \<Rightarrow> ('z bufst_scheme, unit) kmon" where
  "bmove to from' = bnd (getbuf from' b_data) (\<lambda>d. setbuf to (\<lambda>r. r\<lparr>b_data := d\<rparr>))"

definition install_one :: "bool \<Rightarrow> nat \<Rightarrow> ('z logst_scheme, unit) kmon" where
  "install_one recovering tail =
     bnd (gets log_dev) (\<lambda>dev.
     bnd (gets log_start) (\<lambda>start.
     bnd (bread dev (start + of_nat tail + 1)) (\<lambda>lbuf.
     bnd (get_lh_block tail) (\<lambda>blk.
     bnd (bread dev blk) (\<lambda>dbuf.
     bnd (bmove dbuf lbuf) (\<lambda>_.
     bnd (bwrite dbuf) (\<lambda>_.
     bnd (if \<not> recovering then bunpin dbuf else ret ()) (\<lambda>_.
     bnd (brelse lbuf) (\<lambda>_.
     brelse dbuf)))))))))"

definition install_trans :: "bool \<Rightarrow> ('z logst_scheme, unit) kmon" where
  "install_trans recovering = bnd (gets lh_n) (\<lambda>n. for_each [0..<nat (sint n)] (install_one recovering))"

definition read_head :: "('z logst_scheme, unit) kmon" where
  "read_head =
     bnd (gets log_dev) (\<lambda>dev.
     bnd (gets log_start) (\<lambda>start.
     bnd (bread dev start) (\<lambda>b.
     bnd (getbuf b b_data) (\<lambda>lh.
     bnd (modify (\<lambda>s. s\<lparr>lh_n := rd32 lh 0\<rparr>)) (\<lambda>_.
     bnd (for_each [0..<nat (sint (rd32 lh 0))] (\<lambda>i. set_lh_block i (rd32 lh (4 + 4 * i)))) (\<lambda>_.
     brelse b))))))"

definition write_head :: "('z logst_scheme, unit) kmon" where
  "write_head =
     bnd (gets log_dev) (\<lambda>dev.
     bnd (gets log_start) (\<lambda>start.
     bnd (bread dev start) (\<lambda>b.
     bnd (gets lh_n) (\<lambda>n.
     bnd (setbuf b (\<lambda>r. r\<lparr>b_data := wr32 (b_data r) 0 n\<rparr>)) (\<lambda>_.
     bnd (for_each [0..<nat (sint n)] (\<lambda>i.
       bnd (get_lh_block i) (\<lambda>v.
       setbuf b (\<lambda>r. r\<lparr>b_data := wr32 (b_data r) (4 + 4 * i) v\<rparr>)))) (\<lambda>_.
     bnd (bwrite b) (\<lambda>_.
     brelse b)))))))"

definition recover_from_log :: "('z logst_scheme, unit) kmon" where
  "recover_from_log =
     bnd read_head (\<lambda>_.
     bnd (install_trans True) (\<lambda>_.
     bnd (modify (\<lambda>s. s\<lparr>lh_n := 0\<rparr>)) (\<lambda>_.
     write_head)))"

definition initlog :: "cint \<Rightarrow> superblock \<Rightarrow> ('z logst_scheme, unit) kmon" where
  "initlog dev sb =
     (if 4 + 4 * LOGSIZE \<ge> BSIZE then panic ''initlog: too big logheader'' else
      bnd (modify (\<lambda>s. s\<lparr>log_start := sb_logstart sb, log_size := sb_nlog sb, log_dev := dev\<rparr>)) (\<lambda>_.
      recover_from_log))"

definition begin_op_loop :: "('z logst_scheme, unit) kmon" where
  "begin_op_loop =
     bnd (gets log_committing) (\<lambda>committing.
     if committing then sleep ChLog LLog else
     bnd (gets (\<lambda>s. lh_n s + (log_outstanding s + 1) * of_nat MAXOPBLOCKS)) (\<lambda>need.
     if sint need > int LOGSIZE then sleep ChLog LLog else
     bnd (modify (\<lambda>s. s\<lparr>log_outstanding := log_outstanding s + 1\<rparr>)) (\<lambda>_.
     lock_release LLog)))"

definition begin_op :: "('z logst_scheme, unit) kmon" where
  "begin_op = bnd (lock_acquire LLog) (\<lambda>_. begin_op_loop)"

definition begin_op_resume :: "('z logst_scheme, unit) kmon" where
  "begin_op_resume = bnd (sleep_resume LLog) (\<lambda>_. begin_op_loop)"

definition write_log_one :: "nat \<Rightarrow> ('z logst_scheme, unit) kmon" where
  "write_log_one tail =
     bnd (gets log_dev) (\<lambda>dev.
     bnd (gets log_start) (\<lambda>start.
     bnd (bread dev (start + of_nat tail + 1)) (\<lambda>to.
     bnd (get_lh_block tail) (\<lambda>blk.
     bnd (bread dev blk) (\<lambda>from'.
     bnd (bmove to from') (\<lambda>_.
     bnd (bwrite to) (\<lambda>_.
     bnd (brelse from') (\<lambda>_.
     brelse to))))))))"

definition write_log :: "('z logst_scheme, unit) kmon" where
  "write_log = bnd (gets lh_n) (\<lambda>n. for_each [0..<nat (sint n)] write_log_one)"

definition commit :: "('z logst_scheme, unit) kmon" where
  "commit =
     bnd (gets lh_n) (\<lambda>n.
     if sint n > 0 then
       bnd write_log (\<lambda>_.
       bnd write_head (\<lambda>_.
       bnd (install_trans False) (\<lambda>_.
       bnd (modify (\<lambda>s. s\<lparr>lh_n := 0\<rparr>)) (\<lambda>_.
       write_head))))
     else ret ())"

definition end_op :: "('z logst_scheme, unit) kmon" where
  "end_op =
     bnd (lock_acquire LLog) (\<lambda>_.
     bnd (modify (\<lambda>s. s\<lparr>log_outstanding := log_outstanding s - 1\<rparr>)) (\<lambda>_.
     bnd (gets log_committing) (\<lambda>committing.
     if committing then panic ''log.committing'' else
     bnd (gets log_outstanding) (\<lambda>n.
     if n = 0 then
       bnd (modify (\<lambda>s. s\<lparr>log_committing := True\<rparr>)) (\<lambda>_.
       bnd (lock_release LLog) (\<lambda>_.
       bnd commit (\<lambda>_.
       bnd (lock_acquire LLog) (\<lambda>_.
       bnd (modify (\<lambda>s. s\<lparr>log_committing := False\<rparr>)) (\<lambda>_.
       bnd (wakeup ChLog) (\<lambda>_.
       lock_release LLog))))))
     else
       bnd (wakeup ChLog) (\<lambda>_.
       lock_release LLog)))))"

text \<open>The search of \<open>log_write\<close>: the entry of a block that is already in the log, or the next free one.\<close>

definition log_index :: "(nat \<Rightarrow> cint) \<Rightarrow> cint \<Rightarrow> uint \<Rightarrow> nat" where
  "log_index block n blockno =
     (case List.find (\<lambda>i. block i = blockno) [0..<nat (sint n)] of Some i \<Rightarrow> i | None \<Rightarrow> nat (sint n))"

definition log_write :: "nat \<Rightarrow> ('z logst_scheme, unit) kmon" where
  "log_write b =
     bnd (lock_acquire LLog) (\<lambda>_.
     bnd (gets lh_n) (\<lambda>n.
     bnd (gets log_size) (\<lambda>size.
     if sint n \<ge> int LOGSIZE \<or> sint n \<ge> sint (size - 1) then panic ''too big a transaction'' else
     bnd (gets log_outstanding) (\<lambda>outstanding.
     if sint outstanding < 1 then panic ''log_write outside of trans'' else
     bnd (getbuf b b_blockno) (\<lambda>blockno.
     bnd (gets (\<lambda>s. log_index (lh_block s) n blockno)) (\<lambda>i.
     bnd (set_lh_block i blockno) (\<lambda>_.
     bnd (if int i = sint n then
            bnd (bpin b) (\<lambda>_. modify (\<lambda>s. s\<lparr>lh_n := lh_n s + 1\<rparr>))
          else ret ()) (\<lambda>_.
     lock_release LLog))))))))"

text \<open>A state for examples.\<close>

definition demo_logst :: logst where
  "demo_logst = bufst.extend demo_bufst \<lparr>log_start = 2, log_size = 30, log_outstanding = 0, log_committing = False,
     log_dev = 1, lh_n = 0, lh_block = (\<lambda>_. 0)\<rparr>"

end
