(* ===== verification/Xv6_Crash.thy ===== *)
theory Xv6_Crash
  imports Xv6_Log
begin

text \<open>
  Crash safety of the write-ahead log (\<^verbatim>\<open>kernel/log.c\<close>). The first sections compute what \<open>write_log\<close>,
  \<open>write_head\<close>, \<open>install_trans\<close>, \<open>commit\<close> and \<open>recover_from_log\<close> do to the cache and to the disk, from the laws
  of the buffer cache; \<open>replay\<close> is the effect of a recovery on a disk. The last section looks at the disk
  after every prefix of the writes of a commit. A write of one block is atomic.
\<close>

section \<open>Sequences of disk writes\<close>

definition apply_writes :: "(uint \<times> block) list \<Rightarrow> (uint \<Rightarrow> block) \<Rightarrow> uint \<Rightarrow> block" where
  "apply_writes W D = fold (\<lambda>(x, d) D. D(x := d)) W D"

definition puts :: "(nat \<Rightarrow> uint) \<Rightarrow> (nat \<Rightarrow> block) \<Rightarrow> nat \<Rightarrow> (uint \<times> block) list" where
  "puts a v m = map (\<lambda>i. (a i, v i)) [0..<m]"

lemma apply_writes_simps [simp]:
  "apply_writes [] D = D" "apply_writes ((x, d) # W) D = apply_writes W (D(x := d))"
  "apply_writes (W @ W') D = apply_writes W' (apply_writes W D)"
  by (simp_all add: apply_writes_def)

lemma puts_simps [simp]: "puts a v 0 = []" "puts a v (Suc m) = puts a v m @ [(a m, v m)]" "length (puts a v m) = m"
  by (simp_all add: puts_def)

lemma take_puts: "take k (puts a v m) = puts a v (min k m)"
  by (cases "k \<le> m") (simp_all add: puts_def take_map min_def)

lemma puts_out: "x \<notin> a ` {..<m} \<Longrightarrow> apply_writes (puts a v m) D x = D x"
  by (induction m) (auto simp: lessThan_Suc)

lemma puts_in: "inj_on a {..<m} \<Longrightarrow> i < m \<Longrightarrow> apply_writes (puts a v m) D (a i) = v i"
proof (induction m)
  case 0
  then show ?case by simp
next
  case (Suc m)
  show ?case
  proof (cases "i = m")
    case False
    then have "a i \<noteq> a m" using Suc.prems by (auto dest: inj_onD)
    moreover have "inj_on a {..<m}" using Suc.prems(1) by (rule inj_on_subset) auto
    ultimately show ?thesis using Suc False by simp
  qed simp
qed

section \<open>The layout of the log\<close>

definition logb :: "uint \<Rightarrow> nat \<Rightarrow> uint" where
  "logb start i = start + of_nat i + 1"

definition log_area :: "uint \<Rightarrow> uint set" where
  "log_area start = insert start (logb start ` {..<LOGSIZE})"

definition head_block :: "nat \<Rightarrow> (nat \<Rightarrow> uint) \<Rightarrow> block \<Rightarrow> block" where
  "head_block n h d = fold (\<lambda>i d. wr32 d (4 + 4 * i) (h i)) [0..<n] (wr32 d 0 (of_nat n))"

definition log_ok :: "uint \<Rightarrow> nat \<Rightarrow> (nat \<Rightarrow> uint) \<Rightarrow> bool" where
  "log_ok start n h \<longleftrightarrow> n < NBUF \<and> inj_on h {..<n} \<and> (\<forall>i<n. h i \<notin> log_area start)"

lemma of_nat_small: "i < 100 \<Longrightarrow> unat (of_nat i :: uint) = i"
  by (simp add: unat_of_nat take_bit_nat_eq_self)

lemma logb_inj: "inj_on (logb start) {..<100}"
proof (rule inj_onI)
  fix i j
  assume i: "i \<in> {..<100}" and j: "j \<in> {..<100}" and e: "logb start i = logb start j"
  have "(of_nat i :: uint) = of_nat j" using e unfolding logb_def add_right_cancel add_left_cancel .
  then have "unat (of_nat i :: uint) = unat (of_nat j :: uint)" by (rule arg_cong)
  then show "i = j" unfolding of_nat_small [OF lessThan_iff [THEN iffD1, OF i]] of_nat_small [OF lessThan_iff [THEN iffD1, OF j]] .
qed

lemma logb_ne_start: "i < 100 \<Longrightarrow> logb start i \<noteq> start"
proof
  assume i: "i < 100" and "logb start i = start"
  then have "of_nat (Suc i) = (0 :: uint)" by (simp add: logb_def algebra_simps)
  moreover have "unat (of_nat (Suc i) :: uint) = Suc i" using i by (simp add: unat_of_nat take_bit_nat_eq_self del: of_nat_Suc)
  ultimately show False by simp
qed

lemma logb_area: "i < LOGSIZE \<Longrightarrow> logb start i \<in> log_area start"
  by (simp add: log_area_def)

lemma log_okD:
  assumes "log_ok start n h" "i < n"
  shows "i < LOGSIZE" "h i \<noteq> start" "j < LOGSIZE \<Longrightarrow> h i \<noteq> logb start j" "logb start i \<noteq> start"
  using assms logb_ne_start [of i start] by (auto simp: log_ok_def log_area_def)

lemma head_block_0: "rd32 (head_block n h d) 0 = of_nat n"
proof -
  have "fold (\<lambda>i d. wr32 d (4 + 4 * i) (h i)) [0..<n] e x = e x" if "x < 4" for e x
    using that by (intro fold_wr32_outside) simp
  then have "rd32 (head_block n h d) 0 = rd32 (wr32 d 0 (of_nat n)) 0" by (simp add: head_block_def rd32_def)
  then show ?thesis by simp
qed

lemma head_block_entry: "i < n \<Longrightarrow> rd32 (head_block n h d) (4 + 4 * i) = h i"
  by (simp add: head_block_def rd32_fold_wr32)

section \<open>Steps of a commit\<close>

lemma bc_frame_log:
  assumes "bc_frame s t"
  shows "log_start t = log_start s" "log_dev t = log_dev s" "lh_n t = lh_n s" "lh_block t = lh_block s"
    "log_size t = log_size s" "log_outstanding t = log_outstanding s" "log_committing t = log_committing s"
  by (subst assms [unfolded bc_frame_def], simp)+

text \<open>What a log operation leaves alone: everything but the buffer cache, the disk, the sleep-locks and the entries of the log.\<close>

definition log_frame :: "'z logst_scheme \<Rightarrow> 'z logst_scheme \<Rightarrow> bool" where
  "log_frame s t \<longleftrightarrow> t = s\<lparr>slk := slk t, procs := procs t, bufs := bufs t, dsk := dsk t, dwrites := dwrites t,
     lh_n := lh_n t, lh_block := lh_block t\<rparr>"

lemma log_frame_refl: "log_frame s s"
  by (simp add: log_frame_def)

lemma log_frame_trans: "log_frame s t \<Longrightarrow> log_frame t u \<Longrightarrow> log_frame s u"
  unfolding log_frame_def
proof -
  assume a: "t = s\<lparr>slk := slk t, procs := procs t, bufs := bufs t, dsk := dsk t, dwrites := dwrites t, lh_n := lh_n t, lh_block := lh_block t\<rparr>"
    and b: "u = t\<lparr>slk := slk u, procs := procs u, bufs := bufs u, dsk := dsk u, dwrites := dwrites u, lh_n := lh_n u, lh_block := lh_block u\<rparr>"
  show "u = s\<lparr>slk := slk u, procs := procs u, bufs := bufs u, dsk := dsk u, dwrites := dwrites u, lh_n := lh_n u, lh_block := lh_block u\<rparr>"
    by (subst b, subst a) simp
qed

lemma bc_frame_log_frame:
  assumes "bc_frame s t"
  shows "log_frame s t"
proof -
  have a: "t = s\<lparr>slk := slk t, procs := procs t, bufs := bufs t, dsk := dsk t, dwrites := dwrites t\<rparr>" using assms by (simp add: bc_frame_def)
  have "lh_n t = lh_n s" "lh_block t = lh_block s" using bc_frame_log [OF assms] by simp_all
  then show ?thesis unfolding log_frame_def using a by simp
qed

lemma log_frame_sel:
  assumes "log_frame s t"
  shows "held t = held s" "log_start t = log_start s" "log_size t = log_size s" "log_dev t = log_dev s"
    "log_outstanding t = log_outstanding s" "log_committing t = log_committing s" "cproc t = cproc s"
  by (subst assms [unfolded log_frame_def], simp)+

lemma bc_log_upd [simp]:
  "bc_ok (s\<lparr>lh_n := m\<rparr>) = bc_ok s" "bview (s\<lparr>lh_n := m\<rparr>) = bview s" "brefs (s\<lparr>lh_n := m\<rparr>) = brefs s"
  "blocked (s\<lparr>lh_n := m\<rparr>) = blocked s" "bc_ok (s\<lparr>lh_block := g\<rparr>) = bc_ok s" "bview (s\<lparr>lh_block := g\<rparr>) = bview s"
  "brefs (s\<lparr>lh_block := g\<rparr>) = brefs s" "blocked (s\<lparr>lh_block := g\<rparr>) = blocked s" "owns (s\<lparr>lh_n := m\<rparr>) = owns s" "owns (s\<lparr>lh_block := g\<rparr>) = owns s"
  by (simp_all add: bc_ok_def bview_def brefs_def blocked_def mypid_def no_proc_lock_def owns_def fun_eq_iff)

lemma wp_lh_block [kwp, simp]:
  "wp (get_lh_block i) Q s = (i < LOGSIZE \<and> Q (lh_block s i) s)"
  "wp (set_lh_block i v) Q' s = (i < LOGSIZE \<and> Q' () (s\<lparr>lh_block := (lh_block s)(i := v)\<rparr>))"
  by (auto simp: get_lh_block_def set_lh_block_def)

text \<open>No buffer is locked, and exactly the blocks in \<open>P\<close> are pinned, once each.\<close>

definition pinned :: "uint set \<Rightarrow> 'z bufst_scheme \<Rightarrow> bool" where
  "pinned P s \<longleftrightarrow> bc_ok s \<and> blocked s = (\<lambda>_. False) \<and> brefs s = (\<lambda>x. of_bool (x \<in> P))"

lemma pinned_card: "pinned P s \<Longrightarrow> card {x. brefs s x \<noteq> 0} = card P"
  by (simp add: pinned_def)

lemma pinned_clean:
  assumes "pinned P s" "x \<notin> P"
  shows "bview s x = dsk s x"
proof (cases "cslot (bufs s) x")
  case None
  then show ?thesis by (simp add: bview_def cview_def)
next
  case (Some b)
  have i: "bc_inv (bufs s) (dsk s) (bcl s) (mypid s)" and u: "cuniq (bufs s)" using assms(1) by (auto simp: pinned_def bc_ok_def bc_inv_def)
  have b: "b < NBUF" "b_dev (bufs s b) = ROOTDEV" "b_blockno (bufs s b) = x" using Some cslot_Some [OF u] by blast+
  have "brefs s x = 0" using assms by (simp add: pinned_def)
  then have "b_refcnt (bufs s b) = 0" using Some by (simp add: brefs_def crefs_def unat_eq_0)
  moreover have "bc_slot (dsk s) (mypid s) (bufs s b) (slk s (SBuf b))" using i b(1) by (simp add: bc_inv_def)
  ultimately show ?thesis using b Some by (auto simp: bview_def cview_def bc_slot_def)
qed

lemma write_log_one_law:
  assumes s: "pinned P s" and P: "card P < NBUF" "lh_block s i \<in> P" "logb (log_start s) i \<notin> P" and i: "i < LOGSIZE" "log_dev s = ROOTDEV"
  shows "wp (write_log_one i) (\<lambda>_ t. bc_effect s t ((bview s)(logb (log_start s) i := bview s (lh_block s i))) (brefs s) (blocked s)
    ((dsk s)(logb (log_start s) i := bview s (lh_block s i))) (dwrites s @ [(logb (log_start s) i, bview s (lh_block s i))])) s"
proof -
  let ?x = "logb (log_start s) i"
  let ?y = "lh_block s i"
  have c: "card {z. brefs s z \<noteq> 0} = card P" using pinned_card [OF s] .
  have ok: "bc_ok s" and bl: "blocked s = (\<lambda>_. False)" and r: "brefs s ?x = 0" "brefs s ?y = 1" using s P by (simp_all add: pinned_def)
  have ne: "?x \<noteq> ?y" using P(2,3) by auto
  have two: "wp (bread ROOTDEV ?x) (\<lambda>a t. bc_frame s t \<and> wp (bread ROOTDEV ?y) (\<lambda>b u. owns u a ?x \<and> owns u b ?y \<and>
    bc_effect s u (bview s) ((brefs s)(?x := brefs s ?x + 1, ?y := brefs s ?y + 1)) ((blocked s)(?x := True, ?y := True)) (dsk s) (dwrites s)) t) s"
    using ok bl r ne P(1) c by (intro bcache.two_reads) (simp_all del: NBUF_def ROOTDEV_def)
  show ?thesis unfolding write_log_one_def wp_bnd wp_gets i(2) logb_def [symmetric]
  proof (rule wp_mono [OF two], goal_cases)
    case (1 a t)
    then have f: "lh_block t = lh_block s" using bc_frame_log by blast
    show ?case unfolding wp_lh_block f
    proof (rule conjI [OF i(1)], rule wp_mono [OF conjunct2 [OF 1]], goal_cases)
      case (1 b u)
      then have e: "bc_effect s u (bview s) ((brefs s)(?x := brefs s ?x + 1, ?y := brefs s ?y + 1)) ((blocked s)(?x := True, ?y := True)) (dsk s) (dwrites s)"
        and o: "owns u b ?y" "owns u a ?x" by blast+
      note d = bcache.effD [OF e]
      have "brefs u ?y = 1 \<longrightarrow> bview u ?y = dsk u ?y" using d r by simp
      from bcache.copy_tail [where un = False, OF d(1) o ne [symmetric] this]
      have "wp (bnd (bmove a b) (\<lambda>_. bnd (bwrite a) (\<lambda>_. bnd (brelse b) (\<lambda>_. brelse a))))
        (\<lambda>_ t. bc_effect u t ((bview u)(?x := bview u ?y)) ((brefs u)(?y := brefs u ?y - 1, ?x := brefs u ?x - 1))
          ((blocked u)(?y := False, ?x := False)) ((dsk u)(?x := bview u ?y)) (dwrites u @ [(?x, bview u ?y)])) u"
        unfolding bmove_def by (simp only: if_False bnd_ret_left simp_thms)
      then have "wp (bnd (bmove a b) (\<lambda>_. bnd (bwrite a) (\<lambda>_. bnd (brelse b) (\<lambda>_. brelse a))))
        (\<lambda>_ t. bc_effect s t ((bview s)(?x := bview s ?y)) (brefs s) (blocked s) ((dsk s)(?x := bview s ?y)) (dwrites s @ [(?x, bview s ?y)])) u"
      proof (rule wp_mono)
        fix w t
        assume "bc_effect u t ((bview u)(?x := bview u ?y)) ((brefs u)(?y := brefs u ?y - 1, ?x := brefs u ?x - 1))
          ((blocked u)(?y := False, ?x := False)) ((dsk u)(?x := bview u ?y)) (dwrites u @ [(?x, bview u ?y)])"
        from bcache.eff_trans [OF e this]
        show "bc_effect s t ((bview s)(?x := bview s ?y)) (brefs s) (blocked s) ((dsk s)(?x := bview s ?y)) (dwrites s @ [(?x, bview s ?y)])"
          using d ne bl by (simp add: fun_upd_idem fun_upd_twist)
      qed
      then show ?case unfolding wp_bnd .
    qed
  qed
qed

lemma install_one_law:
  assumes s: "pinned P s" and P: "card P < NBUF" "lh_block s i \<in> P \<longleftrightarrow> \<not> recovering" "recovering \<longrightarrow> card P + 1 < NBUF"
    "logb (log_start s) i \<notin> P" "logb (log_start s) i \<noteq> lh_block s i" and i: "i < LOGSIZE" "log_dev s = ROOTDEV"
  shows "wp (install_one recovering i) (\<lambda>_ t. bc_effect s t ((bview s)(lh_block s i := bview s (logb (log_start s) i)))
    ((brefs s)(lh_block s i := 0)) (blocked s) ((dsk s)(lh_block s i := bview s (logb (log_start s) i)))
    (dwrites s @ [(lh_block s i, bview s (logb (log_start s) i))])) s"
proof -
  let ?x = "logb (log_start s) i"
  let ?y = "lh_block s i"
  have c: "card {z. brefs s z \<noteq> 0} = card P" using pinned_card [OF s] .
  have ok: "bc_ok s" and bl: "blocked s = (\<lambda>_. False)" and r: "brefs s ?x = 0" "brefs s ?y = of_bool (\<not> recovering)"
    using s P by (simp_all add: pinned_def)
  have cx: "bview s ?x = dsk s ?x" using pinned_clean [OF s P(4)] .
  note ne = P(5)
  have "brefs s ?y \<noteq> 0 \<or> card {z. brefs s z \<noteq> 0} + 1 < NBUF" using r P(3) c by (cases recovering) simp_all
  then have two: "wp (bread ROOTDEV ?x) (\<lambda>a t. bc_frame s t \<and> wp (bread ROOTDEV ?y) (\<lambda>b u. owns u a ?x \<and> owns u b ?y \<and>
    bc_effect s u (bview s) ((brefs s)(?x := brefs s ?x + 1, ?y := brefs s ?y + 1)) ((blocked s)(?x := True, ?y := True)) (dsk s) (dwrites s)) t) s"
    using ok bl r ne P(1) c by (intro bcache.two_reads) (simp_all del: NBUF_def ROOTDEV_def)
  show ?thesis unfolding install_one_def wp_bnd wp_gets i(2) logb_def [symmetric]
  proof (rule wp_mono [OF two], goal_cases)
    case (1 a t)
    then have f: "lh_block t = lh_block s" using bc_frame_log by blast
    show ?case unfolding wp_lh_block f
    proof (rule conjI [OF i(1)], rule wp_mono [OF conjunct2 [OF 1]], goal_cases)
      case (1 b u)
      then have e: "bc_effect s u (bview s) ((brefs s)(?x := brefs s ?x + 1, ?y := brefs s ?y + 1)) ((blocked s)(?x := True, ?y := True)) (dsk s) (dwrites s)"
        and o: "owns u a ?x" "owns u b ?y" by blast+
      note d = bcache.effD [OF e]
      have "brefs u ?x = 1 \<longrightarrow> bview u ?x = dsk u ?x" "\<not> recovering \<longrightarrow> 1 < brefs u ?y" using d r cx by simp_all
      from bcache.copy_tail [where un = "\<not> recovering", OF d(1) o ne this]
      have "wp (bnd (bmove b a) (\<lambda>_. bnd (bwrite b) (\<lambda>_. bnd (if \<not> recovering then bunpin b else ret ()) (\<lambda>_. bnd (brelse a) (\<lambda>_. brelse b)))))
        (\<lambda>_ t. bc_effect u t ((bview u)(?y := bview u ?x)) ((brefs u)(?x := brefs u ?x - 1, ?y := brefs u ?y - (if \<not> recovering then 2 else 1)))
          ((blocked u)(?x := False, ?y := False)) ((dsk u)(?y := bview u ?x)) (dwrites u @ [(?y, bview u ?x)])) u"
        unfolding bmove_def .
      then have "wp (bnd (bmove b a) (\<lambda>_. bnd (bwrite b) (\<lambda>_. bnd (if \<not> recovering then bunpin b else ret ()) (\<lambda>_. bnd (brelse a) (\<lambda>_. brelse b)))))
        (\<lambda>_ t. bc_effect s t ((bview s)(?y := bview s ?x)) ((brefs s)(?y := 0)) (blocked s) ((dsk s)(?y := bview s ?x)) (dwrites s @ [(?y, bview s ?x)])) u"
      proof (rule wp_mono)
        fix w t
        assume a: "bc_effect u t ((bview u)(?y := bview u ?x)) ((brefs u)(?x := brefs u ?x - 1, ?y := brefs u ?y - (if \<not> recovering then 2 else 1)))
          ((blocked u)(?x := False, ?y := False)) ((dsk u)(?y := bview u ?x)) (dwrites u @ [(?y, bview u ?x)])"
        have "(brefs u)(?x := brefs u ?x - 1, ?y := brefs u ?y - (if \<not> recovering then 2 else 1)) = (brefs s)(?y := 0)"
          using d(3) ne r by (auto simp: fun_eq_iff)
        moreover have "(blocked u)(?x := False, ?y := False) = blocked s" using d(4) bl by (simp add: fun_eq_iff)
        ultimately show "bc_effect s t ((bview s)(?y := bview s ?x)) ((brefs s)(?y := 0)) (blocked s) ((dsk s)(?y := bview s ?x)) (dwrites s @ [(?y, bview s ?x)])"
          using bcache.eff_trans [OF e a] d by simp
      qed
      then show ?case unfolding wp_bnd .
    qed
  qed
qed

text \<open>Reading, changing, writing and releasing one block that nobody refers to: the header.\<close>

lemma setdata_fun_law:
  assumes "bc_ok s" "owns s b blk"
  shows "wp (setbuf b (\<lambda>r. r\<lparr>b_data := f (b_data r)\<rparr>)) (\<lambda>_ t. (\<forall>c x. owns s c x \<longrightarrow> owns t c x) \<and>
    bc_effect s t ((bview s)(blk := f (bview s blk))) (brefs s) (blocked s) (dsk s) (dwrites s)) s"
  using setdata_law [OF assms, of "f (b_data (bufs s b))"] ownsD(8) [OF assms] by (simp add: wp_def setbuf_def)

lemma write_head_law:
  assumes s: "pinned P s" and P: "card P < NBUF" "log_start s \<notin> P" and n: "lh_n s = of_nat n" "n < NBUF" and dev: "log_dev s = ROOTDEV"
  defines "d \<equiv> head_block n (lh_block s) (bview s (log_start s))"
  shows "wp write_head (\<lambda>_ t. bc_effect s t ((bview s)(log_start s := d)) (brefs s) (blocked s)
    ((dsk s)(log_start s := d)) (dwrites s @ [(log_start s, d)])) s"
proof -
  let ?x = "log_start s"
  have c: "card {z. brefs s z \<noteq> 0} = card P" using pinned_card [OF s] .
  have ok: "bc_ok s" and bl: "blocked s = (\<lambda>_. False)" and r: "brefs s ?x = 0" using s P by (simp_all add: pinned_def)
  have nn: "nat (sint (of_nat n :: cint)) = n" using n(2) by (intro nat_sint_of_nat) simp
  have "wp (bread ROOTDEV ?x) (\<lambda>b t. owns t b ?x \<and> (\<forall>c x. owns s c x \<longrightarrow> owns t c x) \<and>
    bc_effect s t (bview s) ((brefs s)(?x := brefs s ?x + 1)) ((blocked s)(?x := True)) (dsk s) (dwrites s)) s"
    using ok bl r P(1) c by (intro bread_law) simp_all
  then show ?thesis unfolding write_head_def wp_bnd wp_gets dev
  proof (rule wp_mono, goal_cases)
    case (1 b t)
    then have e: "bc_effect s t (bview s) ((brefs s)(?x := brefs s ?x + 1)) ((blocked s)(?x := True)) (dsk s) (dwrites s)"
      and o: "owns t b ?x" by blast+
    note dt = bcache.effD [OF e] and fr = bc_frame_log [OF bcache.effD(7) [OF e]]
    let ?e = "\<lambda>V u. owns u b ?x \<and> bc_effect t u ((bview t)(?x := V)) (brefs t) (blocked t) (dsk t) (dwrites t)"
    have set0: "wp (setbuf b (\<lambda>r. r\<lparr>b_data := wr32 (b_data r) 0 (lh_n t)\<rparr>)) (\<lambda>_. ?e (wr32 (bview t ?x) 0 (lh_n t))) t"
      by (rule wp_mono [OF setdata_fun_law [OF dt(1) o, of "\<lambda>d. wr32 d 0 (lh_n t)"]]) (use o in blast)
    have loop: "wp (for_each [0..<n] (\<lambda>i. bnd (get_lh_block i) (\<lambda>v. setbuf b (\<lambda>r. r\<lparr>b_data := wr32 (b_data r) (4 + 4 * i) v\<rparr>))))
        (\<lambda>_. ?e d) u" if u: "?e (wr32 (bview t ?x) 0 (lh_n t)) u" for u
    proof -
      let ?d = "\<lambda>k. fold (\<lambda>i d. wr32 d (4 + 4 * i) (lh_block s i)) [0..<k] (wr32 (bview t ?x) 0 (lh_n t))"
      have "wp (bnd (get_lh_block i) (\<lambda>v. setbuf b (\<lambda>r. r\<lparr>b_data := wr32 (b_data r) (4 + 4 * i) v\<rparr>))) (\<lambda>_. ?e (?d (Suc i))) v"
        if "i < n" and v: "?e (?d i) v" for i v
      proof -
        from v have ev: "bc_effect t v ((bview t)(?x := ?d i)) (brefs t) (blocked t) (dsk t) (dwrites t)" and ov: "owns v b ?x" by blast+
        note dv = bcache.effD [OF ev]
        have "lh_block v = lh_block s" using bc_frame_log(4) [OF dv(7)] fr(4) by simp
        moreover have "wp (setbuf b (\<lambda>r. r\<lparr>b_data := wr32 (b_data r) (4 + 4 * i) (lh_block s i)\<rparr>)) (\<lambda>_. ?e (?d (Suc i))) v"
          using ov bcache.eff_trans [OF ev] dv
          by (intro wp_mono [OF setdata_fun_law [OF dv(1) ov, of "\<lambda>d. wr32 d (4 + 4 * i) (lh_block s i)"]]) auto
        ultimately show ?thesis using \<open>i < n\<close> n(2) by (simp del: wp_setbuf)
      qed
      from wp_for_upt [of n "\<lambda>k. ?e (?d k)", OF this] u
      have "wp (for_each [0..<n] (\<lambda>i. bnd (get_lh_block i) (\<lambda>v. setbuf b (\<lambda>r. r\<lparr>b_data := wr32 (b_data r) (4 + 4 * i) v\<rparr>)))) (\<lambda>_. ?e (?d n)) u"
        by simp
      moreover have "?d n = d" using dt fr n by (simp add: d_def head_block_def)
      ultimately show ?thesis by simp
    qed
    have fin: "wp (bwrite b) (\<lambda>_. wp (brelse b) (\<lambda>_ w. bc_effect s w ((bview s)(?x := d)) (brefs s) (blocked s)
      ((dsk s)(?x := d)) (dwrites s @ [(?x, d)]))) v" if v: "?e d v" for v
    proof -
      from v have ev: "bc_effect t v ((bview t)(?x := d)) (brefs t) (blocked t) (dsk t) (dwrites t)" and ov: "owns v b ?x" by blast+
      note dv = bcache.effD [OF ev]
      show ?thesis
      proof (rule wp_mono [OF bwrite_law [OF dv(1) ov]], goal_cases)
        case (1 _ w)
        then have ew: "bc_effect v w (bview v) (brefs v) (blocked v) ((dsk v)(?x := bview v ?x)) (dwrites v @ [(?x, bview v ?x)])" and ow: "owns w b ?x"
          using ov by blast+
        note dw = bcache.effD [OF ew]
        have "brefs w ?x = 1 \<longrightarrow> bview w ?x = dsk w ?x" using dw by simp
        from brelse_law [OF dw(1) ow this] show ?case
        proof (rule wp_mono, goal_cases)
          case (1 _ z)
          then have ez: "bc_effect w z (bview w) ((brefs w)(?x := brefs w ?x - 1)) ((blocked w)(?x := False)) (dsk w) (dwrites w)" by blast
          have "(brefs w)(?x := brefs w ?x - 1) = brefs s" "(blocked w)(?x := False) = blocked s"
            using dw dv dt r bl by (auto simp: fun_eq_iff)
          then show ?case using bcache.eff_trans [OF e bcache.eff_trans [OF ev bcache.eff_trans [OF ew ez]]] dw dv dt by simp
        qed
      qed
    qed
    have "nat (sint (lh_n t)) = n" using fr n nn by simp
    then show ?case by (simp only:) (rule wp_mono [OF set0], rule wp_mono [OF loop], assumption, rule fin)
  qed
qed

section \<open>Loops of a commit\<close>

lemma pinned_effect:
  "bc_effect s t V R K D W \<Longrightarrow> K = (\<lambda>_. False) \<Longrightarrow> R = (\<lambda>x. of_bool (x \<in> P)) \<Longrightarrow> pinned P t"
  by (simp add: bc_effect_def pinned_def)

lemma log_ok_card: "log_ok start n h \<Longrightarrow> card (h ` {k..<n}) \<le> n"
  using card_image_le [of "{k..<n}" h] by simp

lemma write_log_law:
  assumes s: "pinned (lh_block s ` {..<n}) s" and l: "log_ok (log_start s) n (lh_block s)"
    and n: "lh_n s = of_nat n" and dev: "log_dev s = ROOTDEV"
  defines "W \<equiv> puts (logb (log_start s)) (\<lambda>i. bview s (lh_block s i))"
  shows "wp write_log (\<lambda>_ t. bc_effect s t (apply_writes (W n) (bview s)) (brefs s) (blocked s)
    (apply_writes (W n) (dsk s)) (dwrites s @ W n)) s"
proof -
  let ?lb = "logb (log_start s)"
  let ?h = "lh_block s"
  have n30: "n < NBUF" using l by (simp add: log_ok_def)
  have nn: "nat (sint (lh_n s)) = n" using n n30 nat_sint_of_nat [of n] by simp
  have P: "card (?h ` {..<n}) < NBUF" using log_ok_card [OF l, of 0] n30 by (simp add: atLeast0LessThan)
  let ?I = "\<lambda>k t. bc_effect s t (apply_writes (W k) (bview s)) (brefs s) (blocked s) (apply_writes (W k) (dsk s)) (dwrites s @ W k)"
  have "wp (write_log_one i) (\<lambda>_. ?I (Suc i)) t" if i: "i < n" and I: "?I i t" for i t
  proof -
    note d = bcache.effD [OF I] and f = bc_frame_log [OF bcache.effD(7) [OF I]]
    have "pinned (lh_block t ` {..<n}) t" using s f(4) by (intro pinned_effect [OF I]) (simp_all add: pinned_def)
    moreover have il: "i < LOGSIZE" "?lb i \<notin> ?h ` {..<n}" "?h i \<notin> ?lb ` {..<i}"
      using log_okD [OF l] i n30 by (auto simp del: LOGSIZE_def) (metis log_okD(1,3) [OF l] less_trans)+
    ultimately have "wp (write_log_one i) (\<lambda>_ u. bc_effect t u ((bview t)(?lb i := bview t (?h i))) (brefs t) (blocked t)
      ((dsk t)(?lb i := bview t (?h i))) (dwrites t @ [(?lb i, bview t (?h i))])) t"
      using write_log_one_law [of "?h ` {..<n}" t i] P i f dev by simp
    moreover have "bview t (?h i) = bview s (?h i)" using il(3) d(2) puts_out by (metis W_def)
    ultimately show ?thesis using bcache.eff_trans [OF I] d by (auto elim!: wp_mono simp: W_def)
  qed
  from wp_for_upt [of n ?I write_log_one, OF this] show ?thesis
    using s unfolding write_log_def by (simp add: nn pinned_def bc_effect_def bc_frame_refl W_def)
qed

lemma install_trans_law:
  fixes recovering :: bool and n :: nat
  assumes l: "log_ok (log_start s) n (lh_block s)" and n: "lh_n s = of_nat n" and dev: "log_dev s = ROOTDEV"
  defines "P \<equiv> \<lambda>k. if recovering then {} else lh_block s ` {k..<n}"
  assumes s: "pinned (P 0) s"
  defines "W \<equiv> puts (lh_block s) (\<lambda>i. bview s (logb (log_start s) i))"
  shows "wp (install_trans recovering) (\<lambda>_ t. bc_effect s t (apply_writes (W n) (bview s)) (\<lambda>_. 0) (blocked s)
    (apply_writes (W n) (dsk s)) (dwrites s @ W n)) s"
proof -
  let ?lb = "logb (log_start s)"
  let ?h = "lh_block s"
  have n30: "n < NBUF" and inj: "inj_on ?h {..<n}" using l by (simp_all add: log_ok_def)
  have nn: "nat (sint (lh_n s)) = n" using n n30 nat_sint_of_nat [of n] by simp
  have c: "card (P k) < NBUF" for k using log_ok_card [OF l, of k] n30 by (simp add: P_def)
  have bl: "blocked s = (\<lambda>_. False)" using s by (simp add: pinned_def)
  let ?I = "\<lambda>k t. bc_effect s t (apply_writes (W k) (bview s)) (\<lambda>x. of_bool (x \<in> P k)) (blocked s) (apply_writes (W k) (dsk s)) (dwrites s @ W k)"
  have "wp (install_one recovering i) (\<lambda>_. ?I (Suc i)) t" if i: "i < n" and I: "?I i t" for i t
  proof -
    note d = bcache.effD [OF I] and f = bc_frame_log [OF bcache.effD(7) [OF I]]
    have p: "pinned (P i) t" by (rule pinned_effect [OF I bl refl])
    have il: "i < LOGSIZE" using log_okD(1) [OF l i] .
    have ne: "?h j \<noteq> ?lb i" if "j < n" for j using log_okD(3) [OF l that il] .
    then have "?lb i \<notin> ?h ` {..<n}" by (metis imageE lessThan_iff)
    moreover have "P i \<subseteq> ?h ` {..<n}" "?h ` {..<i} \<subseteq> ?h ` {..<n}" using i by (auto simp: P_def)
    ultimately have lp: "?lb i \<notin> P i" "?lb i \<notin> ?h ` {..<i}" by blast+
    have hp: "?h i \<in> P i \<longleftrightarrow> \<not> recovering" using i by (simp add: P_def)
    have rp: "recovering \<longrightarrow> card (P i) + 1 < NBUF" by (simp add: P_def)
    have "wp (install_one recovering i) (\<lambda>_ u. bc_effect t u ((bview t)(?h i := bview t (?lb i))) ((brefs t)(?h i := 0)) (blocked t)
      ((dsk t)(?h i := bview t (?lb i))) (dwrites t @ [(?h i, bview t (?lb i))])) t"
      using install_one_law [OF p c, of i recovering] hp rp lp(1) ne [OF i] il f dev by simp
    moreover have "bview t (?lb i) = bview s (?lb i)" using lp(2) d(2) puts_out by (metis W_def)
    moreover have "(brefs t)(?h i := 0) = (\<lambda>x. of_bool (x \<in> P (Suc i)))"
    proof
      fix x
      have "{i..<n} = insert i {Suc i..<n}" using i by auto
      moreover have "?h i \<notin> ?h ` {Suc i..<n}" using inj i by (auto dest: inj_onD)
      ultimately show "((brefs t)(?h i := 0)) x = of_bool (x \<in> P (Suc i))" using d(3) by (simp add: P_def)
    qed
    ultimately show ?thesis using bcache.eff_trans [OF I] d by (auto elim!: wp_mono simp: W_def)
  qed
  from wp_for_upt [of n ?I "install_one recovering", OF this]
  have "wp (for_each [0..<n] (install_one recovering)) (\<lambda>_. ?I n) s"
    using s by (simp add: pinned_def bc_effect_def bc_frame_refl W_def)
  moreover have "(\<lambda>x. of_bool (x \<in> P n)) = (\<lambda>_ :: uint. 0 :: nat)" by (simp add: P_def fun_eq_iff)
  ultimately show ?thesis unfolding install_trans_def by (simp add: nn)
qed

section \<open>A commit and a recovery\<close>

definition commit_writes :: "uint \<Rightarrow> nat \<Rightarrow> (nat \<Rightarrow> uint) \<Rightarrow> (uint \<Rightarrow> block) \<Rightarrow> (uint \<times> block) list" where
  "commit_writes start n h V =
     puts (logb start) (\<lambda>i. V (h i)) n @ [(start, head_block n h (V start))] @
     puts h (\<lambda>i. V (h i)) n @ [(start, head_block 0 h (head_block n h (V start)))]"

lemma commit_law:
  assumes s: "pinned (lh_block s ` {..<n}) s" and l: "log_ok (log_start s) n (lh_block s)"
    and n: "lh_n s = of_nat n" "0 < n" and dev: "log_dev s = ROOTDEV"
  defines "W \<equiv> commit_writes (log_start s) n (lh_block s) (bview s)"
  shows "wp commit (\<lambda>_ t. log_frame s t \<and> pinned {} t \<and> lh_n t = 0 \<and> dwrites t = dwrites s @ W \<and> dsk t = apply_writes W (dsk s) \<and>
    (\<forall>x. x \<notin> log_area (log_start s) \<longrightarrow> bview t x = bview s x)) s"
proof -
  let ?st = "log_start s"
  let ?lb = "logb (log_start s)"
  let ?h = "lh_block s"
  let ?V = "bview s"
  have n30: "n < NBUF" and inj: "inj_on ?h {..<n}" using l by (simp_all add: log_ok_def)
  have P: "card (?h ` {..<n}) < NBUF" using log_ok_card [OF l, of 0] n30 by (simp add: atLeast0LessThan)
  have stP: "?st \<notin> ?h ` {..<n}" using log_okD(2) [OF l] by (metis imageE lessThan_iff)
  have pos: "sint (lh_n s) > 0"
  proof -
    have "nat (sint (lh_n s)) = n" using n n30 nat_sint_of_nat [of n] by simp
    then show ?thesis using n(2) by simp
  qed
  let ?A = "puts ?lb (\<lambda>i. ?V (?h i)) n"
  let ?H = "head_block n ?h (?V ?st)"
  let ?B = "puts ?h (\<lambda>i. ?V (?h i)) n"
  let ?Z = "head_block 0 ?h ?H"
  have lbst: "?st \<notin> ?lb ` {..<n}" using log_okD(4) [OF l] by (metis imageE lessThan_iff)
  have lbh: "?h i \<notin> ?lb ` {..<n}" if "i < n" for i using log_okD(1,3) [OF l] that by (metis imageE lessThan_iff)
  have inj_lb: "inj_on ?lb {..<n}" using n30 by (intro inj_on_subset [OF logb_inj]) auto
  have step2: "wp write_head (\<lambda>_ u. bc_effect s u ((apply_writes ?A ?V)(?st := ?H)) (brefs s) (blocked s)
      ((apply_writes ?A (dsk s))(?st := ?H)) (dwrites s @ ?A @ [(?st, ?H)])) t"
    if t: "bc_effect s t (apply_writes ?A ?V) (brefs s) (blocked s) (apply_writes ?A (dsk s)) (dwrites s @ ?A)" for t
  proof -
    note d = bcache.effD [OF t] and f = bc_frame_log [OF bcache.effD(7) [OF t]]
    have p: "pinned (?h ` {..<n}) t" using s by (intro pinned_effect [OF t]) (simp_all add: pinned_def)
    have "bview t ?st = ?V ?st" using d(2) puts_out [OF lbst] by simp
    then show ?thesis using write_head_law [OF p P, of n] stP f n(1) n30 dev bcache.eff_trans [OF t] d by (auto elim!: wp_mono)
  qed
  have step3: "wp (install_trans False) (\<lambda>_ v. bc_effect s v (apply_writes ?B ((apply_writes ?A ?V)(?st := ?H))) (\<lambda>_. 0) (blocked s)
      (apply_writes ?B ((apply_writes ?A (dsk s))(?st := ?H))) (dwrites s @ ?A @ [(?st, ?H)] @ ?B)) u"
    if u: "bc_effect s u ((apply_writes ?A ?V)(?st := ?H)) (brefs s) (blocked s) ((apply_writes ?A (dsk s))(?st := ?H)) (dwrites s @ ?A @ [(?st, ?H)])" for u
  proof -
    note d = bcache.effD [OF u] and f = bc_frame_log [OF bcache.effD(7) [OF u]]
    have p: "pinned (if False then {} else lh_block u ` {0..<n}) u" using s f by (intro pinned_effect [OF u]) (simp_all add: pinned_def atLeast0LessThan)
    have "bview u (?lb i) = ?V (?h i)" if "i < n" for i
      using d(2) puts_in [OF inj_lb that] log_okD(4) [OF l that] by simp
    then have "puts ?h (\<lambda>i. bview u (?lb i)) n = ?B" by (simp add: puts_def)
    then show ?thesis using install_trans_law [of u n False, OF _ _ _ p] l f n(1) dev bcache.eff_trans [OF u] d by (auto elim!: wp_mono)
  qed
  have step4: "wp write_head (\<lambda>_ w. log_frame s w \<and> pinned {} w \<and> lh_n w = 0 \<and> dwrites w = dwrites s @ W \<and> dsk w = apply_writes W (dsk s) \<and>
    (\<forall>x. x \<notin> log_area ?st \<longrightarrow> bview w x = ?V x)) (v\<lparr>lh_n := 0\<rparr>)"
    if v: "bc_effect s v (apply_writes ?B ((apply_writes ?A ?V)(?st := ?H))) (\<lambda>_. 0) (blocked s)
      (apply_writes ?B ((apply_writes ?A (dsk s))(?st := ?H))) (dwrites s @ ?A @ [(?st, ?H)] @ ?B)" for v
  proof -
    note d = bcache.effD [OF v] and f = bc_frame_log [OF bcache.effD(7) [OF v]]
    let ?v = "v\<lparr>lh_n := 0\<rparr>"
    have bl: "blocked s = (\<lambda>_. False)" using s by (simp add: pinned_def)
    have p: "pinned {} ?v" using d bl by (simp add: pinned_def)
    have h0: "bview ?v ?st = ?H" using d(2) puts_out [OF stP] by simp
    have "wp write_head (\<lambda>_ w. bc_effect ?v w ((bview ?v)(?st := ?Z)) (brefs ?v) (blocked ?v) ((dsk ?v)(?st := ?Z)) (dwrites ?v @ [(?st, ?Z)])) ?v"
      using write_head_law [OF p, of 0] f dev h0 by simp
    then show ?thesis
    proof (rule wp_mono)
      fix r w
      assume w: "bc_effect ?v w ((bview ?v)(?st := ?Z)) (brefs ?v) (blocked ?v) ((dsk ?v)(?st := ?Z)) (dwrites ?v @ [(?st, ?Z)])"
      note dw = bcache.effD [OF w]
      have "pinned {} w" using d bl by (intro pinned_effect [OF w]) simp_all
      moreover have "log_frame s w"
      proof -
        have "log_frame v ?v" by (simp add: log_frame_def)
        then show ?thesis using d(7) dw(7) by (blast intro: log_frame_trans bc_frame_log_frame)
      qed
      moreover have "lh_n w = 0" using bc_frame_log(3) [OF dw(7)] by simp
      moreover have "bview w x = ?V x" if x: "x \<notin> log_area ?st" for x
      proof -
        have "x \<noteq> ?st" "x \<notin> ?lb ` {..<n}" using x n30 by (auto simp: log_area_def)
        then have "bview w x = apply_writes ?B ?V x"
          using dw(2) d(2) puts_out [of x ?lb n "\<lambda>i. ?V (?h i)" ?V] by (cases "x \<in> ?h ` {..<n}") (auto simp: puts_in [OF inj] puts_out)
        also have "\<dots> = ?V x" by (cases "x \<in> ?h ` {..<n}") (auto simp: puts_in [OF inj] puts_out)
        finally show ?thesis .
      qed
      moreover have "dwrites w = dwrites s @ W" "dsk w = apply_writes W (dsk s)"
        using dw d by (simp_all add: W_def commit_writes_def)
      ultimately show "log_frame s w \<and> pinned {} w \<and> lh_n w = 0 \<and> dwrites w = dwrites s @ W \<and> dsk w = apply_writes W (dsk s) \<and>
        (\<forall>x. x \<notin> log_area ?st \<longrightarrow> bview w x = ?V x)" by blast
    qed
  qed
  let ?Q = "\<lambda>_ :: unit. \<lambda>w. log_frame s w \<and> pinned {} w \<and> lh_n w = 0 \<and> dwrites w = dwrites s @ W \<and> dsk w = apply_writes W (dsk s) \<and>
    (\<forall>x. x \<notin> log_area ?st \<longrightarrow> bview w x = ?V x)"
  have "wp write_log (\<lambda>_. wp write_head (\<lambda>_. wp (install_trans False) (\<lambda>_ v. wp write_head ?Q (v\<lparr>lh_n := 0\<rparr>)))) s"
    by (rule wp_mono [OF write_log_law [OF s l n(1) dev]], rule wp_mono [OF step2], assumption,
        rule wp_mono [OF step3], assumption, erule step4)
  moreover have "wp commit ?Q s = wp write_log (\<lambda>_. wp write_head (\<lambda>_. wp (install_trans False) (\<lambda>_ v. wp write_head ?Q (v\<lparr>lh_n := 0\<rparr>)))) s"
    using pos unfolding commit_def wp_bnd wp_gets by (simp only: if_True wp_bnd_fun wp_modify_fun)
  ultimately show ?thesis by blast
qed

definition replay :: "uint \<Rightarrow> (uint \<Rightarrow> block) \<Rightarrow> uint \<Rightarrow> block" where
  "replay start D =
     (apply_writes (puts (\<lambda>i. rd32 (D start) (4 + 4 * i)) (\<lambda>i. D (logb start i)) (nat (sint (rd32 (D start) 0)))) D)
       (start := wr32 (D start) 0 0)"

definition head_ok :: "uint \<Rightarrow> block \<Rightarrow> bool" where
  "head_ok start d \<longleftrightarrow> 0 \<le> sint (rd32 d 0) \<and> log_ok start (nat (sint (rd32 d 0))) (\<lambda>i. rd32 d (4 + 4 * i))"

lemma log_ok_cong: "(\<And>i. i < n \<Longrightarrow> h i = h' i) \<Longrightarrow> log_ok start n h = log_ok start n h'"
  unfolding log_ok_def by (metis inj_on_cong lessThan_iff)

lemma puts_cong: "(\<And>i. i < n \<Longrightarrow> a i = a' i \<and> v i = v' i) \<Longrightarrow> puts a v n = puts a' v' n"
  by (simp add: puts_def)

lemma head_block_zero: "head_block 0 h d = wr32 d 0 0"
  by (simp add: head_block_def)

lemma read_head_law:
  assumes s: "pinned {} s" and dev: "log_dev s = ROOTDEV" and ok: "head_ok (log_start s) (dsk s (log_start s))"
  defines "d \<equiv> dsk s (log_start s)"
  shows "wp read_head (\<lambda>_ t. pinned {} t \<and> log_start t = log_start s \<and> log_dev t = log_dev s \<and> lh_n t = rd32 d 0 \<and>
    (\<forall>i<nat (sint (rd32 d 0)). lh_block t i = rd32 d (4 + 4 * i)) \<and> dsk t = dsk s \<and> dwrites t = dwrites s) s"
proof -
  let ?x = "log_start s"
  let ?n = "nat (sint (rd32 d 0))"
  have n30: "?n < NBUF" using ok by (simp add: head_ok_def log_ok_def d_def)
  have c: "card {z. brefs s z \<noteq> 0} = 0" using pinned_card [OF s] by simp
  have okc: "bc_ok s" and bl: "blocked s = (\<lambda>_. False)" and r: "brefs s = (\<lambda>_. 0)" using s by (simp_all add: pinned_def fun_eq_iff)
  have dv: "bview s ?x = d" using pinned_clean [OF s] by (simp add: d_def)
  have "wp (bread ROOTDEV ?x) (\<lambda>b t. owns t b ?x \<and> (\<forall>c x. owns s c x \<longrightarrow> owns t c x) \<and>
    bc_effect s t (bview s) ((brefs s)(?x := brefs s ?x + 1)) ((blocked s)(?x := True)) (dsk s) (dwrites s)) s"
    using okc bl r c by (intro bread_law) simp_all
  then show ?thesis unfolding read_head_def wp_bnd wp_gets dev
  proof (rule wp_mono, goal_cases)
    case (1 b t)
    then have e: "bc_effect s t (bview s) ((brefs s)(?x := brefs s ?x + 1)) ((blocked s)(?x := True)) (dsk s) (dwrites s)"
      and o: "owns t b ?x" by blast+
    note dt = bcache.effD [OF e] and fr = bc_frame_log [OF bcache.effD(7) [OF e]]
    have bd: "b_data (bufs t b) = d" using ownsD(8) [OF dt(1) o] dt(2) dv by simp
    let ?I = "\<lambda>k u. \<exists>g. u = t\<lparr>lh_n := rd32 d 0, lh_block := g\<rparr> \<and> (\<forall>i<k. g i = rd32 d (4 + 4 * i))"
    have "wp (set_lh_block i (rd32 d (4 + 4 * i))) (\<lambda>_. ?I (Suc i)) u" if i: "i < ?n" and I: "?I i u" for i u
    proof -
      obtain g where g: "u = t\<lparr>lh_n := rd32 d 0, lh_block := g\<rparr>" "\<forall>j<i. g j = rd32 d (4 + 4 * j)" using I by blast
      have "u\<lparr>lh_block := (lh_block u)(i := rd32 d (4 + 4 * i))\<rparr> = t\<lparr>lh_n := rd32 d 0, lh_block := g(i := rd32 d (4 + 4 * i))\<rparr>" using g(1) by simp
      then show ?thesis using i n30 g(2) by (auto simp: less_Suc_eq)
    qed
    moreover have "?I 0 (t\<lparr>lh_n := rd32 d 0\<rparr>)" by (intro exI [of _ "lh_block t"]) simp
    ultimately
    have loop: "wp (for_each [0..<?n] (\<lambda>i. set_lh_block i (rd32 d (4 + 4 * i)))) (\<lambda>_. ?I ?n) (t\<lparr>lh_n := rd32 d 0\<rparr>)"
      by (rule wp_for_upt [of ?n ?I])
    have fin: "wp (brelse b) (\<lambda>_ w. pinned {} w \<and> log_start w = log_start s \<and> log_dev w = ROOTDEV \<and> lh_n w = rd32 d 0 \<and>
      (\<forall>i<?n. lh_block w i = rd32 d (4 + 4 * i)) \<and> dsk w = dsk s \<and> dwrites w = dwrites s) u" if "?I ?n u" for u
    proof -
      from that obtain g where u: "u = t\<lparr>lh_n := rd32 d 0, lh_block := g\<rparr>" and g: "\<forall>i<?n. g i = rd32 d (4 + 4 * i)" by blast
      have ou: "bc_ok u" "owns u b ?x" "brefs u ?x = 1 \<longrightarrow> bview u ?x = dsk u ?x" using dt o dv by (simp_all add: u d_def)
      show ?thesis
      proof (rule wp_mono [OF brelse_law [OF ou]], goal_cases)
        case (1 _ w)
        then have w: "bc_effect u w (bview u) ((brefs u)(?x := brefs u ?x - 1)) ((blocked u)(?x := False)) (dsk u) (dwrites u)" by blast
        note dw = bcache.effD [OF w] and fw = bc_frame_log [OF bcache.effD(7) [OF w]]
        have "pinned {} w" using dt bl r by (intro pinned_effect [OF w]) (auto simp: u fun_eq_iff)
        then show ?case using fw fr dw dt g dev by (simp add: u)
      qed
    qed
    show ?case unfolding wp_getbuf bd wp_modify by (rule wp_mono [OF loop]) (rule fin)
  qed
qed

lemma recover_law:
  assumes s: "pinned {} s" and dev: "log_dev s = ROOTDEV" and ok: "head_ok (log_start s) (dsk s (log_start s))"
  shows "wp recover_from_log (\<lambda>_ t. pinned {} t \<and> lh_n t = 0 \<and> dsk t = replay (log_start s) (dsk s)) s"
proof -
  let ?st = "log_start s"
  define d where "d = dsk s ?st"
  define n where "n = nat (sint (rd32 d 0))"
  define h where "h = (\<lambda>i. rd32 d (4 + 4 * i))"
  have l: "log_ok ?st n h" and n0: "rd32 d 0 = of_nat n" using ok by (auto simp: head_ok_def d_def n_def h_def)
  have step2: "wp (install_trans True) (\<lambda>_ u. pinned {} u \<and> log_start u = ?st \<and> log_dev u = ROOTDEV \<and>
      dsk u = apply_writes (puts h (\<lambda>i. dsk s (logb ?st i)) n) (dsk s)) t"
    if t: "pinned {} t \<and> log_start t = ?st \<and> log_dev t = log_dev s \<and> lh_n t = rd32 d 0 \<and> (\<forall>i<n. lh_block t i = h i) \<and> dsk t = dsk s \<and> dwrites t = dwrites s" for t
  proof -
    have "log_ok (log_start t) n (lh_block t)" using t l log_ok_cong [of n "lh_block t" h] by simp
    moreover have "puts (lh_block t) (\<lambda>i. bview t (logb (log_start t) i)) n = puts h (\<lambda>i. dsk s (logb ?st i)) n"
      using t pinned_clean [of "{}" t] by (intro puts_cong) simp
    moreover have "blocked t = (\<lambda>_. False)" using t by (simp add: pinned_def)
    ultimately have "wp (install_trans True) (\<lambda>_ u. bc_effect t u (apply_writes (puts h (\<lambda>i. dsk s (logb ?st i)) n) (bview t)) (\<lambda>_. 0) (\<lambda>_. False)
        (apply_writes (puts h (\<lambda>i. dsk s (logb ?st i)) n) (dsk s)) (dwrites s @ puts h (\<lambda>i. dsk s (logb ?st i)) n)) t"
      using install_trans_law [of t n True] t n0 dev by simp
    then show ?thesis
    proof (rule wp_mono)
      fix r u
      assume u: "bc_effect t u (apply_writes (puts h (\<lambda>i. dsk s (logb ?st i)) n) (bview t)) (\<lambda>_. 0) (\<lambda>_. False)
        (apply_writes (puts h (\<lambda>i. dsk s (logb ?st i)) n) (dsk s)) (dwrites s @ puts h (\<lambda>i. dsk s (logb ?st i)) n)"
      note du = bcache.effD [OF u] and fu = bc_frame_log [OF bcache.effD(7) [OF u]]
      have "pinned {} u" by (rule pinned_effect [OF u]) simp_all
      then show "pinned {} u \<and> log_start u = ?st \<and> log_dev u = ROOTDEV \<and> dsk u = apply_writes (puts h (\<lambda>i. dsk s (logb ?st i)) n) (dsk s)"
        using du fu t dev by simp
    qed
  qed
  have step3: "wp write_head (\<lambda>_ t. pinned {} t \<and> lh_n t = 0 \<and> dsk t = replay ?st (dsk s)) (u\<lparr>lh_n := 0\<rparr>)"
    if u: "pinned {} u \<and> log_start u = ?st \<and> log_dev u = ROOTDEV \<and> dsk u = apply_writes (puts h (\<lambda>i. dsk s (logb ?st i)) n) (dsk s)" for u
  proof -
    let ?u = "u\<lparr>lh_n := 0\<rparr>"
    have p: "pinned {} ?u" using u by (simp add: pinned_def)
    have "?st \<notin> h ` {..<n}" using log_okD(2) [OF l] by (metis imageE lessThan_iff)
    then have "bview ?u ?st = d" using pinned_clean [OF p, of ?st] u puts_out by (simp add: d_def)
    then have "wp write_head (\<lambda>_ t. bc_effect ?u t ((bview ?u)(?st := wr32 d 0 0)) (brefs ?u) (blocked ?u) ((dsk ?u)(?st := wr32 d 0 0)) (dwrites ?u @ [(?st, wr32 d 0 0)])) ?u"
      using write_head_law [OF p, of 0] u by (simp add: head_block_zero)
    moreover have "replay ?st (dsk s) = (dsk u)(?st := wr32 d 0 0)" using u by (simp add: replay_def d_def n_def h_def)
    moreover have "pinned {} t \<and> lh_n t = 0"
      if t: "bc_effect ?u t ((bview ?u)(?st := wr32 d 0 0)) (brefs ?u) (blocked ?u) ((dsk ?u)(?st := wr32 d 0 0)) (dwrites ?u @ [(?st, wr32 d 0 0)])" for t
      using p bc_frame_log(3) [OF bcache.effD(7) [OF t]] pinned_effect [OF t, of "{}"] by (simp add: pinned_def)
    ultimately show ?thesis by (elim wp_mono) (simp add: bc_effect_def)
  qed
  have "wp read_head (\<lambda>_. wp (install_trans True) (\<lambda>_ u. wp write_head (\<lambda>_ t. pinned {} t \<and> lh_n t = 0 \<and> dsk t = replay ?st (dsk s)) (u\<lparr>lh_n := 0\<rparr>))) s"
    by (rule wp_mono [OF read_head_law [OF s dev ok, folded d_def]], rule wp_mono [OF step2], simp add: n_def h_def d_def, erule step3)
  then show ?thesis unfolding recover_from_log_def wp_bnd_fun wp_modify_fun .
qed

section \<open>Crashes\<close>

lemma take_commit_writes:
  "take k (commit_writes start n h V) =
    (if k \<le> n then puts (logb start) (\<lambda>i. V (h i)) k
     else if k \<le> 2 * n + 1 then puts (logb start) (\<lambda>i. V (h i)) n @ [(start, head_block n h (V start))] @ puts h (\<lambda>i. V (h i)) (k - n - 1)
     else commit_writes start n h V)"
  by (auto simp: commit_writes_def take_puts take_Cons' min_def)

lemma area_out: "x \<notin> log_area start \<Longrightarrow> m \<le> LOGSIZE \<Longrightarrow> x \<noteq> start \<and> x \<notin> logb start ` {..<m}"
  by (auto simp: log_area_def)

lemma replay_commit:
  assumes l: "log_ok start n h" and e: "rd32 (D start) 0 = 0" and V: "\<And>x. x \<notin> h ` {..<n} \<Longrightarrow> V x = D x"
  defines "C \<equiv> \<lambda>k. apply_writes (take k (commit_writes start n h V)) D"
  shows "head_ok start (C k start)"
    "x \<notin> log_area start \<Longrightarrow> replay start (C k) x = (if k \<le> n then D x else V x)"
proof -
  let ?lb = "logb start"
  let ?v = "\<lambda>i. V (h i)"
  let ?H = "head_block n h (V start)"
  have n30: "n < NBUF" and inj: "inj_on h {..<n}" using l by (simp_all add: log_ok_def)
  have lst: "start \<notin> ?lb ` {..<k}" if "k \<le> n" for k using log_okD(4) [OF l] that by (metis imageE lessThan_iff less_le_trans)
  have hst: "start \<notin> h ` {..<k}" if "k \<le> n" for k using log_okD(2) [OF l] that by (metis imageE lessThan_iff less_le_trans)
  have hlb: "?lb i \<notin> h ` {..<k}" if "i < n" "k \<le> n" for i k using log_okD(1,3) [OF l] that by (metis imageE lessThan_iff less_le_trans)
  have inj_lb: "inj_on ?lb {..<n}" using n30 by (intro inj_on_subset [OF logb_inj]) auto
  have inj_k: "inj_on h {..<k}" if "k \<le> n" for k using inj that by (elim inj_on_subset) auto
  have n1: "nat (sint (of_nat n :: cint)) = n" using n30 nat_sint_of_nat [of n] by simp
  have nn: "nat (sint (of_nat n :: cint)) = n" "0 \<le> sint (of_nat n :: cint)"
  proof -
    show "nat (sint (of_nat n :: cint)) = n" by (rule n1)
    show "0 \<le> sint (of_nat n :: cint)"
    proof (cases "n = 0")
      case False
      then have "0 < nat (sint (of_nat n :: cint))" using n1 by simp
      then show ?thesis by simp
    qed simp
  qed
  have Vall: "apply_writes (puts h ?v n) E x = V x" if "E x = D x" for E x
    using that V by (cases "x \<in> h ` {..<n}") (auto simp: puts_in [OF inj] puts_out)
  have z: "head_ok start d" if "rd32 d 0 = 0" for d using that by (simp add: head_ok_def log_ok_def)
  have rz: "replay start E x = E x" if "rd32 (E start) 0 = 0" "x \<noteq> start" for E x using that by (simp add: replay_def)
  consider "k \<le> n" | "n < k" "k \<le> 2 * n + 1" | "2 * n + 1 < k" by linarith
  then have "head_ok start (C k start) \<and> (x \<notin> log_area start \<longrightarrow> replay start (C k) x = (if k \<le> n then D x else V x))"
  proof cases
    case 1
    then have C: "C k = apply_writes (puts ?lb ?v k) D" by (simp add: C_def take_commit_writes)
    then have "C k start = D start" using puts_out [OF lst [OF 1]] by simp
    moreover have "C k x = D x" "x \<noteq> start" if "x \<notin> log_area start"
      using area_out [OF that, of k] C puts_out [of x ?lb k] 1 n30 by simp_all
    ultimately show ?thesis using 1 z rz [of "C k" x] e by simp
  next
    case 2
    define j where "j = k - n - 1"
    have j: "j \<le> n" using 2 by (simp add: j_def)
    have C: "C k = apply_writes (puts h ?v j) ((apply_writes (puts ?lb ?v n) D)(start := ?H))"
      using 2 by (simp add: C_def take_commit_writes j_def)
    have st: "C k start = ?H" using C puts_out [OF hst [OF j]] by simp
    have lb: "C k (?lb i) = ?v i" if "i < n" for i
      using C puts_out [OF hlb [OF that j]] puts_in [OF inj_lb that] log_okD(4) [OF l that] by simp
    have ent: "rd32 ?H (4 + 4 * i) = h i" if "i < n" for i using that by (rule head_block_entry)
    have "head_ok start (C k start)"
      using st nn l log_ok_cong [of n "\<lambda>i. rd32 ?H (4 + 4 * i)" h start] ent by (simp add: head_ok_def head_block_0)
    moreover have "replay start (C k) x = V x" if x: "x \<notin> log_area start"
    proof -
      have "puts (\<lambda>i. rd32 ?H (4 + 4 * i)) (\<lambda>i. C k (?lb i)) n = puts h ?v n" using ent lb by (intro puts_cong) simp
      moreover have xs: "x \<noteq> start" "x \<notin> ?lb ` {..<n}" using area_out [OF x, of n] n30 by simp_all
      ultimately have r: "replay start (C k) x = apply_writes (puts h ?v n) (C k) x" using st nn by (simp add: replay_def head_block_0)
      show ?thesis
      proof (cases "x \<in> h ` {..<n}")
        case True
        then show ?thesis using r by (auto simp: puts_in [OF inj])
      next
        case False
        moreover have "x \<notin> h ` {..<j}" using False j by auto
        ultimately show ?thesis using r C xs V by (simp add: puts_out)
      qed
    qed
    ultimately show ?thesis using 2 by simp
  next
    case 3
    then have C: "C k = (apply_writes (puts h ?v n) ((apply_writes (puts ?lb ?v n) D)(start := ?H)))(start := head_block 0 h ?H)"
      by (simp add: C_def take_commit_writes commit_writes_def)
    have "rd32 (C k start) 0 = 0" using head_block_0 [of 0 h ?H] by (simp add: C)
    moreover have "C k x = V x" "x \<noteq> start" if x: "x \<notin> log_area start"
      using area_out [OF x, of n] n30 Vall [of "(apply_writes (puts ?lb ?v n) D)(start := ?H)" x] by (simp_all add: C puts_out)
    ultimately show ?thesis using 3 z rz [of "C k" x] by simp
  qed
  then show "head_ok start (C k start)"
    "x \<notin> log_area start \<Longrightarrow> replay start (C k) x = (if k \<le> n then D x else V x)" by blast+
qed

text \<open>A state after a boot in which \<open>initlog\<close> has set the log parameters: no buffer is in use and the disk is \<open>D\<close>.\<close>

definition reboots :: "uint \<Rightarrow> (uint \<Rightarrow> block) \<Rightarrow> 'z logst_scheme \<Rightarrow> bool" where
  "reboots start D u \<longleftrightarrow> pinned {} u \<and> log_dev u = ROOTDEV \<and> log_start u = start \<and> dsk u = D"


definition demo_log :: logst where
  "demo_log = demo_logst\<lparr>slk := (\<lambda>_. \<lparr>sl_locked = False, sl_pid = 0\<rparr>), bufs := demo_bufs, dsk := (\<lambda>_ _. 0), lh_n := 1, lh_block := (\<lambda>_. 100)\<rparr>"

lemma demo_log_simps:
  "held demo_log = []" "cproc demo_log = Some 1" "bufs demo_log = demo_bufs" "dsk demo_log = (\<lambda>_ _. 0)" "lh_n demo_log = 1"
  "lh_block demo_log = (\<lambda>_. 100)" "log_start demo_log = 2" "log_dev demo_log = 1" "slk demo_log = (\<lambda>_. \<lparr>sl_locked = False, sl_pid = 0\<rparr>)"
  by (simp_all add: demo_log_def demo_logst_def bufst.defs demo_bufst_def pipest.defs demo_pipest_def demo_slst_def demo_bst_def
      demo_pst_def slst.defs bst.defs pst.defs)

lemma demo_log_pinned: "pinned (lh_block demo_log ` {..<1}) demo_log"
  using demo_bufs_inv
  by (simp add: pinned_def bc_ok_def demo_log_simps no_proc_lock_def blocked_def clocked_def demo_cslot brefs_def crefs_def fun_eq_iff)
    (auto simp: demo_bufs_def)

lemma demo_area: "(100 :: uint) \<notin> log_area 2"
proof -
  have "unat (3 + of_nat i :: uint) \<noteq> 100" if "i < 30" for i using that unat_plus_of_nat [of "3 :: uint" i] by simp
  then have "logb 2 i \<noteq> 100" if "i < 30" for i using that by (auto simp: logb_def word_eq_unat)
  then show ?thesis by (auto simp: log_area_def)
qed


end
