(* ===== verification/Xv6_Fs.thy ===== *)
theory Xv6_Fs
  imports Xv6_Log
begin

text \<open>
  The file system (\<^verbatim>\<open>kernel/fs.c\<close>): block and inode allocation, file contents, directories and path
  names. An inode is its index in \<open>itable\<close>, a null pointer is \<open>None\<close>. A path and a directory entry's
  name are arrays of bytes as in the source; reading past their end is a fault.

  Calls that wait for a lock another thread holds end with \<open>Asleep\<close>; the definitions describe a call
  up to its first wait.
\<close>

section \<open>kernel/fs.h, kernel/file.h, kernel/stat.h\<close>

definition FSMAGIC :: uint where [simp]: "FSMAGIC = 0x10203040"
definition NDIRECT :: nat where [simp]: "NDIRECT = 12"
definition NINDIRECT :: nat where [simp]: "NINDIRECT = BSIZE div 4"
definition MAXFILE :: nat where [simp]: "MAXFILE = NDIRECT + NINDIRECT"
definition SZ_DINODE :: nat where [simp]: "SZ_DINODE = 64"
definition IPB :: nat where [simp]: "IPB = BSIZE div SZ_DINODE"
definition BPB :: nat where [simp]: "BPB = BSIZE * 8"
definition DIRSIZ :: nat where [simp]: "DIRSIZ = 14"
definition SZ_DIRENT :: nat where [simp]: "SZ_DIRENT = 16"
definition ROOTINO :: uint where [simp]: "ROOTINO = 1"
definition NINODE :: nat where [simp]: "NINODE = 50"
definition T_DIR :: uint16 where [simp]: "T_DIR = 1"
definition T_FILE :: uint16 where [simp]: "T_FILE = 2"
definition T_DEVICE :: uint16 where [simp]: "T_DEVICE = 3"

record inode =
  i_dev :: uint
  i_inum :: uint
  i_ref :: cint
  i_valid :: bool
  i_type :: uint16
  i_major :: uint16
  i_minor :: uint16
  i_nlink :: uint16
  i_size :: uint
  i_addrs :: "nat \<Rightarrow> uint"

record fsst = logst +
  sb :: superblock
  itable :: "nat \<Rightarrow> inode"

definition IBLOCK :: "uint \<Rightarrow> superblock \<Rightarrow> uint" where
  "IBLOCK i s = i div of_nat IPB + sb_inodestart s"

definition BBLOCK :: "uint \<Rightarrow> superblock \<Rightarrow> uint" where
  "BBLOCK b s = b div of_nat BPB + sb_bmapstart s"

definition geti :: "nat \<Rightarrow> (inode \<Rightarrow> 'a) \<Rightarrow> ('z fsst_scheme, 'a) kmon" where
  "geti ip f = gets (\<lambda>s. f (itable s ip))"

definition seti :: "nat \<Rightarrow> (inode \<Rightarrow> inode) \<Rightarrow> ('z fsst_scheme, unit) kmon" where
  "seti ip f = modify (\<lambda>s. s\<lparr>itable := (itable s)(ip := f (itable s ip))\<rparr>)"

section \<open>Super block and bitmap\<close>

definition decode_sb :: "block \<Rightarrow> superblock" where
  "decode_sb d = \<lparr>sb_magic = rd32 d 0, sb_size = rd32 d 4, sb_nblocks = rd32 d 8, sb_ninodes = rd32 d 12,
     sb_nlog = rd32 d 16, sb_logstart = rd32 d 20, sb_inodestart = rd32 d 24, sb_bmapstart = rd32 d 28\<rparr>"

definition readsb :: "cint \<Rightarrow> ('z fsst_scheme, unit) kmon" where
  "readsb dev =
     bnd (bread dev 1) (\<lambda>bp.
     bnd (getbuf bp b_data) (\<lambda>d.
     bnd (modify (\<lambda>s. s\<lparr>sb := decode_sb d\<rparr>)) (\<lambda>_.
     brelse bp)))"

definition fsinit :: "cint \<Rightarrow> ('z fsst_scheme, unit) kmon" where
  "fsinit dev =
     bnd (readsb dev) (\<lambda>_.
     bnd (gets sb) (\<lambda>s.
     if sb_magic s \<noteq> FSMAGIC then panic ''invalid file system'' else initlog dev s))"

definition bzero :: "cint \<Rightarrow> cint \<Rightarrow> ('z fsst_scheme, unit) kmon" where
  "bzero dev bno =
     bnd (bread dev bno) (\<lambda>bp.
     bnd (setbuf bp (\<lambda>r. r\<lparr>b_data := (\<lambda>_. 0)\<rparr>)) (\<lambda>_.
     bnd (log_write bp) (\<lambda>_.
     brelse bp)))"

definition bit_mask :: "nat \<Rightarrow> byte" where
  "bit_mask bi = push_bit (bi mod 8) 1"

text \<open>
  The outer loop of \<open>balloc\<close> runs over the blocks of the bitmap, the inner one finds the first clear
  bit of a block that stands for a block of the disk.
\<close>

fun balloc_loop :: "nat list \<Rightarrow> uint \<Rightarrow> ('z fsst_scheme, uint) kmon" where
  "balloc_loop [] dev = panic ''balloc: out of blocks''"
| "balloc_loop (b # bs) dev =
     bnd (gets sb) (\<lambda>s.
     bnd (bread dev (BBLOCK (of_nat b) s)) (\<lambda>bp.
     bnd (getbuf bp b_data) (\<lambda>d.
     case List.find (\<lambda>bi. d (bi div 8) AND bit_mask bi = 0) [0..<min BPB (unat (sb_size s) - b)] of
       Some bi \<Rightarrow>
         bnd (setbuf bp (\<lambda>r. r\<lparr>b_data := (b_data r)(bi div 8 := b_data r (bi div 8) OR bit_mask bi)\<rparr>)) (\<lambda>_.
         bnd (log_write bp) (\<lambda>_.
         bnd (brelse bp) (\<lambda>_.
         bnd (bzero dev (of_nat (b + bi))) (\<lambda>_.
         ret (of_nat (b + bi))))))
     | None \<Rightarrow> bnd (brelse bp) (\<lambda>_. balloc_loop bs dev))))"

definition balloc :: "uint \<Rightarrow> ('z fsst_scheme, uint) kmon" where
  "balloc dev =
     bnd (gets sb) (\<lambda>s.
     balloc_loop (map (\<lambda>k. k * BPB) [0..<(unat (sb_size s) + BPB - 1) div BPB]) dev)"

definition bfree :: "cint \<Rightarrow> uint \<Rightarrow> ('z fsst_scheme, unit) kmon" where
  "bfree dev b =
     bnd (gets sb) (\<lambda>s.
     bnd (bread dev (BBLOCK b s)) (\<lambda>bp.
     let bi = unat b mod BPB in
     bnd (getbuf bp b_data) (\<lambda>d.
     if d (bi div 8) AND bit_mask bi = 0 then panic ''freeing free block'' else
     bnd (setbuf bp (\<lambda>r. r\<lparr>b_data := (b_data r)(bi div 8 := b_data r (bi div 8) AND NOT (bit_mask bi))\<rparr>)) (\<lambda>_.
     bnd (log_write bp) (\<lambda>_.
     brelse bp)))))"

section \<open>Inodes\<close>

definition iinit :: "('z fsst_scheme, unit) kmon" where
  "iinit = for_each [0..<NINODE] (\<lambda>i. initsleeplock (SInode i))"

text \<open>The table scan of \<open>iget\<close>: \<open>Inl\<close> the entry that was found, \<open>Inr\<close> the first empty slot.\<close>

fun iget_scan :: "(nat \<Rightarrow> inode) \<Rightarrow> nat list \<Rightarrow> nat option \<Rightarrow> uint \<Rightarrow> uint \<Rightarrow> nat + nat option" where
  "iget_scan tb [] slot dev inum = Inr slot"
| "iget_scan tb (ip # ips) slot dev inum =
     (if sint (i_ref (tb ip)) > 0 \<and> i_dev (tb ip) = dev \<and> i_inum (tb ip) = inum then Inl ip
      else iget_scan tb ips (if slot = None \<and> i_ref (tb ip) = 0 then Some ip else slot) dev inum)"

definition iget :: "uint \<Rightarrow> uint \<Rightarrow> ('z fsst_scheme, nat) kmon" where
  "iget dev inum =
     bnd (lock_acquire LItable) (\<lambda>_.
     bnd (gets (\<lambda>s. iget_scan (itable s) [0..<NINODE] None dev inum)) (\<lambda>r.
     case r of
       Inl ip \<Rightarrow>
         bnd (seti ip (\<lambda>i. i\<lparr>i_ref := i_ref i + 1\<rparr>)) (\<lambda>_.
         bnd (lock_release LItable) (\<lambda>_.
         ret ip))
     | Inr None \<Rightarrow> panic ''iget: no inodes''
     | Inr (Some ip) \<Rightarrow>
         bnd (seti ip (\<lambda>i. i\<lparr>i_dev := dev, i_inum := inum, i_ref := 1, i_valid := False\<rparr>)) (\<lambda>_.
         bnd (lock_release LItable) (\<lambda>_.
         ret ip))))"

definition idup :: "nat \<Rightarrow> ('z fsst_scheme, nat) kmon" where
  "idup ip =
     bnd (lock_acquire LItable) (\<lambda>_.
     bnd (seti ip (\<lambda>i. i\<lparr>i_ref := i_ref i + 1\<rparr>)) (\<lambda>_.
     bnd (lock_release LItable) (\<lambda>_.
     ret ip)))"

definition ino_off :: "uint \<Rightarrow> nat" where
  "ino_off inum = (unat inum mod IPB) * SZ_DINODE"

definition zero_range :: "nat \<Rightarrow> nat \<Rightarrow> block \<Rightarrow> block" where
  "zero_range o' n d = (\<lambda>i. if o' \<le> i \<and> i < o' + n then 0 else d i)"

fun ialloc_loop :: "nat list \<Rightarrow> uint \<Rightarrow> uint16 \<Rightarrow> ('z fsst_scheme, nat) kmon" where
  "ialloc_loop [] dev type = panic ''ialloc: no inodes''"
| "ialloc_loop (inum # is) dev type =
     bnd (gets sb) (\<lambda>s.
     bnd (bread dev (IBLOCK (of_nat inum) s)) (\<lambda>bp.
     let dip = ino_off (of_nat inum) in
     bnd (getbuf bp b_data) (\<lambda>d.
     if rd16 d dip = 0 then
       bnd (setbuf bp (\<lambda>r. r\<lparr>b_data := wr16 (zero_range dip SZ_DINODE (b_data r)) dip type\<rparr>)) (\<lambda>_.
       bnd (log_write bp) (\<lambda>_.
       bnd (brelse bp) (\<lambda>_.
       iget dev (of_nat inum))))
     else bnd (brelse bp) (\<lambda>_. ialloc_loop is dev type))))"

definition ialloc :: "uint \<Rightarrow> uint16 \<Rightarrow> ('z fsst_scheme, nat) kmon" where
  "ialloc dev type = bnd (gets sb) (\<lambda>s. ialloc_loop [1..<unat (sb_ninodes s)] dev type)"

definition encode_inode :: "inode \<Rightarrow> nat \<Rightarrow> block \<Rightarrow> block" where
  "encode_inode ip dip d =
     fold (\<lambda>k d. wr32 d (dip + 12 + 4 * k) (i_addrs ip k)) [0..<NDIRECT + 1]
       (wr32 (wr16 (wr16 (wr16 (wr16 d dip (i_type ip)) (dip + 2) (i_major ip)) (dip + 4) (i_minor ip))
         (dip + 6) (i_nlink ip)) (dip + 8) (i_size ip))"

definition decode_inode :: "block \<Rightarrow> nat \<Rightarrow> inode \<Rightarrow> inode" where
  "decode_inode d dip ip = ip\<lparr>i_type := rd16 d dip, i_major := rd16 d (dip + 2), i_minor := rd16 d (dip + 4),
     i_nlink := rd16 d (dip + 6), i_size := rd32 d (dip + 8),
     i_addrs := (\<lambda>k. if k < NDIRECT + 1 then rd32 d (dip + 12 + 4 * k) else i_addrs ip k)\<rparr>"

definition iupdate :: "nat \<Rightarrow> ('z fsst_scheme, unit) kmon" where
  "iupdate ip =
     bnd (geti ip (\<lambda>i. i)) (\<lambda>i.
     bnd (gets sb) (\<lambda>s.
     bnd (bread (i_dev i) (IBLOCK (i_inum i) s)) (\<lambda>bp.
     bnd (setbuf bp (\<lambda>r. r\<lparr>b_data := encode_inode i (ino_off (i_inum i)) (b_data r)\<rparr>)) (\<lambda>_.
     bnd (log_write bp) (\<lambda>_.
     brelse bp)))))"

definition ilock :: "nat option \<Rightarrow> ('z fsst_scheme, unit) kmon" where
  "ilock p =
     (case p of None \<Rightarrow> panic ''ilock'' | Some ip \<Rightarrow>
      bnd (geti ip i_ref) (\<lambda>ref.
      if sint ref < 1 then panic ''ilock'' else
      bnd (acquiresleep (SInode ip)) (\<lambda>_.
      bnd (geti ip (\<lambda>i. i)) (\<lambda>i.
      if i_valid i then ret () else
      bnd (gets sb) (\<lambda>s.
      bnd (bread (i_dev i) (IBLOCK (i_inum i) s)) (\<lambda>bp.
      bnd (getbuf bp b_data) (\<lambda>d.
      bnd (seti ip (decode_inode d (ino_off (i_inum i)))) (\<lambda>_.
      bnd (brelse bp) (\<lambda>_.
      bnd (seti ip (\<lambda>i. i\<lparr>i_valid := True\<rparr>)) (\<lambda>_.
      bnd (geti ip i_type) (\<lambda>type.
      if type = 0 then panic ''ilock: no type'' else ret ())))))))))))"

definition iunlock :: "nat option \<Rightarrow> ('z fsst_scheme, unit) kmon" where
  "iunlock p =
     (case p of None \<Rightarrow> panic ''iunlock'' | Some ip \<Rightarrow>
      bnd (holdingsleep (SInode ip)) (\<lambda>h.
      bnd (geti ip i_ref) (\<lambda>ref.
      if \<not> h \<or> sint ref < 1 then panic ''iunlock'' else releasesleep (SInode ip))))"

section \<open>Contents\<close>

definition bmap :: "nat \<Rightarrow> uint \<Rightarrow> ('z fsst_scheme, uint) kmon" where
  "bmap ip bn =
     bnd (geti ip i_dev) (\<lambda>dev.
     if unat bn < NDIRECT then
       bnd (geti ip (\<lambda>i. i_addrs i (unat bn))) (\<lambda>addr.
       if addr = 0 then
         bnd (balloc dev) (\<lambda>addr.
         bnd (seti ip (\<lambda>i. i\<lparr>i_addrs := (i_addrs i)(unat bn := addr)\<rparr>)) (\<lambda>_.
         ret addr))
       else ret addr)
     else
       let bn = unat bn - NDIRECT in
       if bn < NINDIRECT then
         bnd (geti ip (\<lambda>i. i_addrs i NDIRECT)) (\<lambda>addr.
         bnd (if addr = 0 then
                bnd (balloc dev) (\<lambda>addr.
                bnd (seti ip (\<lambda>i. i\<lparr>i_addrs := (i_addrs i)(NDIRECT := addr)\<rparr>)) (\<lambda>_.
                ret addr))
              else ret addr) (\<lambda>addr.
         bnd (bread dev addr) (\<lambda>bp.
         bnd (getbuf bp (\<lambda>r. rd32 (b_data r) (4 * bn))) (\<lambda>addr.
         bnd (if addr = 0 then
                bnd (balloc dev) (\<lambda>addr.
                bnd (setbuf bp (\<lambda>r. r\<lparr>b_data := wr32 (b_data r) (4 * bn) addr\<rparr>)) (\<lambda>_.
                bnd (log_write bp) (\<lambda>_.
                ret addr)))
              else ret addr) (\<lambda>addr.
         bnd (brelse bp) (\<lambda>_.
         ret addr))))))
       else panic ''bmap: out of range'')"

definition itrunc :: "nat \<Rightarrow> ('z fsst_scheme, unit) kmon" where
  "itrunc ip =
     bnd (geti ip i_dev) (\<lambda>dev.
     bnd (for_each [0..<NDIRECT] (\<lambda>i.
       bnd (geti ip (\<lambda>r. i_addrs r i)) (\<lambda>addr.
       if addr \<noteq> 0 then
         bnd (bfree dev addr) (\<lambda>_.
         seti ip (\<lambda>r. r\<lparr>i_addrs := (i_addrs r)(i := 0)\<rparr>))
       else ret ()))) (\<lambda>_.
     bnd (geti ip (\<lambda>r. i_addrs r NDIRECT)) (\<lambda>addr.
     bnd (if addr \<noteq> 0 then
       bnd (bread dev addr) (\<lambda>bp.
       bnd (for_each [0..<NINDIRECT] (\<lambda>j.
         bnd (getbuf bp (\<lambda>r. rd32 (b_data r) (4 * j))) (\<lambda>a.
         if a \<noteq> 0 then bfree dev a else ret ()))) (\<lambda>_.
       bnd (brelse bp) (\<lambda>_.
       bnd (bfree dev addr) (\<lambda>_.
       seti ip (\<lambda>r. r\<lparr>i_addrs := (i_addrs r)(NDIRECT := 0)\<rparr>)))))
       else ret ()) (\<lambda>_.
     bnd (seti ip (\<lambda>r. r\<lparr>i_size := 0\<rparr>)) (\<lambda>_.
     iupdate ip)))))"

definition iput :: "nat \<Rightarrow> ('z fsst_scheme, unit) kmon" where
  "iput ip =
     bnd (lock_acquire LItable) (\<lambda>_.
     bnd (geti ip (\<lambda>i. i)) (\<lambda>i.
     bnd (if i_ref i = 1 \<and> i_valid i \<and> i_nlink i = 0 then
       bnd (acquiresleep (SInode ip)) (\<lambda>_.
       bnd (lock_release LItable) (\<lambda>_.
       bnd (itrunc ip) (\<lambda>_.
       bnd (seti ip (\<lambda>i. i\<lparr>i_type := 0\<rparr>)) (\<lambda>_.
       bnd (iupdate ip) (\<lambda>_.
       bnd (seti ip (\<lambda>i. i\<lparr>i_valid := False\<rparr>)) (\<lambda>_.
       bnd (releasesleep (SInode ip)) (\<lambda>_.
       lock_acquire LItable)))))))
       else ret ()) (\<lambda>_.
     bnd (seti ip (\<lambda>i. i\<lparr>i_ref := i_ref i - 1\<rparr>)) (\<lambda>_.
     lock_release LItable))))"

definition iunlockput :: "nat \<Rightarrow> ('z fsst_scheme, unit) kmon" where
  "iunlockput ip = bnd (iunlock (Some ip)) (\<lambda>_. iput ip)"

text \<open>\<open>struct stat\<close>: four bytes of padding precede the size.\<close>

record stat =
  st_dev :: cint
  st_ino :: uint
  st_type :: uint16
  st_nlink :: uint16
  st_size :: uint64

definition stati :: "nat \<Rightarrow> ('z fsst_scheme, stat) kmon" where
  "stati ip = geti ip (\<lambda>i. \<lparr>st_dev = i_dev i, st_ino = i_inum i, st_type = i_type i, st_nlink = i_nlink i,
     st_size = ucast (i_size i)\<rparr>)"

text \<open>
  The copies between a block and memory. The bytes of the block that take part are staged at \<open>k_local\<close>,
  from where \<open>copyout\<close> and \<open>copyin\<close> move them page by page; a \<open>copyin\<close> that fails half way leaves what it
  copied in the block.
\<close>

definition load_bytes :: "uint64 \<Rightarrow> nat \<Rightarrow> ('z pst_scheme, byte list) kmon" where
  "load_bytes a n = gets (\<lambda>s. map (\<lambda>i. load8 (mem s) (a + of_nat i)) [0..<n])"

definition block_bytes :: "block \<Rightarrow> nat \<Rightarrow> nat \<Rightarrow> byte list" where
  "block_bytes d o' n = map (\<lambda>i. d (o' + i)) [0..<n]"

definition put_bytes :: "block \<Rightarrow> nat \<Rightarrow> byte list \<Rightarrow> block" where
  "put_bytes d o' bs = (\<lambda>i. if o' \<le> i \<and> i < o' + length bs then bs ! (i - o') else d i)"

definition block_out :: "bool \<Rightarrow> uint64 \<Rightarrow> nat \<Rightarrow> nat \<Rightarrow> nat \<Rightarrow> ('z fsst_scheme, int) kmon" where
  "block_out user_dst dst bp o' m =
     bnd (getbuf bp (\<lambda>r. block_bytes (b_data r) o' m)) (\<lambda>bs.
     if user_dst then
       bnd (gets k_local) (\<lambda>l.
       bnd (store_bytes l bs) (\<lambda>_.
       either_copyout True dst l (of_nat m)))
     else bnd (store_bytes dst bs) (\<lambda>_. ret 0))"

definition block_in :: "nat \<Rightarrow> nat \<Rightarrow> bool \<Rightarrow> uint64 \<Rightarrow> nat \<Rightarrow> ('z fsst_scheme, int) kmon" where
  "block_in bp o' user_src src m =
     (if user_src then
        bnd (getbuf bp (\<lambda>r. block_bytes (b_data r) o' m)) (\<lambda>bs.
        bnd (gets k_local) (\<lambda>l.
        bnd (store_bytes l bs) (\<lambda>_.
        bnd (either_copyin l True src (of_nat m)) (\<lambda>r.
        bnd (load_bytes l m) (\<lambda>bs.
        bnd (setbuf bp (\<lambda>r. r\<lparr>b_data := put_bytes (b_data r) o' bs\<rparr>)) (\<lambda>_.
        ret r))))))
      else
        bnd (load_bytes src m) (\<lambda>bs.
        bnd (setbuf bp (\<lambda>r. r\<lparr>b_data := put_bytes (b_data r) o' bs\<rparr>)) (\<lambda>_.
        ret 0)))"

text \<open>Every round of the two loops copies at least one byte, so \<open>n + 1\<close> rounds are enough.\<close>

fun readi_loop :: "nat \<Rightarrow> nat \<Rightarrow> bool \<Rightarrow> uint64 \<Rightarrow> uint \<Rightarrow> uint \<Rightarrow> uint \<Rightarrow> ('z fsst_scheme, cint) kmon" where
  "readi_loop 0 ip user_dst dst off n tot = spins"
| "readi_loop (Suc k) ip user_dst dst off n tot =
     (if tot < n then
        bnd (bmap ip (off div of_nat BSIZE)) (\<lambda>addr.
        bnd (geti ip i_dev) (\<lambda>dev.
        bnd (bread dev addr) (\<lambda>bp.
        let m = min (n - tot) (of_nat BSIZE - off mod of_nat BSIZE) in
        bnd (block_out user_dst dst bp (unat (off mod of_nat BSIZE)) (unat m)) (\<lambda>r.
        bnd (brelse bp) (\<lambda>_.
        if r = - 1 then ret (- 1)
        else readi_loop k ip user_dst (dst + ucast m) (off + m) n (tot + m))))))
      else ret tot)"

definition readi :: "nat \<Rightarrow> bool \<Rightarrow> uint64 \<Rightarrow> uint \<Rightarrow> uint \<Rightarrow> ('z fsst_scheme, cint) kmon" where
  "readi ip user_dst dst off n =
     bnd (geti ip i_size) (\<lambda>size.
     if off > size \<or> off + n < off then ret 0 else
     let n = if off + n > size then size - off else n in
     readi_loop (Suc (unat n)) ip user_dst dst off n 0)"

fun writei_loop :: "nat \<Rightarrow> nat \<Rightarrow> bool \<Rightarrow> uint64 \<Rightarrow> uint \<Rightarrow> uint \<Rightarrow> uint \<Rightarrow> ('z fsst_scheme, uint \<times> uint) kmon" where
  "writei_loop 0 ip user_src src off n tot = spins"
| "writei_loop (Suc k) ip user_src src off n tot =
     (if tot < n then
        bnd (bmap ip (off div of_nat BSIZE)) (\<lambda>addr.
        bnd (geti ip i_dev) (\<lambda>dev.
        bnd (bread dev addr) (\<lambda>bp.
        let m = min (n - tot) (of_nat BSIZE - off mod of_nat BSIZE) in
        bnd (block_in bp (unat (off mod of_nat BSIZE)) user_src src (unat m)) (\<lambda>r.
        if r = - 1 then bnd (brelse bp) (\<lambda>_. ret (tot, off)) else
        bnd (log_write bp) (\<lambda>_.
        bnd (brelse bp) (\<lambda>_.
        writei_loop k ip user_src (src + ucast m) (off + m) n (tot + m)))))))
      else ret (tot, off))"

definition writei :: "nat \<Rightarrow> bool \<Rightarrow> uint64 \<Rightarrow> uint \<Rightarrow> uint \<Rightarrow> ('z fsst_scheme, cint) kmon" where
  "writei ip user_src src off n =
     bnd (geti ip i_size) (\<lambda>size.
     if off > size \<or> off + n < off then ret (- 1) else
     if off + n > of_nat (MAXFILE * BSIZE) then ret (- 1) else
     bnd (writei_loop (Suc (unat n)) ip user_src src off n 0) (\<lambda>(tot, off).
     bnd (if off > size then seti ip (\<lambda>i. i\<lparr>i_size := off\<rparr>) else ret ()) (\<lambda>_.
     bnd (iupdate ip) (\<lambda>_.
     ret tot))))"

section \<open>Directories\<close>

definition namecmp :: "byte list \<Rightarrow> byte list \<Rightarrow> int option" where
  "namecmp s t = strncmp s t DIRSIZ"

text \<open>\<open>de\<close> is the local buffer at \<open>k_local\<close>; the offsets are multiples of its size.\<close>

definition read_dirent :: "nat \<Rightarrow> uint \<Rightarrow> string \<Rightarrow> ('z fsst_scheme, uint16 \<times> byte list) kmon" where
  "read_dirent dp off msg =
     bnd (gets k_local) (\<lambda>de.
     bnd (readi dp False de off (of_nat SZ_DIRENT)) (\<lambda>r.
     if r \<noteq> of_nat SZ_DIRENT then panic msg else
     bnd (load_bytes de SZ_DIRENT) (\<lambda>bs.
     ret (ucast (bs ! 0) OR push_bit 8 (ucast (bs ! 1)), drop 2 bs))))"

definition dir_offsets :: "uint \<Rightarrow> nat list" where
  "dir_offsets sz = map (\<lambda>k. k * SZ_DIRENT) [0..<(unat sz + SZ_DIRENT - 1) div SZ_DIRENT]"

fun dirlookup_loop :: "nat list \<Rightarrow> nat \<Rightarrow> byte list \<Rightarrow> ('z fsst_scheme, (nat \<times> uint) option) kmon" where
  "dirlookup_loop [] dp name = ret None"
| "dirlookup_loop (off # offs) dp name =
     bnd (read_dirent dp (of_nat off) ''dirlookup read'') (\<lambda>(inum, dname).
     if inum = 0 then dirlookup_loop offs dp name else
     case namecmp name dname of
       None \<Rightarrow> fault
     | Some c \<Rightarrow>
       if c = 0 then
         bnd (geti dp i_dev) (\<lambda>dev.
         bnd (iget dev (ucast inum)) (\<lambda>ip.
         ret (Some (ip, of_nat off))))
       else dirlookup_loop offs dp name)"

definition dirlookup :: "nat \<Rightarrow> byte list \<Rightarrow> ('z fsst_scheme, (nat \<times> uint) option) kmon" where
  "dirlookup dp name =
     bnd (geti dp i_type) (\<lambda>type.
     if type \<noteq> T_DIR then panic ''dirlookup not DIR'' else
     bnd (geti dp i_size) (\<lambda>size.
     dirlookup_loop (dir_offsets size) dp name))"

fun dirlink_slot :: "nat list \<Rightarrow> nat \<Rightarrow> nat \<Rightarrow> ('z fsst_scheme, nat) kmon" where
  "dirlink_slot [] lastoff dp = ret lastoff"
| "dirlink_slot (off # offs) lastoff dp =
     bnd (read_dirent dp (of_nat off) ''dirlink read'') (\<lambda>(inum, dname).
     if inum = 0 then ret off else dirlink_slot offs lastoff dp)"

definition dirlink :: "nat \<Rightarrow> byte list \<Rightarrow> uint \<Rightarrow> ('z fsst_scheme, cint) kmon" where
  "dirlink dp name inum =
     bnd (dirlookup dp name) (\<lambda>r.
     case r of
       Some (ip, _) \<Rightarrow> bnd (iput ip) (\<lambda>_. ret (- 1))
     | None \<Rightarrow>
       bnd (geti dp i_size) (\<lambda>size.
       bnd (dirlink_slot (dir_offsets size) (length (dir_offsets size) * SZ_DIRENT) dp) (\<lambda>off.
       case strncpy name DIRSIZ of
         None \<Rightarrow> fault
       | Some dname \<Rightarrow>
         bnd (gets k_local) (\<lambda>de.
         bnd (store_bytes de (le_bytes 2 inum @ dname)) (\<lambda>_.
         bnd (writei dp False de (of_nat off) (of_nat SZ_DIRENT)) (\<lambda>w.
         if w \<noteq> of_nat SZ_DIRENT then panic ''dirlink'' else ret 0))))))"

section \<open>Paths\<close>

text \<open>
  \<open>skipelem path name\<close>: the path is an array with its terminating zero, \<open>name\<close> the old contents of
  the name buffer. A path without a terminator runs past its end (\<open>Inl ()\<close>).
\<close>

definition SLASH :: byte where [simp]: "SLASH = 0x2F"

definition skip_slashes :: "byte list \<Rightarrow> byte list" where
  "skip_slashes path = dropWhile (\<lambda>c. c = SLASH) path"

definition skipelem :: "byte list \<Rightarrow> byte list \<Rightarrow> unit + (byte list \<times> byte list) option" where
  "skipelem path name =
     (let path = skip_slashes path in
      if path = [] then Inl () else
      if hd path = 0 then Inr None else
      let s = takeWhile (\<lambda>c. c \<noteq> SLASH \<and> c \<noteq> 0) path;
          path = dropWhile (\<lambda>c. c \<noteq> SLASH \<and> c \<noteq> 0) path in
      if path = [] then Inl () else
      let name = (if length s \<ge> DIRSIZ then take DIRSIZ s
                  else s @ [0] @ drop (length s + 1) name);
          path = skip_slashes path in
      if path = [] then Inl () else Inr (Some (path, name)))"

lemma dropWhile_shorter: "xs \<noteq> [] \<Longrightarrow> P (hd xs) \<Longrightarrow> length (dropWhile P xs) < length xs"
  by (cases xs) (auto simp: le_imp_less_Suc length_dropWhile_le)

lemma skipelem_shorter:
  assumes "skipelem path name = Inr (Some (path', name'))"
  shows "length path' < length path"
proof -
  let ?p = "skip_slashes path"
  let ?q = "dropWhile (\<lambda>c. c \<noteq> SLASH \<and> c \<noteq> 0) ?p"
  have p: "?p \<noteq> []" "hd ?p \<noteq> 0" and q: "path' = skip_slashes ?q"
    using assms by (auto simp: skipelem_def Let_def split: if_splits)
  have "hd ?p \<noteq> SLASH" using p(1) hd_dropWhile [of "\<lambda>c. c = SLASH" path] by (simp add: skip_slashes_def)
  then have "length ?q < length ?p" using p by (intro dropWhile_shorter) simp_all
  moreover have "length path' \<le> length ?q" "length ?p \<le> length path"
    by (simp_all add: q skip_slashes_def length_dropWhile_le)
  ultimately show ?thesis by linarith
qed

text \<open>The loop of \<open>namex\<close>; the result is the inode, if any, and the contents of the name buffer.\<close>

function (sequential) namex_loop :: "byte list \<Rightarrow> nat \<Rightarrow> bool \<Rightarrow> byte list \<Rightarrow> ('z fsst_scheme, nat option \<times> byte list) kmon" where
  "namex_loop path ip nameiparent name =
     (case skipelem path name of
        Inl _ \<Rightarrow> fault
      | Inr None \<Rightarrow>
          if nameiparent then bnd (iput ip) (\<lambda>_. ret (None, name)) else ret (Some ip, name)
      | Inr (Some (path', name')) \<Rightarrow>
          bnd (ilock (Some ip)) (\<lambda>_.
          bnd (geti ip i_type) (\<lambda>type.
          if type \<noteq> T_DIR then bnd (iunlockput ip) (\<lambda>_. ret (None, name')) else
          if nameiparent \<and> hd path' = 0 then bnd (iunlock (Some ip)) (\<lambda>_. ret (Some ip, name')) else
          bnd (dirlookup ip name') (\<lambda>next'.
          bnd (iunlockput ip) (\<lambda>_.
          case next' of
            None \<Rightarrow> ret (None, name')
          | Some (nx, _) \<Rightarrow> namex_loop path' nx nameiparent name')))))"
  by pat_completeness auto
termination
  by (relation "measure (\<lambda>(path, _). length path)") (auto dest: skipelem_shorter)

declare namex_loop.simps [simp del]

definition namex :: "byte list \<Rightarrow> bool \<Rightarrow> byte list \<Rightarrow> ('z fsst_scheme, nat option \<times> byte list) kmon" where
  "namex path nameiparent name =
     (if path = [] then fault else
      bnd (if hd path = SLASH then iget ROOTDEV ROOTINO else
           bnd myproc (\<lambda>p.
           bnd (getp p p_cwd) (\<lambda>cwd.
           case cwd of None \<Rightarrow> fault | Some c \<Rightarrow> idup c))) (\<lambda>ip.
      namex_loop path ip nameiparent name))"

definition namei :: "byte list \<Rightarrow> ('z fsst_scheme, nat option) kmon" where
  "namei path = bnd (namex path False (replicate DIRSIZ 0)) (\<lambda>(ip, _). ret ip)"

definition nameiparent :: "byte list \<Rightarrow> byte list \<Rightarrow> ('z fsst_scheme, nat option \<times> byte list) kmon" where
  "nameiparent path name = namex path True name"

section \<open>The elements of a path\<close>

text \<open>A reference definition: the elements between slashes, and the walk from one
  directory to the next.\<close>

fun split_path :: "byte list \<Rightarrow> byte list list" where
  "split_path [] = [[]]"
| "split_path (c # cs) = (if c = SLASH then [] # split_path cs else (c # hd (split_path cs)) # tl (split_path cs))"

definition path_elems :: "byte list \<Rightarrow> byte list list" where
  "path_elems p = filter (\<lambda>e. e \<noteq> []) (split_path p)"

definition name_buf :: "byte list \<Rightarrow> byte list" where
  "name_buf e = take DIRSIZ (e @ replicate DIRSIZ 0)"

fun resolve :: "byte list list \<Rightarrow> nat \<Rightarrow> ('z fsst_scheme, nat option) kmon" where
  "resolve [] ip = ret (Some ip)"
| "resolve (e # es) ip =
     bnd (ilock (Some ip)) (\<lambda>_.
     bnd (geti ip i_type) (\<lambda>type.
     if type \<noteq> T_DIR then bnd (iunlockput ip) (\<lambda>_. ret None) else
     bnd (dirlookup ip (name_buf e)) (\<lambda>next'.
     bnd (iunlockput ip) (\<lambda>_.
     case next' of None \<Rightarrow> ret None | Some (nx, _) \<Rightarrow> resolve es nx))))"

lemma split_path_word: "SLASH \<notin> set w \<Longrightarrow> split_path w = [w]" "SLASH \<notin> set w \<Longrightarrow> split_path (w @ SLASH # p) = w # split_path p"
  by (induction w) auto

lemma path_elems_slash: "path_elems (SLASH # p) = path_elems p"
  by (simp add: path_elems_def)

lemma path_elems_skip: "path_elems (skip_slashes p) = path_elems p"
  by (induction p) (auto simp: skip_slashes_def path_elems_def)

lemma path_elems_word:
  assumes "p \<noteq> []" "hd p \<noteq> SLASH"
  shows "path_elems p = takeWhile (\<lambda>c. c \<noteq> SLASH) p # path_elems (skip_slashes (dropWhile (\<lambda>c. c \<noteq> SLASH) p))"
proof -
  let ?w = "takeWhile (\<lambda>c. c \<noteq> SLASH) p"
  let ?r = "dropWhile (\<lambda>c. c \<noteq> SLASH) p"
  have w: "?w \<noteq> []" "SLASH \<notin> set ?w" using assms by (cases p; auto dest: set_takeWhileD)+
  show ?thesis
  proof (cases ?r)
    case Nil
    then have "?w = p" by (metis append_Nil2 takeWhile_dropWhile_id)
    moreover have "path_elems ?w = [?w]" unfolding path_elems_def split_path_word(1) [OF w(2)] using w(1) by simp
    ultimately have "path_elems p = [?w]" by metis
    then show ?thesis unfolding Nil by (simp add: path_elems_def skip_slashes_def)
  next
    case (Cons c r)
    then have "c = SLASH" using hd_dropWhile [of "\<lambda>c. c \<noteq> SLASH" p] by simp
    then have "p = ?w @ SLASH # r" using Cons takeWhile_dropWhile_id [of "\<lambda>c. c \<noteq> SLASH" p] by simp
    then have "path_elems p = ?w # path_elems r"
      using split_path_word(2) [OF w(2), of r] w(1) by (simp add: path_elems_def)
    then show ?thesis using path_elems_skip [of ?r] Cons \<open>c = SLASH\<close> path_elems_slash [of r] by simp
  qed
qed

text \<open>\<open>skipelem\<close> takes the first element off.\<close>

definition fill_name :: "byte list \<Rightarrow> byte list \<Rightarrow> byte list" where
  "fill_name e name = (if DIRSIZ \<le> length e then take DIRSIZ e else e @ [0] @ drop (length e + 1) name)"

lemma skip_slashes_zero: "skip_slashes (p @ 0 # q) = skip_slashes p @ 0 # q"
  by (induction p) (auto simp: skip_slashes_def)

lemma elem_zero:
  assumes "0 \<notin> set p"
  shows "takeWhile (\<lambda>c. c \<noteq> SLASH \<and> c \<noteq> 0) (p @ 0 # q) = takeWhile (\<lambda>c. c \<noteq> SLASH) p"
    "dropWhile (\<lambda>c. c \<noteq> SLASH \<and> c \<noteq> 0) (p @ 0 # q) = dropWhile (\<lambda>c. c \<noteq> SLASH) p @ 0 # q"
  using assms by (induction p) auto

lemma set_skip_slashes: "set (skip_slashes p) \<subseteq> set p"
  by (auto simp: skip_slashes_def dest: set_dropWhileD)

lemma skipelem_elems:
  assumes "0 \<notin> set p"
  shows "case path_elems p of
      [] \<Rightarrow> skipelem (p @ 0 # q) name = Inr None
    | e # es \<Rightarrow> \<exists>p'. skipelem (p @ 0 # q) name = Inr (Some (p' @ 0 # q, fill_name e name)) \<and> path_elems p' = es \<and> 0 \<notin> set p'"
proof (cases "skip_slashes p = []")
  case True
  then have "path_elems p = []" using path_elems_skip [of p] by (simp add: path_elems_def)
  then show ?thesis using True by (simp add: skipelem_def skip_slashes_zero)
next
  case False
  let ?s = "skip_slashes p"
  have h: "hd ?s \<noteq> SLASH" using hd_dropWhile [of "\<lambda>c. c = SLASH" p] False by (simp add: skip_slashes_def)
  have z: "0 \<notin> set ?s" using assms set_skip_slashes [of p] by blast
  then have n0: "hd ?s \<noteq> 0" using False by (metis hd_in_set)
  let ?r = "dropWhile (\<lambda>c. c \<noteq> SLASH) ?s"
  have "path_elems p = takeWhile (\<lambda>c. c \<noteq> SLASH) ?s # path_elems (skip_slashes ?r)"
    using path_elems_word [OF False h] by (simp add: path_elems_skip)
  moreover have "0 \<notin> set (skip_slashes ?r)" using z set_skip_slashes [of ?r] by (meson set_dropWhileD subsetD)
  moreover have "skipelem (p @ 0 # q) name = Inr (Some (skip_slashes ?r @ 0 # q, fill_name (takeWhile (\<lambda>c. c \<noteq> SLASH) ?s) name))"
    using False n0 by (simp add: skipelem_def skip_slashes_zero elem_zero [OF z] fill_name_def Let_def del: SLASH_def)
  ultimately show ?thesis by simp
qed

text \<open>The comparison of names does not look beyond the terminating zero.\<close>

lemma strncmp_after_zero: "strncmp (e @ 0 # a) q n = strncmp (e @ 0 # b) q n"
proof (induction e arbitrary: q n)
  case Nil
  then show ?case by (cases n; cases q) auto
next
  case (Cons c e)
  then show ?case by (cases n; cases q) auto
qed

lemma namecmp_fill: "namecmp (fill_name e name) = namecmp (name_buf e)"
proof (intro ext)
  fix q
  show "namecmp (fill_name e name) q = namecmp (name_buf e) q"
  proof (cases "DIRSIZ \<le> length e")
    case True
    then show ?thesis by (simp add: fill_name_def name_buf_def)
  next
    case False
    then obtain k where k: "DIRSIZ - length e = Suc k" by (metis Suc_diff_Suc not_le)
    have "name_buf e = e @ take (DIRSIZ - length e) (replicate DIRSIZ 0)" using False by (simp add: name_buf_def del: DIRSIZ_def)
    also have "\<dots> = e @ 0 # replicate k 0" using k by (simp add: take_replicate min_absorb2 flip: k del: DIRSIZ_def) (simp add: k del: DIRSIZ_def)
    finally have "name_buf e = e @ 0 # replicate k 0" .
    then show ?thesis
      using False strncmp_after_zero [of e "drop (length e + 1) name" q DIRSIZ "replicate k 0"] by (simp add: fill_name_def namecmp_def del: DIRSIZ_def)
  qed
qed

lemma dirlookup_loop_fill: "dirlookup_loop offs dp (fill_name e name) = dirlookup_loop offs dp (name_buf e)"
  by (induction offs) (simp_all add: namecmp_fill cong: if_cong option.case_cong)

lemma dirlookup_fill: "dirlookup dp (fill_name e name) = dirlookup dp (name_buf e)"
  by (simp add: dirlookup_def dirlookup_loop_fill cong: if_cong)

lemma namex_loop_resolves:
  assumes "0 \<notin> set p"
  shows "bnd (namex_loop (p @ 0 # q) ip False name) (\<lambda>(r, _). ret r) = resolve (path_elems p) ip"
  using assms
proof (induction "path_elems p" arbitrary: p ip name)
  case Nil
  then have "skipelem (p @ 0 # q) name = Inr None" using skipelem_elems [of p q name] by simp
  then show ?case using Nil(1) [symmetric] by (simp add: namex_loop.simps [of "p @ 0 # q"] fun_eq_iff bnd_def ret_def)
next
  case (Cons e es)
  have "case e # es of
      [] \<Rightarrow> skipelem (p @ 0 # q) name = Inr None
    | e # es \<Rightarrow> \<exists>p'. skipelem (p @ 0 # q) name = Inr (Some (p' @ 0 # q, fill_name e name)) \<and> path_elems p' = es \<and> 0 \<notin> set p'"
    unfolding Cons.hyps(2) by (rule skipelem_elems [OF Cons.prems])
  then obtain p' where p': "skipelem (p @ 0 # q) name = Inr (Some (p' @ 0 # q, fill_name e name))" "path_elems p' = es" "0 \<notin> set p'"
    unfolding list.case by blast
  note IH = Cons.hyps(1) [OF p'(2) [symmetric] p'(3), unfolded p'(2)]
  have d: "bnd (case x of None \<Rightarrow> ret (None, n') | Some (nx, w) \<Rightarrow> namex_loop (p' @ 0 # q) nx False n') (\<lambda>(r, _). ret r)
      = ((case x of None \<Rightarrow> ret None | Some (nx, _) \<Rightarrow> resolve es nx) :: ('a fsst_scheme, nat option) kmon)" for x n'
  proof (cases x)
    case None
    then show ?thesis by (simp add: fun_eq_iff)
  next
    case (Some y)
    then show ?thesis by (cases y) (simp add: IH)
  qed
  have a: "bnd (ret (None, n')) (\<lambda>(r, _). ret r) = (ret None :: ('a fsst_scheme, nat option) kmon)" for n' :: "byte list"
    by (simp add: fun_eq_iff)
  show ?case
    unfolding Cons.hyps(2) [symmetric] resolve.simps namex_loop.simps [of "p @ 0 # q"] p'(1)
    by (simp only: sum.case option.case prod.case simp_thms if_False bnd_assoc dirlookup_fill d a if_distrib [of "\<lambda>m. bnd m f" for f])
qed



section \<open>Inodes on disk\<close>

definition demo_inode :: inode where
  "demo_inode = \<lparr>i_dev = 1, i_inum = 1, i_ref = 1, i_valid = True, i_type = T_FILE, i_major = 0, i_minor = 0, i_nlink = 1,
     i_size = 1025, i_addrs = of_nat\<rparr>"




definition demo_sb :: superblock where
  "demo_sb = \<lparr>sb_magic = FSMAGIC, sb_size = 1000, sb_nblocks = 954, sb_ninodes = 200, sb_nlog = 30, sb_logstart = 2,
     sb_inodestart = 32, sb_bmapstart = 45\<rparr>"

definition demo_fsst :: fsst where
  "demo_fsst = logst.extend demo_logst \<lparr>sb = demo_sb, itable = (\<lambda>_. demo_inode)\<rparr>"

end
