(* ===== verification/Xv6_Txn.thy ===== *)
theory Xv6_Txn
  imports Xv6_Crash Xv6_Fs
begin

unbundle bit_operations_syntax

text \<open>
  File system operations as transactions (\<^verbatim>\<open>kernel/log.c\<close>, \<^verbatim>\<open>kernel/fs.c\<close>). The first sections say what
  \<open>log_write\<close> does to the log and to the cache, and give the two ways a call uses a block: read it and
  release it, or read it, change it, log it and release it. From these follow the allocator of disk blocks,
  and what \<open>begin_op\<close> and \<open>end_op\<close> around a call make of it on the disk.
\<close>

section \<open>Logging a block\<close>

lemma bc_held_LLog [simp]:
  "bc_ok (s\<lparr>held := LLog # held s\<rparr>) = bc_ok s" "bview (s\<lparr>held := h\<rparr>) = bview s" "brefs (s\<lparr>held := h\<rparr>) = brefs s"
  "blocked (s\<lparr>held := h\<rparr>) = blocked s" "owns (s\<lparr>held := h\<rparr>) = owns s"
  by (simp_all add: bc_ok_def bview_def brefs_def blocked_def mypid_def owns_def fun_eq_iff)

lemma log_index_found:
  assumes "n < 2 ^ 31"
  shows "log_index h (of_nat n) x = (if x \<in> h ` {..<n} then log_index h (of_nat n) x else n)"
    "x \<in> h ` {..<n} \<Longrightarrow> log_index h (of_nat n) x < n \<and> h (log_index h (of_nat n) x) = x"
proof -
  have n: "nat (sint (of_nat n :: cint)) = n" using assms by (rule nat_sint_of_nat)
  show "log_index h (of_nat n) x = (if x \<in> h ` {..<n} then log_index h (of_nat n) x else n)"
    by (auto simp: log_index_def n find_None_iff split: option.split dest!: find_SomeD)
  assume "x \<in> h ` {..<n}"
  then obtain i where "List.find (\<lambda>i. h i = x) [0..<n] = Some i" by (cases "List.find (\<lambda>i. h i = x) [0..<n]") (auto simp: find_None_iff)
  then show "log_index h (of_nat n) x < n \<and> h (log_index h (of_nat n) x) = x"
    by (simp add: log_index_def n) (auto simp: find_Some_iff)
qed

lemma sint_of_small: "n < 100 \<Longrightarrow> sint (of_nat n :: cint) = int n"
proof -
  assume "n < 100"
  then have "nat (sint (of_nat n :: cint)) = n" by (intro nat_sint_of_nat) simp
  then show ?thesis
  proof (cases "n = 0")
    case False
    then have "0 < nat (sint (of_nat n :: cint))" using \<open>nat (sint (of_nat n :: cint)) = n\<close> by simp
    then show ?thesis using \<open>nat (sint (of_nat n :: cint)) = n\<close> by linarith
  qed simp
qed

lemma log_write_law:
  assumes ok: "bc_ok s" and o: "owns s b blk" and l: "LLog \<notin> set (held s)" and n: "lh_n s = of_nat n" "n < LOGSIZE - 1"
    and sz: "log_size s = of_nat LOGSIZE" "1 \<le> sint (log_outstanding s)" and mx: "brefs s blk < 2 ^ 32 - 1"
  defines "new \<equiv> blk \<notin> lh_block s ` {..<n}"
  shows "wp (log_write b) (\<lambda>_ t. bc_ok t \<and> bview t = bview s \<and> brefs t = (if new then (brefs s)(blk := brefs s blk + 1) else brefs s) \<and>
    blocked t = blocked s \<and> dsk t = dsk s \<and> dwrites t = dwrites s \<and> log_frame s t \<and> (\<forall>c x. owns s c x \<longrightarrow> owns t c x) \<and>
    lh_n t = of_nat (if new then Suc n else n) \<and> lh_block t = (if new then (lh_block s)(n := blk) else lh_block s)) s"
proof -
  note ow = ownsD [OF ok o]
  let ?i = "log_index (lh_block s) (of_nat n) blk"
  have n31: "n < 2 ^ 31" "n < 100" using n(2) by simp_all
  note li = log_index_found [OF n31(1), where h = "lh_block s" and x = blk]
  have sn: "sint (of_nat n :: cint) = int n" using sint_of_small [OF n31(2)] .
  have "sint (of_nat LOGSIZE - 1 :: cint) = 29" by simp
  then have g: "\<not> (sint (lh_n s) \<ge> int LOGSIZE \<or> sint (lh_n s) \<ge> sint (log_size s - 1))" using n sz sn by simp
  define s1 where "s1 = s\<lparr>held := LLog # held s, lh_block := (lh_block s)(?i := blk)\<rparr>"
  have il: "?i < LOGSIZE" using li n(2) by (cases "blk \<in> lh_block s ` {..<n}") auto
  have s1: "bc_ok s1" "owns s1 b blk" "bview s1 = bview s" "brefs s1 = brefs s" "blocked s1 = blocked s" "dsk s1 = dsk s"
    "dwrites s1 = dwrites s" "owns s1 = owns s" using ok o by (simp_all add: s1_def)
  show ?thesis
  proof (cases new)
    case False
    then have i: "?i < n" "(lh_block s)(?i := blk) = lh_block s" using li(2) by (auto simp: new_def)
    then have "wp (log_write b) (\<lambda>_ t. t = s) s"
      unfolding log_write_def using g l n sz sn il ow(3) i by simp
    then show ?thesis by (rule wp_mono) (use False ok n in \<open>simp add: log_frame_refl\<close>)
  next
    case True
    then have i: "?i = n" using li(1) by (simp add: new_def)
    have "wp (bpin b) (\<lambda>_ t. (\<forall>c x. owns s1 c x \<longrightarrow> owns t c x) \<and>
      bc_effect s1 t (bview s1) ((brefs s1)(blk := brefs s1 blk + 1)) (blocked s1) (dsk s1) (dwrites s1)) s1"
      using s1 mx by (intro bpin_law) simp_all
    moreover have rel: "wp (lock_release LLog) Q = (\<lambda>t. LLog \<in> set (held t) \<and> Q () (t\<lparr>held := remove1 LLog (held t)\<rparr>))" for Q :: "unit \<Rightarrow> 'a logst_scheme \<Rightarrow> bool"
      by (simp add: fun_eq_iff)
    moreover have "wp (log_write b) Q s = wp (bpin b) (\<lambda>_ t. LLog \<in> set (held t) \<and> Q () (t\<lparr>lh_n := lh_n t + 1, held := remove1 LLog (held t)\<rparr>)) s1" for Q
      unfolding log_write_def using g l n sz sn il ow(3) i rel by (simp add: s1_def wp_modify_fun)
    moreover have "LLog \<in> set (held t) \<and> bc_ok (t\<lparr>lh_n := lh_n t + 1, held := remove1 LLog (held t)\<rparr>) \<and>
        bview (t\<lparr>lh_n := lh_n t + 1, held := remove1 LLog (held t)\<rparr>) = bview s \<and> log_frame s (t\<lparr>lh_n := lh_n t + 1, held := remove1 LLog (held t)\<rparr>) \<and>
        lh_n t = lh_n s \<and> lh_block t = (lh_block s)(n := blk)"
      if e: "bc_effect s1 t (bview s1) ((brefs s1)(blk := brefs s1 blk + 1)) (blocked s1) (dsk s1) (dwrites s1)" for t
    proof -
      note d = bcache.effD [OF e] and f = bc_frame_log [OF bcache.effD(7) [OF e]]
      have h: "held t = LLog # held s" using log_frame_sel(1) [OF bc_frame_log_frame [OF d(7)]] by (simp add: s1_def)
      let ?t = "t\<lparr>lh_n := lh_n t + 1, held := remove1 LLog (held t)\<rparr>"
      have "bc_ok ?t" using d(1) h by (auto simp: bc_ok_def mypid_def no_proc_lock_def)
      moreover have "t = s1\<lparr>slk := slk t, procs := procs t, bufs := bufs t, dsk := dsk t, dwrites := dwrites t\<rparr>" using d(7) by (simp add: bc_frame_def)
      then have "?t = s1\<lparr>slk := slk t, procs := procs t, bufs := bufs t, dsk := dsk t, dwrites := dwrites t\<rparr>\<lparr>lh_n := lh_n t + 1, held := remove1 LLog (held t)\<rparr>" by simp
      then have "?t = s\<lparr>slk := slk ?t, procs := procs ?t, bufs := bufs ?t, dsk := dsk ?t, dwrites := dwrites ?t, lh_n := lh_n ?t, lh_block := lh_block ?t\<rparr>"
        using h f i by (simp add: s1_def)
      then have "log_frame s ?t" unfolding log_frame_def .
      ultimately show ?thesis using h d s1 f i by (simp add: s1_def)
    qed
    ultimately show ?thesis using True s1 n by (auto elim!: wp_mono simp: bc_effect_def)
  qed
qed

section \<open>Blocks of a transaction\<close>

text \<open>
  The state between \<open>begin_op\<close> and \<open>end_op\<close>: no buffer is locked, and the pinned blocks are the entries of the
  log. \<open>txn_eff\<close> is the effect of a part of a transaction: the cache shows \<open>V\<close>, the disk has not changed.
  \<open>opened\<close> is the state after \<open>bread\<close>.
\<close>

definition txn :: "uint set \<Rightarrow> 'z logst_scheme \<Rightarrow> bool" where
  "txn P s \<longleftrightarrow> pinned P s \<and> LLog \<notin> set (held s) \<and> log_size s = of_nat LOGSIZE \<and> 1 \<le> sint (log_outstanding s) \<and>
     (\<exists>n. lh_n s = of_nat n \<and> n < LOGSIZE \<and> inj_on (lh_block s) {..<n} \<and> P = lh_block s ` {..<n})"

definition txn_eff :: "uint set \<Rightarrow> (uint \<Rightarrow> block) \<Rightarrow> 'z logst_scheme \<Rightarrow> 'z logst_scheme \<Rightarrow> bool" where
  "txn_eff P V s t \<longleftrightarrow> txn P t \<and> bview t = V \<and> dsk t = dsk s \<and> dwrites t = dwrites s \<and> log_frame s t"

definition opened :: "uint \<Rightarrow> nat \<Rightarrow> 'z logst_scheme \<Rightarrow> 'z logst_scheme \<Rightarrow> bool" where
  "opened blk b s t \<longleftrightarrow> owns t b blk \<and>
     bc_effect s t (bview s) ((brefs s)(blk := brefs s blk + 1)) ((blocked s)(blk := True)) (dsk s) (dwrites s)"

lemma txn_eff_refl: "txn P s \<Longrightarrow> txn_eff P (bview s) s s"
  by (simp add: txn_eff_def log_frame_refl)

lemma txn_eff_trans: "txn_eff P V s t \<Longrightarrow> txn_eff P' V' t u \<Longrightarrow> txn_eff P' V' s u"
  by (auto simp: txn_eff_def intro: log_frame_trans)

lemma txnD:
  assumes "txn P s"
  shows "pinned P s" "bc_ok s" "brefs s x \<le> 1" "card P < LOGSIZE"
proof -
  show p: "pinned P s" "bc_ok s" using assms by (auto simp: txn_def pinned_def)
  then show "brefs s x \<le> 1" by (simp add: pinned_def)
  show "card P < LOGSIZE" using assms by (auto simp: txn_def card_image)
qed

lemma txn_open:
  assumes "txn P s"
  shows "wp (bread ROOTDEV blk) (\<lambda>b t. opened blk b s t) s"
proof -
  note p = txnD [OF assms]
  have "card {x. brefs s x \<noteq> 0} < NBUF" using p(4) pinned_card [OF p(1)] by simp
  moreover have "\<not> blocked s blk" using p(1) by (simp add: pinned_def)
  moreover have "brefs s blk < 2 ^ 32 - 1" using p(3) [of blk] by simp
  ultimately have "wp (bread ROOTDEV blk) (\<lambda>b t. owns t b blk \<and> (\<forall>c x. owns s c x \<longrightarrow> owns t c x) \<and>
    bc_effect s t (bview s) ((brefs s)(blk := brefs s blk + 1)) ((blocked s)(blk := True)) (dsk s) (dwrites s)) s"
    using p(2) by (intro bread_law) auto
  then show ?thesis by (rule wp_mono) (simp add: opened_def)
qed

lemma opened_data: "opened blk b s t \<Longrightarrow> b_data (bufs t b) = bview s blk"
  using ownsD(8) bcache.effD(1,2) unfolding opened_def by metis

lemma opened_frame: "opened blk b s t \<Longrightarrow> log_frame s t"
  using bcache.effD(7) bc_frame_log_frame unfolding opened_def by blast

lemma txn_cong:
  assumes "txn P s" "log_frame s t" "lh_n t = lh_n s" "lh_block t = lh_block s" "pinned P t"
  shows "txn P t"
  using assms(1,3,4,5) log_frame_sel [OF assms(2)] by (simp add: txn_def)

lemma txn_drop:
  assumes s: "txn P s" and o: "opened blk b s t"
  shows "wp (brelse b) (\<lambda>_ u. txn_eff P (bview s) s u) t"
proof -
  have e: "bc_effect s t (bview s) ((brefs s)(blk := brefs s blk + 1)) ((blocked s)(blk := True)) (dsk s) (dwrites s)"
    and ow: "owns t b blk" using o by (simp_all add: opened_def)
  note d = bcache.effD [OF e] and p = txnD [OF s]
  have "brefs t blk = 1 \<longrightarrow> bview t blk = dsk t blk"
    using d pinned_clean [OF p(1), of blk] p(1) by (auto simp: pinned_def)
  moreover have "(brefs t)(blk := brefs t blk - 1) = brefs s" "(blocked t)(blk := False) = blocked s"
    using d p(1) by (auto simp: pinned_def fun_eq_iff)
  ultimately have "wp (brelse b) (\<lambda>_ u. bc_effect t u (bview s) (brefs s) (blocked s) (dsk s) (dwrites s)) t"
    using brelse_law [OF d(1) ow] d by (auto elim: wp_mono)
  then show ?thesis
  proof (rule wp_mono)
    fix u
    assume u: "bc_effect t u (bview s) (brefs s) (blocked s) (dsk s) (dwrites s)"
    note du = bcache.effD [OF u]
    have f: "log_frame s u" using bc_frame_trans [OF d(7) du(7)] by (rule bc_frame_log_frame)
    have "lh_n u = lh_n s" "lh_block u = lh_block s" using bc_frame_log [OF bc_frame_trans [OF d(7) du(7)]] by simp_all
    moreover have "pinned P u" using du p(1) by (simp add: pinned_def)
    ultimately show "txn_eff P (bview s) s u" using s f du by (simp add: txn_eff_def txn_cong)
  qed
qed

lemma txn_insert:
  assumes s: "txn P s" and n: "lh_n s = of_nat n" "n < LOGSIZE - 1" and f: "log_frame s u" and u: "pinned (insert blk P) u"
    and h: "lh_n u = of_nat (if blk \<notin> lh_block s ` {..<n} then Suc n else n)"
      "lh_block u = (if blk \<notin> lh_block s ` {..<n} then (lh_block s)(n := blk) else lh_block s)"
    and i: "inj_on (lh_block s) {..<n}" "P = lh_block s ` {..<n}"
  shows "txn (insert blk P) u"
proof -
  note fs = log_frame_sel [OF f]
  show ?thesis
  proof (cases "blk \<in> P")
    case True
    then show ?thesis using s u h n i fs by (auto simp: txn_def insert_absorb)
  next
    case False
    then have g: "lh_n u = of_nat (Suc n)" "lh_block u = (lh_block s)(n := blk)" using h i by simp_all
    have "inj_on (lh_block u) {..<Suc n}" "insert blk P = lh_block u ` {..<Suc n}"
      using i False by (auto simp: g lessThan_Suc inj_on_def image_iff)
    then show ?thesis using s u g n fs unfolding txn_def by (intro conjI exI [of _ "Suc n"]) simp_all
  qed
qed

lemma txn_close:
  assumes s: "txn P s" and o: "opened blk b s t" and c: "card P < LOGSIZE - 1"
  shows "wp (bnd (setbuf b (\<lambda>r. r\<lparr>b_data := f (b_data r)\<rparr>)) (\<lambda>_. bnd (log_write b) (\<lambda>_. brelse b)))
    (\<lambda>_ u. txn_eff (insert blk P) ((bview s)(blk := f (bview s blk))) s u) t"
proof -
  have e: "bc_effect s t (bview s) ((brefs s)(blk := brefs s blk + 1)) ((blocked s)(blk := True)) (dsk s) (dwrites s)"
    and ow: "owns t b blk" using o by (simp_all add: opened_def)
  note d = bcache.effD [OF e] and p = txnD [OF s]
  obtain n where n: "lh_n s = of_nat n" "n < LOGSIZE" "inj_on (lh_block s) {..<n}" "P = lh_block s ` {..<n}"
    using s by (auto simp: txn_def)
  have n': "n < LOGSIZE - 1" using c n(3,4) by (simp add: card_image)
  let ?V = "(bview s)(blk := f (bview s blk))"
  obtain t1 where t1: "setbuf b (\<lambda>r. r\<lparr>b_data := f (b_data r)\<rparr>) t = Done () t1" "owns t1 b blk"
    "bc_effect t t1 ?V (brefs t) (blocked t) (dsk s) (dwrites s)"
    using setdata_fun_law [OF d(1) ow, of f] ow d by (auto simp: wp_obtain_unit)
  note d1 = bcache.effD [OF t1(3)]
  have f1: "bc_frame s t1" using bc_frame_trans [OF d(7) d1(7)] .
  note l1 = bc_frame_log [OF f1] and fr1 = bc_frame_log_frame [OF f1]
  have h1: "LLog \<notin> set (held t1)" "log_size t1 = of_nat LOGSIZE" "1 \<le> sint (log_outstanding t1)" "brefs t1 blk < 2 ^ 32 - 1"
    using log_frame_sel [OF fr1] s d d1 p(3) [of blk] by (simp_all add: txn_def)
  have L1: "lh_n t1 = of_nat n" "lh_block t1 = lh_block s" using l1 n by simp_all
  obtain t2 where t2: "log_write b t1 = Done () t2" "bc_ok t2" "bview t2 = ?V" "blocked t2 = blocked t" "dsk t2 = dsk s" "dwrites t2 = dwrites s"
    "brefs t2 = (if blk \<notin> lh_block s ` {..<n} then (brefs t)(blk := brefs t blk + 1) else brefs t)"
    "log_frame t1 t2" "owns t2 b blk" "lh_n t2 = of_nat (if blk \<notin> lh_block s ` {..<n} then Suc n else n)"
    "lh_block t2 = (if blk \<notin> lh_block s ` {..<n} then (lh_block s)(n := blk) else lh_block s)"
    using log_write_law [OF d1(1) t1(2) h1(1) L1(1) n' h1(2,3,4)] t1(2) d1 L1(2) unfolding wp_obtain_unit by auto
  have r2: "brefs t2 blk = 2" using t2(7) d(3) p(1) n(4) by (auto simp: pinned_def)
  from brelse_law [OF t2(2,9)] r2 obtain t3 where t3: "brelse b t2 = Done () t3"
    "bc_effect t2 t3 ?V ((brefs t2)(blk := brefs t2 blk - 1)) ((blocked t)(blk := False)) (dsk s) (dwrites s)"
    using t2 by (auto simp: wp_obtain_unit)
  note d3 = bcache.effD [OF t3(2)]
  have fr: "log_frame s t3" by (rule log_frame_trans [OF fr1 log_frame_trans [OF t2(8) bc_frame_log_frame [OF d3(7)]]])
  have "brefs t3 = (\<lambda>x. of_bool (x \<in> insert blk P))" "blocked t3 = (\<lambda>_. False)"
    using d3 d t2(4,7) p(1) r2 n(4) by (auto simp: pinned_def fun_eq_iff)
  then have "pinned (insert blk P) t3" using d3(1) by (simp add: pinned_def)
  moreover have "lh_n t3 = lh_n t2" "lh_block t3 = lh_block t2" using bc_frame_log [OF d3(7)] by simp_all
  ultimately have "txn (insert blk P) t3" using txn_insert [OF s n(1) n' fr _ _ _ n(3,4)] t2(10,11) by simp
  then show ?thesis using t1(1) t2(1) t3(1) d3 fr by (simp add: wp_Done txn_eff_def del: wp_setbuf)
qed

section \<open>The free map\<close>

text \<open>The bitmap as a predicate on block numbers, and the two changes \<open>balloc\<close> and \<open>bfree\<close> make.\<close>

definition block_used :: "(uint \<Rightarrow> block) \<Rightarrow> superblock \<Rightarrow> uint \<Rightarrow> bool" where
  "block_used V s b = bit (V (BBLOCK b s) (unat b mod BPB div 8)) (unat b mod 8)"

lemma bit_mask_iff: "d AND bit_mask bi = 0 \<longleftrightarrow> \<not> bit d (bi mod 8)"
proof -
  have "d AND bit_mask bi = 0 \<longleftrightarrow> (\<forall>n<8. \<not> bit (d AND bit_mask bi) n)"
    using bit_eq_iff [of "d AND bit_mask bi" 0] by simp
  also have "\<dots> \<longleftrightarrow> \<not> bit d (bi mod 8)" 
    by (simp add: bit_mask_def bit_simps) (metis mod_less_divisor zero_less_numeral)
  finally show ?thesis .
qed

lemma bit_mask_set: "bit (d OR bit_mask bi) k \<longleftrightarrow> bit d k \<or> k = bi mod 8"
  "bit (d AND NOT (bit_mask bi)) k \<longleftrightarrow> bit d k \<and> k \<noteq> bi mod 8"
  by (auto simp: bit_mask_def bit_simps dest: bit_imp_le_length)

lemma BPB_mod8: "n mod BPB mod 8 = n mod 8"
  by (simp add: mod_mod_cancel)

lemma BBLOCK_eq: "BBLOCK x s = BBLOCK y s \<longleftrightarrow> unat x div BPB = unat y div BPB"
proof -
  have "BBLOCK x s = BBLOCK y s \<longleftrightarrow> x div of_nat BPB = y div of_nat BPB" by (simp only: BBLOCK_def add_right_cancel)
  also have "\<dots> \<longleftrightarrow> unat (x div of_nat BPB) = unat (y div of_nat BPB)" by (simp only: word_unat_eq_iff)
  finally show ?thesis by (simp add: unat_div)
qed

lemma same_bit:
  assumes "BBLOCK x s = BBLOCK y s" "unat x mod BPB div 8 = unat y mod BPB div 8" "unat x mod 8 = unat y mod 8"
  shows "x = y"
proof -
  have "unat x mod BPB mod 8 = unat y mod BPB mod 8" using assms(3) by (simp only: BPB_mod8)
  then have "unat x mod BPB = unat y mod BPB" using assms(2) by (metis div_mult_mod_eq)
  moreover have "unat x div BPB = unat y div BPB" using assms(1) by (simp only: BBLOCK_eq)
  ultimately have "unat x = unat y" by (metis div_mult_mod_eq)
  then show ?thesis by (rule word_unat_eq_iff [THEN iffD2])
qed

definition set_used :: "(uint \<Rightarrow> block) \<Rightarrow> superblock \<Rightarrow> uint \<Rightarrow> uint \<Rightarrow> block" where
  "set_used V s b = V(BBLOCK b s := (V (BBLOCK b s))(unat b mod BPB div 8 := V (BBLOCK b s) (unat b mod BPB div 8) OR bit_mask (unat b mod BPB)))"

definition set_free :: "(uint \<Rightarrow> block) \<Rightarrow> superblock \<Rightarrow> uint \<Rightarrow> uint \<Rightarrow> block" where
  "set_free V s b = V(BBLOCK b s := (V (BBLOCK b s))(unat b mod BPB div 8 := V (BBLOCK b s) (unat b mod BPB div 8) AND NOT (bit_mask (unat b mod BPB))))"

lemma set_used_iff: "block_used (set_used V s b) s x \<longleftrightarrow> block_used V s x \<or> x = b"
proof (cases "x = b")
  case True
  then show ?thesis by (simp add: block_used_def set_used_def bit_mask_set BPB_mod8 del: BPB_def)
next
  case False
  then show ?thesis using same_bit [of x s b] by (auto simp: block_used_def set_used_def bit_mask_set BPB_mod8 simp del: BPB_def)
qed

lemma set_free_iff: "block_used (set_free V s b) s x \<longleftrightarrow> block_used V s x \<and> x \<noteq> b"
proof (cases "x = b")
  case True
  then show ?thesis by (simp add: block_used_def set_free_def bit_mask_set BPB_mod8 del: BPB_def)
next
  case False
  then show ?thesis using same_bit [of x s b] by (auto simp: block_used_def set_free_def bit_mask_set BPB_mod8 simp del: BPB_def)
qed

lemma log_frame_sb:
  assumes "log_frame s t"
  shows "sb t = sb s" "itable t = itable s"
  by (subst assms [unfolded log_frame_def], simp)+

lemma bfree_law:
  assumes s: "txn P s" and c: "card P < LOGSIZE - 1" and u: "block_used (bview s) (sb s) b"
  shows "wp (bfree ROOTDEV b) (\<lambda>_ t. txn_eff (insert (BBLOCK b (sb s)) P) (set_free (bview s) (sb s) b) s t) s"
proof -
  let ?bi = "unat b mod BPB"
  obtain bp t where t: "bread ROOTDEV (BBLOCK b (sb s)) s = Done bp t" "opened (BBLOCK b (sb s)) bp s t"
    using txn_open [OF s, of "BBLOCK b (sb s)"] by (auto simp: wp_obtain)
  have "\<not> b_data (bufs t bp) (?bi div 8) AND bit_mask ?bi = 0"
    using u opened_data [OF t(2)] by (simp add: bit_mask_iff block_used_def BPB_mod8 del: BPB_def)
  moreover note txn_close [OF s t(2) c, of "\<lambda>d. d(?bi div 8 := d (?bi div 8) AND NOT (bit_mask ?bi))"]
  ultimately show ?thesis using t(1)
    by (simp add: bfree_def Let_def wp_Done set_free_def del: BPB_def wp_setbuf)
qed

lemma bfree_free:
  assumes s: "txn P s" and u: "\<not> block_used (bview s) (sb s) b"
  shows "bfree ROOTDEV b s = Panic ''freeing free block''"
proof -
  let ?bi = "unat b mod BPB"
  obtain bp t where t: "bread ROOTDEV (BBLOCK b (sb s)) s = Done bp t" "opened (BBLOCK b (sb s)) bp s t"
    using txn_open [OF s, of "BBLOCK b (sb s)"] by (auto simp: wp_obtain)
  have "b_data (bufs t bp) (?bi div 8) AND bit_mask ?bi = 0"
    using u opened_data [OF t(2)] by (simp add: bit_mask_iff block_used_def BPB_mod8 del: BPB_def)
  then show ?thesis using t(1)
    by (simp add: bfree_def Let_def bnd_def gets_def getbuf_def panic_def del: BPB_def)
qed

lemma bzero_law:
  assumes s: "txn P s" and c: "card P < LOGSIZE - 1"
  shows "wp (bzero ROOTDEV b) (\<lambda>_ t. txn_eff (insert b P) ((bview s)(b := (\<lambda>_. 0))) s t) s"
proof -
  obtain bp t where t: "bread ROOTDEV b s = Done bp t" "opened b bp s t"
    using txn_open [OF s, of b] by (auto simp: wp_obtain)
  show ?thesis using txn_close [OF s t(2) c, of "\<lambda>_ _. 0"] t(1) by (simp add: bzero_def wp_Done del: wp_setbuf)
qed

lemma find_app: "List.find p (xs @ ys) = (case List.find p xs of None \<Rightarrow> List.find p ys | Some x \<Rightarrow> Some x)"
  by (induction xs) auto

lemma find_shift: "List.find p [b..<b + k] = map_option (\<lambda>i. b + i) (List.find (\<lambda>i. p (b + i)) [0..<k])"
proof -
  have "[b..<b + k] = map (\<lambda>i. b + i) [0..<k]" by (simp add: list_eq_iff_nth_eq)
  moreover have "List.find p (map f xs) = map_option f (List.find (\<lambda>i. p (f i)) xs)" for f and xs :: "nat list"
    by (induction xs) auto
  ultimately show ?thesis by simp
qed

lemma find_cong_upt: "(\<And>i. i < n \<Longrightarrow> p i = q i) \<Longrightarrow> List.find p [0..<n] = List.find q [0..<n]"
  by (rule find_cong) auto

text \<open>The search of \<open>balloc\<close>, block by block of the bitmap, is one search over the block numbers.\<close>

definition free_from :: "nat \<Rightarrow> (uint \<Rightarrow> block) \<Rightarrow> superblock \<Rightarrow> nat option" where
  "free_from b V s = List.find (\<lambda>x. \<not> block_used V s (of_nat x)) [b..<unat (sb_size s)]"

lemma unat_lt2p32: "unat (x :: uint) < 2 ^ 32"
  using unsigned_less [of x, where ?'a = nat] by simp

lemma bitmap_pos:
  assumes "b = k * BPB" "i < BPB" "b + i < unat (sb_size s)"
  shows "BBLOCK (of_nat (b + i)) s = BBLOCK (of_nat b) s" "unat (of_nat (b + i) :: uint) = b + i" "(b + i) mod BPB = i"
proof -
  have l: "b + i < 2 ^ 32" using assms(3) unat_lt2p32 [of "sb_size s"] by simp
  have u: "unat (of_nat (b + i) :: uint) = b + i" "unat (of_nat b :: uint) = b" using l by (simp_all add: unat_of_nat take_bit_eq_mod del: of_nat_add)
  then show "unat (of_nat (b + i) :: uint) = b + i" by simp
  have "(b + i) div BPB = k" "b div BPB = k" using assms(1,2) by (simp_all del: BPB_def add: div_mult_self1_is_m)
  then show "BBLOCK (of_nat (b + i)) s = BBLOCK (of_nat b) s" using u by (simp only: BBLOCK_eq)
  show "(b + i) mod BPB = i" using assms(1,2) by (simp del: BPB_def)
qed

lemma find_in_block:
  assumes "b = k * BPB" "b \<le> unat (sb_size s)"
  shows "free_from b V s = (case List.find (\<lambda>bi. V (BBLOCK (of_nat b) s) (bi div 8) AND bit_mask bi = 0) [0..<min BPB (unat (sb_size s) - b)] of
    Some bi \<Rightarrow> Some (b + bi) | None \<Rightarrow> free_from (b + BPB) V s)"
proof -
  let ?n = "unat (sb_size s)"
  let ?m = "min BPB (?n - b)"
  have "[b..<?n] = [b..<b + ?m] @ [b + BPB..<?n]"
  proof (cases "b + BPB \<le> ?n")
    case True
    then have "?m = BPB" by simp
    then show ?thesis using upt_add_eq_append [of b "b + BPB" "?n - (b + BPB)"] True by simp
  next
    case False
    then show ?thesis using assms(2) by simp
  qed
  moreover have "(\<not> block_used V s (of_nat (b + i))) = (V (BBLOCK (of_nat b) s) (i div 8) AND bit_mask i = 0)" if "i < ?m" for i
  proof -
    have "i < BPB" "b + i < ?n" using that by (simp, linarith)
    note bp = bitmap_pos [OF assms(1) this]
    have "(b + i) mod 8 = i mod 8" using bp(3) BPB_mod8 by metis
    then show ?thesis using bp by (simp add: block_used_def bit_mask_iff del: BPB_def of_nat_add)
  qed
  then have "List.find (\<lambda>i. \<not> block_used V s (of_nat (b + i))) [0..<?m] = List.find (\<lambda>bi. V (BBLOCK (of_nat b) s) (bi div 8) AND bit_mask bi = 0) [0..<?m]"
    by (rule find_cong_upt)
  ultimately show ?thesis unfolding free_from_def by (simp add: find_app find_shift del: of_nat_add BPB_def split: option.split)
qed

lemma balloc_loop_law:
  assumes "txn P s" "card P < LOGSIZE - 2" "m * BPB \<ge> unat (sb_size (sb s))" "k \<le> m" "(m - 1) * BPB \<le> unat (sb_size (sb s))"
  shows "case free_from (k * BPB) (bview s) (sb s) of
      None \<Rightarrow> balloc_loop (map (\<lambda>k. k * BPB) [k..<m]) ROOTDEV s = Panic ''balloc: out of blocks''
    | Some x \<Rightarrow> wp (balloc_loop (map (\<lambda>k. k * BPB) [k..<m]) ROOTDEV) (\<lambda>r t. r = of_nat x \<and>
        txn_eff (insert (of_nat x) (insert (BBLOCK (of_nat x) (sb s)) P))
          ((set_used (bview s) (sb s) (of_nat x))(of_nat x := (\<lambda>_. 0))) s t) s"
  using assms
proof (induction "m - k" arbitrary: k s)
  case 0
  then have "m = k" by simp
  then have "free_from (k * BPB) (bview s) (sb s) = None" using "0.prems"(3) by (simp add: free_from_def del: BPB_def)
  then show ?case using \<open>m = k\<close> by (simp add: panic_def)
next
  case (Suc n)
  let ?b = "k * BPB"
  let ?sb = "sb s"
  let ?V = "bview s"
  let ?B = "BBLOCK (of_nat ?b) ?sb"
  have le: "?b \<le> unat (sb_size ?sb)"
  proof -
    have "k \<le> m - 1" using Suc.hyps(2) by simp
    then have "?b \<le> (m - 1) * BPB" by (rule mult_le_mono1)
    then show ?thesis using Suc.prems(5) by simp
  qed
  have upt: "[k..<m] = k # [Suc k..<m]" using Suc.hyps(2) by (simp add: upt_conv_Cons)
  obtain bp t where t: "bread ROOTDEV ?B s = Done bp t" "opened ?B bp s t"
    using txn_open [OF Suc.prems(1), of ?B] by (auto simp: wp_obtain)
  note dt = opened_data [OF t(2)]
  let ?f = "List.find (\<lambda>bi. ?V ?B (bi div 8) AND bit_mask bi = 0) [0..<min BPB (unat (sb_size ?sb) - ?b)]"
  note fb = find_in_block [OF refl le, of ?V]
  have c: "card P < LOGSIZE - 1" using Suc.prems(2) by simp
  show ?case
  proof (cases ?f)
    case None
    obtain u where u: "brelse bp t = Done () u" "txn_eff P ?V s u"
      using txn_drop [OF Suc.prems(1) t(2)] by (auto simp: wp_obtain_unit)
    have e: "txn P u" "bview u = ?V" "sb u = ?sb" "log_frame s u" "dsk u = dsk s" using u(2) log_frame_sb [of s u] by (auto simp: txn_eff_def)
    have ff: "free_from ?b ?V ?sb = free_from (Suc k * BPB) ?V ?sb" using fb None by (simp del: BPB_def add: add.commute)
    have ih: "case free_from (Suc k * BPB) (bview u) (sb u) of
      None \<Rightarrow> balloc_loop (map (\<lambda>k. k * BPB) [Suc k..<m]) ROOTDEV u = Panic ''balloc: out of blocks''
    | Some x \<Rightarrow> wp (balloc_loop (map (\<lambda>k. k * BPB) [Suc k..<m]) ROOTDEV) (\<lambda>r t. r = of_nat x \<and>
        txn_eff (insert (of_nat x) (insert (BBLOCK (of_nat x) (sb u)) P))
          ((set_used (bview u) (sb u) (of_nat x))(of_nat x := (\<lambda>_. 0))) u t) u"
      using Suc.hyps(2) Suc.prems e le by (intro Suc.hyps(1)) simp_all
    have run: "balloc_loop (map (\<lambda>k. k * BPB) [k..<m]) ROOTDEV s = balloc_loop (map (\<lambda>k. k * BPB) [Suc k..<m]) ROOTDEV u"
      using t(1) u(1) None dt by (simp add: upt bnd_def gets_def getbuf_def del: BPB_def)
    show ?thesis
    proof (cases "free_from (Suc k * BPB) ?V ?sb")
      case None
      then show ?thesis using ih run ff e by (simp del: BPB_def)
    next
      case (Some x)
      have "wp (balloc_loop (map (\<lambda>k. k * BPB) [Suc k..<m]) ROOTDEV) (\<lambda>r t. r = of_nat x \<and>
        txn_eff (insert (of_nat x) (insert (BBLOCK (of_nat x) ?sb) P)) ((set_used ?V ?sb (of_nat x))(of_nat x := (\<lambda>_. 0))) s t) u"
        using ih Some e txn_eff_trans [OF u(2)] by (auto elim: wp_mono)
      then show ?thesis using run ff Some by (simp add: wp_def del: BPB_def)
    qed
  next
    case (Some bi)
    let ?x = "?b + bi"
    have bi: "bi < BPB" "?x < unat (sb_size ?sb)" using Some le by (auto simp: find_Some_iff)
    note bp = bitmap_pos [OF refl bi]
    have bl: "(\<lambda>d. d(bi div 8 := d (bi div 8) OR bit_mask bi)) (?V ?B) = set_used ?V ?sb (of_nat ?x) ?B"
      "?V(?B := (\<lambda>d. d(bi div 8 := d (bi div 8) OR bit_mask bi)) (?V ?B)) = set_used ?V ?sb (of_nat ?x)"
      using bp by (simp_all add: set_used_def del: BPB_def of_nat_add)
    obtain u where u: "bnd (setbuf bp (\<lambda>r. r\<lparr>b_data := (b_data r)(bi div 8 := b_data r (bi div 8) OR bit_mask bi)\<rparr>)) (\<lambda>_. bnd (log_write bp) (\<lambda>_. brelse bp)) t = Done () u"
      "txn_eff (insert ?B P) (set_used ?V ?sb (of_nat ?x)) s u"
      using txn_close [OF Suc.prems(1) t(2) c, of "\<lambda>d. d(bi div 8 := d (bi div 8) OR bit_mask bi)"] bl(2) unfolding wp_obtain_unit by auto
    have e: "txn (insert ?B P) u" "bview u = set_used ?V ?sb (of_nat ?x)" using u(2) by (auto simp: txn_eff_def)
    have "card (insert ?B P) < LOGSIZE - 1" using Suc.prems(2) card_insert_le_m1 [of "Suc (card P)" P ?B] by simp
    from bzero_law [OF e(1) this, of "of_nat ?x"] obtain v where v: "bzero ROOTDEV (of_nat ?x) u = Done () v"
      "txn_eff (insert (of_nat ?x) (insert ?B P)) ((set_used ?V ?sb (of_nat ?x))(of_nat ?x := (\<lambda>_. 0))) u v"
      using e(2) by (auto simp: wp_obtain_unit)
    have "balloc_loop (map (\<lambda>k. k * BPB) [k..<m]) ROOTDEV s =
      bnd (bnd (setbuf bp (\<lambda>r. r\<lparr>b_data := (b_data r)(bi div 8 := b_data r (bi div 8) OR bit_mask bi)\<rparr>)) (\<lambda>_. bnd (log_write bp) (\<lambda>_. brelse bp)))
        (\<lambda>_. bnd (bzero ROOTDEV (of_nat ?x)) (\<lambda>_. ret (of_nat ?x))) t"
      using t(1) Some dt by (simp add: upt bnd_assoc del: BPB_def of_nat_add)
    then have "balloc_loop (map (\<lambda>k. k * BPB) [k..<m]) ROOTDEV s = Done (of_nat ?x) v"
      using u(1) v(1) by (simp add: bnd_def ret_def del: BPB_def of_nat_add)
    moreover have "free_from ?b ?V ?sb = Some ?x" using fb Some by (simp del: BPB_def)
    ultimately show ?thesis using txn_eff_trans [OF u(2) v(2)] bp(1) by (simp add: wp_Done del: BPB_def of_nat_add)
  qed
qed

lemma balloc_law:
  assumes "txn P s" "card P < LOGSIZE - 2"
  shows "case free_from 0 (bview s) (sb s) of
      None \<Rightarrow> balloc ROOTDEV s = Panic ''balloc: out of blocks''
    | Some x \<Rightarrow> wp (balloc ROOTDEV) (\<lambda>r t. r = of_nat x \<and>
        txn_eff (insert (of_nat x) (insert (BBLOCK (of_nat x) (sb s)) P))
          ((set_used (bview s) (sb s) (of_nat x))(of_nat x := (\<lambda>_. 0))) s t) s"
proof -
  let ?n = "unat (sb_size (sb s))"
  let ?m = "(?n + BPB - 1) div BPB"
  have "?n \<le> ?m * BPB" "(?m - 1) * BPB \<le> ?n" by simp_all
  moreover have "balloc ROOTDEV s = balloc_loop (map (\<lambda>k. k * BPB) [0..<?m]) ROOTDEV s" by (simp add: balloc_def bnd_def gets_def)
  ultimately show ?thesis using balloc_loop_law [OF assms, of ?m 0]
    by (simp add: wp_def split: option.splits del: BPB_def)
qed

section \<open>A whole operation\<close>

text \<open>The log between operations, and the effect of a call between \<open>begin_op\<close> and \<open>end_op\<close>.\<close>

definition idle :: "'z logst_scheme \<Rightarrow> bool" where
  "idle s \<longleftrightarrow> pinned {} s \<and> LLog \<notin> set (held s) \<and> log_size s = of_nat LOGSIZE \<and> log_dev s = ROOTDEV \<and>
     log_outstanding s = 0 \<and> \<not> log_committing s \<and> lh_n s = 0"

lemma bc_op_upd [simp]:
  "bc_ok (s\<lparr>log_outstanding := o'\<rparr>) = bc_ok s" "bview (s\<lparr>log_outstanding := o'\<rparr>) = bview s" "brefs (s\<lparr>log_outstanding := o'\<rparr>) = brefs s"
  "blocked (s\<lparr>log_outstanding := o'\<rparr>) = blocked s" "bc_ok (s\<lparr>log_committing := c\<rparr>) = bc_ok s" "bview (s\<lparr>log_committing := c\<rparr>) = bview s"
  "brefs (s\<lparr>log_committing := c\<rparr>) = brefs s" "blocked (s\<lparr>log_committing := c\<rparr>) = blocked s"
  by (simp_all add: bc_ok_def bview_def brefs_def blocked_def mypid_def no_proc_lock_def fun_eq_iff)

lemma pinned_op_upd [simp]:
  "pinned P (s\<lparr>log_outstanding := o'\<rparr>) = pinned P s" "pinned P (s\<lparr>log_committing := c\<rparr>) = pinned P s"
  by (simp_all add: pinned_def)

lemma begin_op_run:
  assumes "LLog \<notin> set (held s)" "\<not> log_committing s" "lh_n s = 0" "log_outstanding s = of_nat k" "k < 3"
  shows "begin_op s = Done () (s\<lparr>log_outstanding := of_nat (Suc k)\<rparr>)"
proof -
  have "k \<in> {0, 1, 2}" using assms(5) by auto
  then have "\<not> sint ((of_nat k + 1) * of_nat MAXOPBLOCKS :: cint) > int LOGSIZE" by auto
  then have "wp begin_op (\<lambda>r t. r = () \<and> t = s\<lparr>log_outstanding := of_nat (Suc k)\<rparr>) s"
    using assms by (simp add: begin_op_def begin_op_loop_def add.commute)
  then show ?thesis by (auto simp: wp_obtain)
qed

lemma pinned_wake:
  assumes "pinned P s"
  shows "pinned P (s\<lparr>procs := wake_all ch NPROC (procs s)\<rparr>)" "bview (s\<lparr>procs := wake_all ch NPROC (procs s)\<rparr>) = bview s"
  using assms by (auto simp: pinned_def bc_ok_def bview_def brefs_def blocked_def mypid_def no_proc_lock_def wake_all_def map_threads_def split: option.splits)

lemma end_op_law:
  assumes s: "txn P s" and one: "log_outstanding s = 1" and nc: "\<not> log_committing s" and dev: "log_dev s = ROOTDEV"
    and a: "P \<inter> log_area (log_start s) = {}"
  shows "wp end_op (\<lambda>_ t. idle t \<and> (\<forall>x. x \<notin> log_area (log_start s) \<longrightarrow> dsk t x = bview s x)) s"
proof -
  define s1 where "s1 = s\<lparr>log_outstanding := 0, log_committing := True\<rparr>"
  obtain n where n: "lh_n s = of_nat n" "n < LOGSIZE" "inj_on (lh_block s) {..<n}" "P = lh_block s ` {..<n}"
    using s by (auto simp: txn_def)
  have p: "pinned P s1" using txnD(1) [OF s] by (simp add: s1_def)
  have l: "LLog \<notin> set (held s)" using s by (simp add: txn_def)
  have "wp commit (\<lambda>_ t. log_frame s1 t \<and> pinned {} t \<and> lh_n t = 0 \<and> (\<forall>x. x \<notin> log_area (log_start s) \<longrightarrow> dsk t x = bview s x)) s1"
  proof (cases "n = 0")
    case True
    then have "P = {}" using n(4) by simp
    then have "dsk s x = bview s x" for x using pinned_clean [of "{}" s x] txnD(1) [OF s] by simp
    then show ?thesis using True n(1) p \<open>P = {}\<close> by (simp add: commit_def s1_def log_frame_refl)
  next
    case False
    have "log_ok (log_start s1) n (lh_block s1)" using n a by (auto simp: log_ok_def s1_def)
    from commit_law [OF _ this] p n False dev obtain t where t: "commit s1 = Done () t" "log_frame s1 t" "pinned {} t" "lh_n t = 0"
      "\<forall>x. x \<notin> log_area (log_start s) \<longrightarrow> bview t x = bview s x" by (auto simp: wp_obtain_unit s1_def)
    have "dsk t x = bview t x" for x using pinned_clean [OF t(3), of x] by simp
    then show ?thesis using t by (simp add: wp_Done)
  qed
  then obtain t where t: "commit s1 = Done () t" "log_frame s1 t" "pinned {} t" "lh_n t = 0"
    "\<forall>x. x \<notin> log_area (log_start s) \<longrightarrow> dsk t x = bview s x" by (auto simp: wp_obtain_unit)
  note f = log_frame_sel [OF t(2)]
  let ?t = "t\<lparr>held := LLog # held t, log_committing := False\<rparr>"
  have w: "no_proc_lock ?t" using t(3) by (simp add: pinned_def bc_ok_def no_proc_lock_def)
  define u where "u = t\<lparr>log_committing := False, procs := wake_all ChLog NPROC (procs t)\<rparr>"
  have "end_op s = Done () u"
  proof -
    have "wp end_op (\<lambda>r v. r = () \<and> v = u) s"
      unfolding end_op_def using l one nc w t(1) f
      by (simp add: wp_Done s1_def wp_wakeup u_def)
    then show ?thesis by (auto simp: wp_obtain)
  qed
  moreover have "idle u" using f t(3,4) s dev pinned_wake(1) [of "{}" "t\<lparr>log_committing := False\<rparr>" ChLog]
    by (simp add: idle_def u_def s1_def txn_def)
  ultimately show ?thesis using t(5) by (simp add: wp_Done u_def)
qed

lemma op_law:
  assumes s: "idle s" and f: "wp f (\<lambda>_ t. txn_eff P V (s\<lparr>log_outstanding := 1\<rparr>) t) (s\<lparr>log_outstanding := 1\<rparr>)"
    and a: "P \<inter> log_area (log_start s) = {}"
  shows "wp (bnd begin_op (\<lambda>_. bnd f (\<lambda>_. end_op))) (\<lambda>_ t. idle t \<and> (\<forall>x. x \<notin> log_area (log_start s) \<longrightarrow> dsk t x = V x)) s"
proof -
  let ?s = "s\<lparr>log_outstanding := 1\<rparr>"
  have b: "begin_op s = Done () ?s" using begin_op_run [of s 0] s by (simp add: idle_def)
  have "wp end_op (\<lambda>_ u. idle u \<and> (\<forall>x. x \<notin> log_area (log_start s) \<longrightarrow> dsk u x = V x)) t" if t: "txn_eff P V ?s t" for t
  proof -
    note l = log_frame_sel [of ?s t]
    have "txn P t" "bview t = V" "log_frame ?s t" using t by (simp_all add: txn_eff_def)
    then show ?thesis using end_op_law [of P t] l s a by (simp add: idle_def)
  qed
  then show ?thesis using b f by (auto simp: wp_Done elim!: wp_mono)
qed

lemma idle_txn: "idle s \<Longrightarrow> txn {} (s\<lparr>log_outstanding := 1\<rparr>)"
  by (auto simp: idle_def txn_def intro!: exI [of _ 0])

section \<open>A volume for examples\<close>

text \<open>The layout \<^verbatim>\<open>mkfs\<close> gives the disk, with the first 48 blocks in use and an empty cache.\<close>

definition demo_cache :: "nat \<Rightarrow> buf" where
  "demo_cache i = demo_buf\<lparr>b_valid := False, b_dev := 0, b_refcnt := 0, b_next := (i + 1) mod 31, b_prev := (i + 30) mod 31\<rparr>"

definition demo_vol :: fsst where
  "demo_vol = logst.extend (demo_logst\<lparr>slk := (\<lambda>_. \<lparr>sl_locked = False, sl_pid = 0\<rparr>), bufs := demo_cache,
     dsk := (\<lambda>x i. if x = 45 \<and> i < 6 then 255 else 0)\<rparr>) \<lparr>sb = demo_sb, itable = (\<lambda>_. demo_inode)\<rparr>"

lemma demo_vol_simps:
  "held demo_vol = []" "cproc demo_vol = Some 1" "bufs demo_vol = demo_cache" "dsk demo_vol = (\<lambda>x i. if x = 45 \<and> i < 6 then 255 else 0)"
  "lh_n demo_vol = 0" "log_start demo_vol = 2" "log_dev demo_vol = 1" "log_size demo_vol = 30" "log_outstanding demo_vol = 0"
  "\<not> log_committing demo_vol" "slk demo_vol = (\<lambda>_. \<lparr>sl_locked = False, sl_pid = 0\<rparr>)" "sb demo_vol = demo_sb"
  by (simp_all add: demo_vol_def demo_logst_def logst.defs bufst.defs demo_bufst_def pipest.defs demo_pipest_def demo_slst_def demo_bst_def
      demo_pst_def slst.defs bst.defs pst.defs)

lemma demo_cache_none: "cslot demo_cache x = None"
  by (simp add: cslot_None demo_cache_def)

lemma demo_vol_idle: "idle demo_vol"
proof -
  have "(\<lambda>i. b_next (demo_cache i)) = (\<lambda>i. (i + 1) mod 31)" "(\<lambda>i. b_prev (demo_cache i)) = (\<lambda>i. (i + 30) mod 31)"
    by (simp_all add: demo_cache_def fun_eq_iff)
  then have "dllB [0..<30] demo_cache" using demo_links by (simp add: atLeast0LessThan)
  then have "bc_inv demo_cache D (\<lambda>_. \<lparr>sl_locked = False, sl_pid = 0\<rparr>) pd" for D pd unfolding bc_inv_def
    by (auto simp: cuniq_def bc_slot_def demo_cache_def)
  then show ?thesis
    by (simp add: idle_def pinned_def bc_ok_def demo_vol_simps no_proc_lock_def blocked_def clocked_def brefs_def crefs_def demo_cache_none fun_eq_iff)
qed

lemma demo_vol_view: "bview demo_vol = dsk demo_vol"
  by (simp add: bview_def cview_def demo_vol_simps demo_cache_none fun_eq_iff)

lemma demo_vol_used: "block_used (dsk demo_vol) demo_sb x \<longleftrightarrow> unat x < 48"
proof -
  have "bit (255 :: byte) (unat x mod 8)"
  proof -
    have "unat x mod 8 \<in> {0, 1, 2, 3, 4, 5, 6, 7}" by auto
    then show ?thesis by (auto simp: bit_numeral_rec)
  qed
  moreover have "BBLOCK x demo_sb = 45 \<longleftrightarrow> unat x < BPB"
  proof -
    have "BBLOCK x demo_sb = 45 \<longleftrightarrow> BBLOCK x demo_sb = BBLOCK 0 demo_sb" by (simp add: BBLOCK_def demo_sb_def)
    also have "\<dots> \<longleftrightarrow> unat x div BPB = 0" unfolding BBLOCK_eq by simp
    finally show ?thesis by (simp add: div_eq_0_iff)
  qed
  ultimately show ?thesis by (auto simp: block_used_def demo_vol_simps)
qed

lemma bitmap_not_free:
  assumes "\<forall>b < sb_size s. block_used V s (BBLOCK b s)" "free_from k V s = Some b" "x < sb_size s"
  shows "BBLOCK x s \<noteq> of_nat b"
proof
  assume x: "BBLOCK x s = of_nat b"
  have b: "b < unat (sb_size s)" "\<not> block_used V s (of_nat b)" using assms(2) by (auto simp: free_from_def find_Some_iff)
  then show False using assms(1,3) x by metis
qed

lemma free_fromD:
  assumes "free_from k V s = Some b"
  shows "\<not> block_used V s (of_nat b)" "of_nat b < sb_size s"
proof -
  have b: "b < unat (sb_size s)" "\<not> block_used V s (of_nat b)" using assms by (auto simp: free_from_def find_Some_iff)
  then show "\<not> block_used V s (of_nat b)" by simp
  have "unat (of_nat b :: uint) = b" using b(1) unat_lt2p32 [of "sb_size s"] by (simp add: unat_of_nat take_bit_eq_mod)
  then show "of_nat b < sb_size s" using b(1) by (simp add: word_less_nat_alt)
qed

lemma free_set: "\<not> block_used V s b \<Longrightarrow> set_free (set_used V s b) s b = V"
proof -
  assume "\<not> block_used V s b"
  then have "\<not> bit (V (BBLOCK b s) (unat b mod BPB div 8)) (unat b mod BPB mod 8)" by (simp only: block_used_def BPB_mod8 not_False_eq_True)
  then have "(V (BBLOCK b s) (unat b mod BPB div 8) OR bit_mask (unat b mod BPB)) AND NOT (bit_mask (unat b mod BPB)) = V (BBLOCK b s) (unat b mod BPB div 8)"
    by (intro bit_word_eqI) (auto simp: bit_mask_set simp del: BPB_def)
  then show ?thesis by (simp add: set_free_def set_used_def del: BPB_def)
qed

lemma set_free_upd: "BBLOCK b s \<noteq> x \<Longrightarrow> set_free (V(x := d)) s b = (set_free V s b)(x := d)"
  by (simp add: set_free_def fun_upd_twist del: BPB_def)

lemma demo_vol_bitmap: "x < 1000 \<Longrightarrow> block_used (dsk demo_vol) demo_sb (BBLOCK x demo_sb)"
proof -
  assume "x < 1000"
  then have "unat x < 1000" by (simp add: word_less_nat_alt)
  then have "BBLOCK x demo_sb = BBLOCK 0 demo_sb" by (simp add: BBLOCK_eq)
  then have "BBLOCK x demo_sb = 45" by (simp add: BBLOCK_def demo_sb_def)
  then show ?thesis by (simp add: demo_vol_used)
qed

lemma demo_sb_size: "sb_size demo_sb = 1000"
  by (simp add: demo_sb_def)

lemma demo_vol_free: "free_from 0 (dsk demo_vol) demo_sb = Some 48"
proof -
  have "[0..<1000] = [0..<48] @ 48 # [49..<1000]" using upt_add_eq_append [of 0 48 952] upt_conv_Cons [of 48 1000] by simp
  moreover have "List.find (\<lambda>x. \<not> block_used (dsk demo_vol) demo_sb (of_nat x)) [0..<48] = None"
    by (auto simp: find_None_iff demo_vol_used unat_of_nat take_bit_eq_mod)
  moreover have "\<not> block_used (dsk demo_vol) demo_sb (of_nat 48)" by (simp add: demo_vol_used)
  moreover have "unat (sb_size demo_sb) = 1000" by (simp add: demo_sb_def)
  ultimately show ?thesis unfolding free_from_def by (simp only: find_app option.case find.simps if_True not_False_eq_True)
qed

definition demo_txn :: fsst where
  "demo_txn = demo_vol\<lparr>log_outstanding := 1\<rparr>"

lemma demo_txn_simps: "txn {} demo_txn" "bview demo_txn = dsk demo_vol" "dsk demo_txn = dsk demo_vol" "sb demo_txn = demo_sb"
  using idle_txn [OF demo_vol_idle] by (simp_all add: demo_txn_def demo_vol_view demo_vol_simps)

lemma log_write_full:
  assumes "LLog \<notin> set (held s)" "lh_n s = of_nat (LOGSIZE - 1)" "log_size s = of_nat LOGSIZE"
  shows "log_write b s = Panic ''too big a transaction''"
  using assms by (simp add: log_write_def bnd_def gets_def panic_def lock_acquire_def)

lemma bzero_full:
  assumes s: "txn P s" and c: "card P = LOGSIZE - 1"
  shows "bzero ROOTDEV b s = Panic ''too big a transaction''"
proof -
  obtain n where n: "lh_n s = of_nat n" "inj_on (lh_block s) {..<n}" "P = lh_block s ` {..<n}" using s by (auto simp: txn_def)
  have "n = LOGSIZE - 1" using n(2,3) c by (simp add: card_image)
  obtain bp t where t: "bread ROOTDEV b s = Done bp t" "opened b bp s t" using txn_open [OF s, of b] by (auto simp: wp_obtain)
  note f = log_frame_sel [OF opened_frame [OF t(2)]]
  have "bc_frame s t" using t(2) bcache.effD(7) by (auto simp: opened_def)
  then have l: "lh_n t = of_nat (LOGSIZE - 1)" using bc_frame_log(3) n(1) \<open>n = LOGSIZE - 1\<close> by metis
  let ?t = "t\<lparr>bufs := (bufs t)(bp := (bufs t bp)\<lparr>b_data := (\<lambda>_. 0)\<rparr>)\<rparr>"
  have "log_write bp ?t = Panic ''too big a transaction''"
    using s f l by (intro log_write_full) (simp_all add: txn_def)
  then show ?thesis using t(1) by (simp add: bzero_def bnd_def setbuf_def modify_def)
qed

lemma bzero_many:
  assumes s: "txn {} s" and f: "inj_on f {..<LOGSIZE}" and k: "k < LOGSIZE"
  shows "wp (for_each [0..<k] (\<lambda>i. bzero ROOTDEV (f i))) (\<lambda>_ t. txn (f ` {..<k}) t) s"
proof (rule wp_for_upt)
  fix i and t :: "'a fsst_scheme"
  assume i: "i < k" "txn (f ` {..<i}) t"
  have "inj_on f {..<i}" using f i(1) k by (auto intro: inj_on_subset)
  then have "card (f ` {..<i}) < LOGSIZE - 1" using i(1) k by (simp add: card_image)
  from bzero_law [OF i(2) this, of "f i"] show "wp (bzero ROOTDEV (f i)) (\<lambda>_. txn (f ` {..<Suc i})) t"
    by (auto elim!: wp_mono simp: txn_eff_def lessThan_Suc)
qed (use s in simp)

section \<open>Properties\<close>

text \<open>
  C3. Inside a transaction with room for two more blocks, and with the bitmap's own blocks marked, \<open>balloc\<close>
  returns the first block number below the size of the file system whose bit is clear. It sets that bit and
  no other, zeroes the block, leaves every other block as it was, writes nothing to the disk, and adds the
  block and its bitmap block to the log. With no clear bit it panics.
\<close>

theorem balloc_first_free:
  assumes s: "txn P s" "card P < LOGSIZE - 2"
    and m: "\<forall>b < sb_size (sb s). block_used (bview s) (sb s) (BBLOCK b (sb s))"
  shows "case List.find (\<lambda>b. \<not> block_used (bview s) (sb s) (of_nat b)) [0..<unat (sb_size (sb s))] of
      None \<Rightarrow> balloc ROOTDEV s = Panic ''balloc: out of blocks''
    | Some b \<Rightarrow> \<exists>t. balloc ROOTDEV s = Done (of_nat b) t \<and> bview t (of_nat b) = (\<lambda>_. 0) \<and>
        (\<forall>x < sb_size (sb s). block_used (bview t) (sb s) x \<longleftrightarrow> block_used (bview s) (sb s) x \<or> x = of_nat b) \<and>
        (\<forall>x. x \<notin> {of_nat b, BBLOCK (of_nat b) (sb s)} \<longrightarrow> bview t x = bview s x) \<and>
        txn (insert (of_nat b) (insert (BBLOCK (of_nat b) (sb s)) P)) t \<and> dsk t = dsk s"
proof (cases "free_from 0 (bview s) (sb s)")
  case None
  then show ?thesis using balloc_law [OF s] by (simp add: free_from_def)
next
  case (Some b)
  let ?b = "of_nat b :: uint"
  note nb = bitmap_not_free [OF m Some]
  obtain t where t: "balloc ROOTDEV s = Done ?b t"
    "txn_eff (insert ?b (insert (BBLOCK ?b (sb s)) P)) ((set_used (bview s) (sb s) ?b)(?b := (\<lambda>_. 0))) s t"
    using balloc_law [OF s] Some by (auto simp: wp_obtain)
  then have v: "bview t = (set_used (bview s) (sb s) ?b)(?b := (\<lambda>_. 0))" by (simp add: txn_eff_def)
  have u: "block_used (bview t) (sb s) x \<longleftrightarrow> block_used (bview s) (sb s) x \<or> x = ?b" if "x < sb_size (sb s)" for x
    using nb [OF that] set_used_iff [of "bview s" "sb s" ?b x] by (simp add: v block_used_def)
  have o: "bview t x = bview s x" if "x \<notin> {?b, BBLOCK ?b (sb s)}" for x
    using that by (simp add: v set_used_def)
  have "List.find (\<lambda>b. \<not> block_used (bview s) (sb s) (of_nat b)) [0..<unat (sb_size (sb s))] = Some b"
    using Some by (simp only: free_from_def)
  then show ?thesis using t u o v by (simp add: txn_eff_def)
qed

theorem balloc_first_free_witness: "\<exists>t. balloc ROOTDEV demo_txn = Done 48 t \<and> block_used (bview t) demo_sb 48"
proof -
  have "\<forall>b < sb_size demo_sb. block_used (dsk demo_vol) demo_sb (BBLOCK b demo_sb)" using demo_vol_bitmap by (simp add: demo_sb_size)
  then have "case free_from 0 (dsk demo_vol) demo_sb of
      None \<Rightarrow> balloc ROOTDEV demo_txn = Panic ''balloc: out of blocks''
    | Some b \<Rightarrow> \<exists>t. balloc ROOTDEV demo_txn = Done (of_nat b) t \<and> (\<forall>x < sb_size demo_sb. block_used (bview t) demo_sb x \<longleftrightarrow> block_used (dsk demo_vol) demo_sb x \<or> x = of_nat b)"
    using balloc_first_free [of "{}" demo_txn] demo_txn_simps by (auto simp: free_from_def split: option.splits)
  then show ?thesis by (auto simp: demo_vol_free demo_sb_size)
qed

text \<open>
  C5. Allocating a block and freeing it at once gives back the bitmap bit for bit: the cache differs from the
  state before in nothing but the contents of the block, which are zero.
\<close>

theorem balloc_bfree_roundtrip:
  assumes s: "txn P s" "card P < LOGSIZE - 3"
    and m: "\<forall>b < sb_size (sb s). block_used (bview s) (sb s) (BBLOCK b (sb s))"
    and f: "free_from 0 (bview s) (sb s) = Some b"
  shows "\<exists>t. bnd (balloc ROOTDEV) (bfree ROOTDEV) s = Done () t \<and> bview t = (bview s)(of_nat b := (\<lambda>_. 0)) \<and> dsk t = dsk s"
proof -
  let ?b = "of_nat b :: uint"
  let ?P = "insert ?b (insert (BBLOCK ?b (sb s)) P)"
  have c: "card P < LOGSIZE - 2" using s(2) by simp
  note nb = bitmap_not_free [OF m f free_fromD(2) [OF f]] and nf = free_fromD(1) [OF f]
  obtain t where t: "balloc ROOTDEV s = Done ?b t" "txn_eff ?P ((set_used (bview s) (sb s) ?b)(?b := (\<lambda>_. 0))) s t"
    using balloc_law [OF s(1) c] f by (auto simp: wp_obtain)
  have e: "txn ?P t" "bview t = (set_used (bview s) (sb s) ?b)(?b := (\<lambda>_. 0))" "sb t = sb s" "dsk t = dsk s"
    using t(2) log_frame_sb [of s t] by (simp_all add: txn_eff_def)
  have "card ?P \<le> card P + 2" using card_insert_le_m1 [of "card P + 2" "insert (BBLOCK ?b (sb s)) P" ?b] card_insert_le_m1 [of "card P + 1" P "BBLOCK ?b (sb s)"] by simp
  then have "card ?P < LOGSIZE - 1" using s(2) by simp
  moreover have "block_used (bview t) (sb t) ?b" using nb set_used_iff [of "bview s" "sb s" ?b ?b] by (simp add: e block_used_def)
  ultimately obtain u where u: "bfree ROOTDEV ?b t = Done () u" "bview u = set_free (bview t) (sb s) ?b" "dsk u = dsk s"
    using bfree_law [OF e(1), of ?b] e by (auto simp: wp_obtain_unit txn_eff_def)
  have "bview u = (bview s)(?b := (\<lambda>_. 0))" using u(2) e(2) free_set [OF nf] set_free_upd [OF nb] by simp
  then show ?thesis using t(1) u by (simp add: bnd_def)
qed

theorem balloc_bfree_roundtrip_witness:
  "\<exists>t. bnd (balloc ROOTDEV) (bfree ROOTDEV) demo_txn = Done () t \<and> bview t = (dsk demo_vol)(48 := (\<lambda>_. 0))"
  using balloc_bfree_roundtrip [of "{}" demo_txn 48] demo_txn_simps demo_vol_bitmap demo_vol_free
  by (auto simp: demo_sb_size)



text \<open>
  C6. \<open>begin_op\<close> lets three operations into an empty log, since three times \<open>MAXOPBLOCKS\<close> is \<open>LOGSIZE\<close>. When they
  write ten different blocks each, as \<open>MAXOPBLOCKS\<close> allows them, the last \<open>log_write\<close> panics: the log on the disk
  has \<open>LOGSIZE\<close> blocks with its header, so that only \<open>LOGSIZE - 1\<close> of them hold data.
\<close>

theorem three_ops_overflow_log:
  assumes s: "idle s" and f: "inj_on f {..<3 * MAXOPBLOCKS}"
  shows "bnd begin_op (\<lambda>_. bnd begin_op (\<lambda>_. bnd begin_op (\<lambda>_.
      for_each [0..<3 * MAXOPBLOCKS] (\<lambda>i. bzero ROOTDEV (f i))))) s = Panic ''too big a transaction''"
proof -
  let ?s = "\<lambda>k. s\<lparr>log_outstanding := of_nat k\<rparr>"
  let ?body = "\<lambda>i. bzero ROOTDEV (f i)"
  have f': "inj_on f {..<LOGSIZE}" using f by simp
  have b: "begin_op s = Done () (?s 1)" "begin_op (?s 1) = Done () (?s 2)" "begin_op (?s 2) = Done () (?s 3)"
    using s begin_op_run [of s 0] begin_op_run [of "?s 1" 1] begin_op_run [of "?s 2" 2] by (simp_all add: idle_def)
  have "txn {} (?s 3)" using s by (auto simp: idle_def txn_def intro!: exI [of _ 0])
  then obtain t where t: "for_each [0..<LOGSIZE - 1] ?body (?s 3) = Done () t" "txn (f ` {..<LOGSIZE - 1}) t"
    using bzero_many [OF _ f', of "?s 3" "LOGSIZE - 1"] by (auto simp: wp_obtain_unit)
  have "inj_on f {..<LOGSIZE - 1}" using f by (auto intro: inj_on_subset)
  then have "card (f ` {..<LOGSIZE - 1}) = LOGSIZE - 1" by (simp only: card_image card_lessThan)
  then have "?body (LOGSIZE - 1) t = Panic ''too big a transaction''" by (rule bzero_full [OF t(2)])
  moreover have "[0..<3 * MAXOPBLOCKS] = [0..<LOGSIZE - 1] @ [LOGSIZE - 1]" using upt_Suc_append [of 0 29] by simp
  ultimately show ?thesis using t(1) b by (simp only: for_each_append) (simp add: bnd_def)
qed

theorem three_ops_overflow_log_witness:
  "bnd begin_op (\<lambda>_. bnd begin_op (\<lambda>_. bnd begin_op (\<lambda>_.
      for_each [0..<3 * MAXOPBLOCKS] (\<lambda>i. bzero ROOTDEV (100 + of_nat i))))) demo_vol = Panic ''too big a transaction''"
proof (rule three_ops_overflow_log [OF demo_vol_idle], rule inj_onI)
  fix i j
  assume "i \<in> {..<3 * MAXOPBLOCKS}" "j \<in> {..<3 * MAXOPBLOCKS}" "100 + of_nat i = (100 + of_nat j :: uint)"
  then have "unat (of_nat i :: uint) = unat (of_nat j :: uint)" "i < 100" "j < 100" by simp_all
  then show "i = j" by (simp only: of_nat_small)
qed

end
