(* ===== verification/Xv6_Console.thy ===== *)
theory Xv6_Console
  imports Xv6_Fs
begin

text \<open>
  The serial port (\<^verbatim>\<open>kernel/uart.c\<close>), the console (\<^verbatim>\<open>kernel/console.c\<close>) and formatted output
  (\<^verbatim>\<open>kernel/printf.c\<close>).

  The device is seen through its registers: \<open>u_in\<close> are the received bytes that wait in \<open>RHR\<close>,
  \<open>u_idle\<close> the answers that successive reads of \<open>LSR_TX_IDLE\<close> will give (no answer left means not
  idle), \<open>u_out\<close> the bytes written to \<open>THR\<close> and \<open>u_wr\<close> the other register writes. Bytes are
  \<open>unsigned char\<close>, as \<open>char\<close> is on this machine.
\<close>

definition INPUT_BUF :: nat where [simp]: "INPUT_BUF = 128"
definition UART_TX_BUF_SIZE :: nat where [simp]: "UART_TX_BUF_SIZE = 32"
definition BACKSPACE :: cint where [simp]: "BACKSPACE = 0x100"

definition Ctl :: "byte \<Rightarrow> cint" where
  "Ctl x = ucast x - 0x40"

record const = fsst +
  cons_buf :: "nat \<Rightarrow> byte"
  cons_r :: uint
  cons_w :: uint
  cons_e :: uint
  uart_tx_buf :: "nat \<Rightarrow> byte"
  uart_tx_w :: uint64
  uart_tx_r :: uint64
  u_in :: "byte list"
  u_idle :: "bool list"
  u_out :: "byte list"
  u_wr :: "(nat \<times> byte) list"
  panicked :: bool
  pr_locking :: bool
  devsw_console :: bool

section \<open>kernel/uart.c\<close>

definition WriteReg :: "nat \<Rightarrow> byte \<Rightarrow> ('z const_scheme, unit) kmon" where
  "WriteReg r v = modify (\<lambda>s. s\<lparr>u_wr := u_wr s @ [(r, v)]\<rparr>)"

definition uartinit :: "('z const_scheme, unit) kmon" where
  "uartinit =
     bnd (WriteReg 1 0x00) (\<lambda>_.
     bnd (WriteReg 3 0x80) (\<lambda>_.
     bnd (WriteReg 0 0x03) (\<lambda>_.
     bnd (WriteReg 1 0x00) (\<lambda>_.
     bnd (WriteReg 3 0x03) (\<lambda>_.
     bnd (WriteReg 2 0x07) (\<lambda>_.
     WriteReg 1 0x03))))))"

definition write_thr :: "byte \<Rightarrow> ('z const_scheme, unit) kmon" where
  "write_thr c = modify (\<lambda>s. s\<lparr>u_out := u_out s @ [c]\<rparr>)"

definition tx_idle :: "('z const_scheme, bool) kmon" where
  "tx_idle =
     bnd (gets u_idle) (\<lambda>l.
     case l of
       [] \<Rightarrow> ret False
     | b # bs \<Rightarrow> bnd (modify (\<lambda>s. s\<lparr>u_idle := bs\<rparr>)) (\<lambda>_. ret b))"

text \<open>Every round sends one byte, so one round more than there are bytes in the buffer is enough.\<close>

fun uartstart_loop :: "nat \<Rightarrow> ('z const_scheme, unit) kmon" where
  "uartstart_loop 0 = spins"
| "uartstart_loop (Suc n) =
     bnd (gets (\<lambda>s. uart_tx_w s = uart_tx_r s)) (\<lambda>none.
     if none then ret () else
     bnd tx_idle (\<lambda>idle.
     if \<not> idle then ret () else
     bnd (gets (\<lambda>s. uart_tx_buf s (unat (uart_tx_r s) mod UART_TX_BUF_SIZE))) (\<lambda>c.
     bnd (modify (\<lambda>s. s\<lparr>uart_tx_r := uart_tx_r s + 1\<rparr>)) (\<lambda>_.
     bnd (wakeup ChUart) (\<lambda>_.
     bnd (write_thr c) (\<lambda>_.
     uartstart_loop n))))))"

definition uartstart :: "('z const_scheme, unit) kmon" where
  "uartstart = bnd (gets (\<lambda>s. unat (uart_tx_w s - uart_tx_r s))) (\<lambda>n. uartstart_loop (Suc n))"

definition uartputc_loop :: "byte \<Rightarrow> ('z const_scheme, unit) kmon" where
  "uartputc_loop c =
     bnd (gets (\<lambda>s. uart_tx_w s = uart_tx_r s + of_nat UART_TX_BUF_SIZE)) (\<lambda>full.
     if full then sleep ChUart LUart else
     bnd (modify (\<lambda>s. s\<lparr>uart_tx_buf := (uart_tx_buf s)(unat (uart_tx_w s) mod UART_TX_BUF_SIZE := c)\<rparr>)) (\<lambda>_.
     bnd (modify (\<lambda>s. s\<lparr>uart_tx_w := uart_tx_w s + 1\<rparr>)) (\<lambda>_.
     bnd uartstart (\<lambda>_.
     lock_release LUart))))"

definition uartputc :: "byte \<Rightarrow> ('z const_scheme, unit) kmon" where
  "uartputc c =
     bnd (lock_acquire LUart) (\<lambda>_.
     bnd (gets panicked) (\<lambda>p.
     if p then spins else uartputc_loop c))"

definition uartputc_resume :: "byte \<Rightarrow> ('z const_scheme, unit) kmon" where
  "uartputc_resume c = bnd (sleep_resume LUart) (\<lambda>_. uartputc_loop c)"

definition uartputc_sync :: "byte \<Rightarrow> ('z const_scheme, unit) kmon" where
  "uartputc_sync c =
     bnd (gets panicked) (\<lambda>p.
     if p then spins else
     bnd (gets (\<lambda>s. dropWhile Not (u_idle s))) (\<lambda>l.
     case l of
       [] \<Rightarrow> spins
     | _ # rest \<Rightarrow>
       bnd (modify (\<lambda>s. s\<lparr>u_idle := rest\<rparr>)) (\<lambda>_.
       write_thr c)))"

definition uartgetc :: "('z const_scheme, byte option) kmon" where
  "uartgetc =
     bnd (gets u_in) (\<lambda>l.
     case l of
       [] \<Rightarrow> ret None
     | c # cs \<Rightarrow> bnd (modify (\<lambda>s. s\<lparr>u_in := cs\<rparr>)) (\<lambda>_. ret (Some c)))"

section \<open>kernel/console.c, kernel/printf.c: output\<close>

definition consputc :: "cint \<Rightarrow> ('z const_scheme, unit) kmon" where
  "consputc c =
     (if c = BACKSPACE then
        bnd (uartputc_sync 8) (\<lambda>_. bnd (uartputc_sync 0x20) (\<lambda>_. uartputc_sync 8))
      else uartputc_sync (ucast c))"

definition putbytes :: "byte list \<Rightarrow> ('z const_scheme, unit) kmon" where
  "putbytes bs = for_each bs (\<lambda>c. consputc (ucast c))"

definition digits :: "byte list" where
  "digits = map of_nat [48, 49, 50, 51, 52, 53, 54, 55, 56, 57, 97, 98, 99, 100, 101, 102]"

text \<open>The \<open>do\<close> loop of \<open>printint\<close>: the digits of \<open>x\<close>, lowest first.\<close>

function printint_digits :: "nat \<Rightarrow> nat \<Rightarrow> byte list" where
  "printint_digits x base =
     digits ! (x mod base) # (if x div base \<noteq> 0 \<and> 1 < base then printint_digits (x div base) base else [])"
  by pat_completeness auto
termination
  by (relation "measure fst") (auto, metis div_0 div_less_dividend gr0I less_numeral_extra(3) One_nat_def)

declare printint_digits.simps [simp del]

definition printint_bytes :: "cint \<Rightarrow> nat \<Rightarrow> bool \<Rightarrow> byte list" where
  "printint_bytes xx base sign =
     (let neg = sign \<and> sint xx < 0; x = (if neg then - xx else xx) in
      rev (printint_digits (unat x) base @ (if neg then [0x2D] else [])))"

definition printint :: "cint \<Rightarrow> nat \<Rightarrow> bool \<Rightarrow> ('z const_scheme, unit) kmon" where
  "printint xx base sign = putbytes (printint_bytes xx base sign)"

definition printptr_bytes :: "uint64 \<Rightarrow> byte list" where
  "printptr_bytes x = [0x30, 0x78] @ map (\<lambda>i. digits ! unat (drop_bit 60 (push_bit (4 * i) x))) [0..<16]"

definition printptr :: "uint64 \<Rightarrow> ('z const_scheme, unit) kmon" where
  "printptr x = putbytes (printptr_bytes x)"

datatype parg = PInt cint | PPtr uint64 | PStr "byte list option"

text \<open>\<open>(null)\<close>.\<close>

definition null_str :: "byte list" where
  "null_str = [0x28, 0x6E, 0x75, 0x6C, 0x6C, 0x29]"

text \<open>
  The loop of \<open>printf\<close> over the format and the arguments that remain. Fetching an argument that
  was not passed, or one of another type, is a fault.
\<close>

fun printf_loop :: "byte list \<Rightarrow> parg list \<Rightarrow> ('z const_scheme, unit) kmon" where
  "printf_loop [] ap = ret ()"
| "printf_loop [c] ap = (if c = 0 \<or> c = 0x25 then ret () else consputc (ucast c))"
| "printf_loop (c # d # fmt) ap =
     (if c = 0 then ret ()
      else if c \<noteq> 0x25 then bnd (consputc (ucast c)) (\<lambda>_. printf_loop (d # fmt) ap)
      else if d = 0 then ret ()
      else if d = 0x64 then
        (case ap of PInt n # ap' \<Rightarrow> bnd (printint n 10 True) (\<lambda>_. printf_loop fmt ap') | _ \<Rightarrow> fault)
      else if d = 0x78 then
        (case ap of PInt n # ap' \<Rightarrow> bnd (printint n 16 True) (\<lambda>_. printf_loop fmt ap') | _ \<Rightarrow> fault)
      else if d = 0x70 then
        (case ap of PPtr n # ap' \<Rightarrow> bnd (printptr n) (\<lambda>_. printf_loop fmt ap') | _ \<Rightarrow> fault)
      else if d = 0x73 then
        (case ap of
           PStr (Some t) # ap' \<Rightarrow> bnd (putbytes (cstr t)) (\<lambda>_. printf_loop fmt ap')
         | PStr None # ap' \<Rightarrow> bnd (putbytes null_str) (\<lambda>_. printf_loop fmt ap')
         | _ \<Rightarrow> fault)
      else if d = 0x25 then bnd (consputc 0x25) (\<lambda>_. printf_loop fmt ap)
      else bnd (consputc 0x25) (\<lambda>_. bnd (consputc (ucast d)) (\<lambda>_. printf_loop fmt ap)))"

definition printf :: "byte list option \<Rightarrow> parg list \<Rightarrow> ('z const_scheme, unit) kmon" where
  "printf fmt args =
     bnd (gets pr_locking) (\<lambda>locking.
     bnd (if locking then lock_acquire LPr else ret ()) (\<lambda>_.
     case fmt of
       None \<Rightarrow> panic ''null fmt''
     | Some f \<Rightarrow>
       bnd (printf_loop f args) (\<lambda>_.
       if locking then lock_release LPr else ret ())))"

definition printfinit :: "('z const_scheme, unit) kmon" where
  "printfinit = modify (\<lambda>s. s\<lparr>pr_locking := True\<rparr>)"

definition ascii :: "string \<Rightarrow> byte list" where
  "ascii cs = map (\<lambda>c. of_nat (of_char c)) cs"

definition NL :: "byte list" where
  "NL = [0x0A]"

definition states :: "procstate \<Rightarrow> byte list" where
  "states q = (case q of UNUSED \<Rightarrow> ascii ''unused'' | ZOMBIE \<Rightarrow> ascii ''zombie'' | USED \<Rightarrow> ascii ''???'')"

definition procdump :: "('z const_scheme, unit) kmon" where
  "procdump =
     bnd (printf (Some NL) []) (\<lambda>_.
     for_each [0..<NPROC] (\<lambda>p.
       bnd (getp p (\<lambda>r. r)) (\<lambda>r.
       if p_state r = UNUSED then ret () else
       bnd (printf (Some (ascii ''%d %s %s'')) [PInt (p_pid r), PStr (Some (states (p_state r))), PStr (Some (p_name r))]) (\<lambda>_.
       printf (Some NL) []))))"

section \<open>kernel/console.c: reading, writing and input\<close>

fun consolewrite_loop :: "nat \<Rightarrow> bool \<Rightarrow> uint64 \<Rightarrow> cint \<Rightarrow> ('z const_scheme, cint) kmon" where
  "consolewrite_loop 0 user_src src i = ret i"
| "consolewrite_loop (Suc k) user_src src i =
     bnd (gets k_local) (\<lambda>c.
     bnd (either_copyin c user_src (src + scast i) 1) (\<lambda>r.
     if r = - 1 then ret i else
     bnd (ld8 c) (\<lambda>b.
     bnd (uartputc b) (\<lambda>_.
     consolewrite_loop k user_src src (i + 1)))))"

definition consolewrite :: "bool \<Rightarrow> uint64 \<Rightarrow> cint \<Rightarrow> ('z const_scheme, cint) kmon" where
  "consolewrite user_src src n = consolewrite_loop (nat (sint n)) user_src src 0"

text \<open>A writer that slept in \<open>uartputc\<close> with byte \<open>c\<close>, the \<open>i\<close>-th of \<open>n\<close>.\<close>

definition consolewrite_resume :: "byte \<Rightarrow> bool \<Rightarrow> uint64 \<Rightarrow> cint \<Rightarrow> cint \<Rightarrow> ('z const_scheme, cint) kmon" where
  "consolewrite_resume c user_src src i n =
     bnd (uartputc_resume c) (\<lambda>_. consolewrite_loop (nat (sint n - sint i - 1)) user_src src (i + 1))"

text \<open>\<open>consoleread\<close> from the test of the outer loop on; \<open>k\<close> bytes are still wanted.\<close>

fun consoleread_loop :: "nat \<Rightarrow> bool \<Rightarrow> uint64 \<Rightarrow> uint \<Rightarrow> ('z const_scheme, cint) kmon" where
  "consoleread_loop 0 user_dst dst target = bnd (lock_release LCons) (\<lambda>_. ret target)"
| "consoleread_loop (Suc k) user_dst dst target =
     bnd (gets (\<lambda>s. cons_r s = cons_w s)) (\<lambda>none.
     if none then
       bnd myproc (\<lambda>p.
       bnd (getp p p_killed) (\<lambda>killed.
       if killed then bnd (lock_release LCons) (\<lambda>_. ret (- 1))
       else sleep ChCons LCons))
     else
       bnd (gets (\<lambda>s. cons_buf s (unat (cons_r s) mod INPUT_BUF))) (\<lambda>c.
       bnd (modify (\<lambda>s. s\<lparr>cons_r := cons_r s + 1\<rparr>)) (\<lambda>_.
       if ucast c = Ctl 0x44 then
         bnd (if of_nat (Suc k) < target then modify (\<lambda>s. s\<lparr>cons_r := cons_r s - 1\<rparr>) else ret ()) (\<lambda>_.
         bnd (lock_release LCons) (\<lambda>_. ret (target - of_nat (Suc k))))
       else
         bnd (gets k_local) (\<lambda>cbuf.
         bnd (st8 cbuf c) (\<lambda>_.
         bnd (either_copyout user_dst dst cbuf 1) (\<lambda>r.
         if r = - 1 then bnd (lock_release LCons) (\<lambda>_. ret (target - of_nat (Suc k)))
         else if c = 0x0A then bnd (lock_release LCons) (\<lambda>_. ret (target - of_nat k))
         else consoleread_loop k user_dst (dst + 1) target))))))"

definition consoleread :: "bool \<Rightarrow> uint64 \<Rightarrow> cint \<Rightarrow> ('z const_scheme, cint) kmon" where
  "consoleread user_dst dst n =
     bnd (lock_acquire LCons) (\<lambda>_.
     if 0 < sint n then consoleread_loop (nat (sint n)) user_dst dst n
     else bnd (lock_release LCons) (\<lambda>_. ret (n - n)))"

definition consoleread_resume :: "nat \<Rightarrow> bool \<Rightarrow> uint64 \<Rightarrow> uint \<Rightarrow> ('z const_scheme, cint) kmon" where
  "consoleread_resume k user_dst dst target =
     bnd (sleep_resume LCons) (\<lambda>_. consoleread_loop k user_dst dst target)"

text \<open>Control-U: every round moves the edit index one back towards the write index.\<close>

fun kill_line :: "nat \<Rightarrow> ('z const_scheme, unit) kmon" where
  "kill_line 0 = spins"
| "kill_line (Suc n) =
     bnd (gets (\<lambda>s. cons_e s \<noteq> cons_w s \<and> cons_buf s (unat (cons_e s - 1) mod INPUT_BUF) \<noteq> 0x0A)) (\<lambda>go.
     if go then
       bnd (modify (\<lambda>s. s\<lparr>cons_e := cons_e s - 1\<rparr>)) (\<lambda>_.
       bnd (consputc BACKSPACE) (\<lambda>_.
       kill_line n))
     else ret ())"

definition consoleintr :: "cint \<Rightarrow> ('z const_scheme, unit) kmon" where
  "consoleintr c =
     bnd (lock_acquire LCons) (\<lambda>_.
     bnd (if c = Ctl 0x50 then procdump
       else if c = Ctl 0x55 then bnd (gets (\<lambda>s. unat (cons_e s - cons_w s))) (\<lambda>n. kill_line (Suc n))
       else if c = Ctl 0x48 \<or> c = 0x7F then
         bnd (gets (\<lambda>s. cons_e s \<noteq> cons_w s)) (\<lambda>some.
         if some then
           bnd (modify (\<lambda>s. s\<lparr>cons_e := cons_e s - 1\<rparr>)) (\<lambda>_.
           consputc BACKSPACE)
         else ret ())
       else
         bnd (gets (\<lambda>s. cons_e s - cons_r s < of_nat INPUT_BUF)) (\<lambda>room.
         if c \<noteq> 0 \<and> room then
           let c = (if c = 0x0D then 0x0A else c) in
           bnd (consputc c) (\<lambda>_.
           bnd (modify (\<lambda>s. s\<lparr>cons_buf := (cons_buf s)(unat (cons_e s) mod INPUT_BUF := ucast c)\<rparr>)) (\<lambda>_.
           bnd (modify (\<lambda>s. s\<lparr>cons_e := cons_e s + 1\<rparr>)) (\<lambda>_.
           bnd (gets (\<lambda>s. cons_e s = cons_r s + of_nat INPUT_BUF)) (\<lambda>full.
           if c = 0x0A \<or> c = Ctl 0x44 \<or> full then
             bnd (modify (\<lambda>s. s\<lparr>cons_w := cons_e s\<rparr>)) (\<lambda>_.
             wakeup ChCons)
           else ret ()))))
         else ret ())) (\<lambda>_.
     lock_release LCons))"

definition consoleinit :: "('z const_scheme, unit) kmon" where
  "consoleinit = bnd uartinit (\<lambda>_. modify (\<lambda>s. s\<lparr>devsw_console := True\<rparr>))"

fun uartintr_loop :: "nat \<Rightarrow> ('z const_scheme, unit) kmon" where
  "uartintr_loop 0 = spins"
| "uartintr_loop (Suc n) =
     bnd uartgetc (\<lambda>r.
     case r of
       None \<Rightarrow> ret ()
     | Some c \<Rightarrow> bnd (consoleintr (ucast c)) (\<lambda>_. uartintr_loop n))"

definition uartintr :: "('z const_scheme, unit) kmon" where
  "uartintr =
     bnd (gets (\<lambda>s. length (u_in s))) (\<lambda>n.
     bnd (uartintr_loop (Suc n)) (\<lambda>_.
     bnd (lock_acquire LUart) (\<lambda>_.
     bnd uartstart (\<lambda>_.
     lock_release LUart))))"

section \<open>Printed numbers\<close>

text \<open>Reading a number back: digits, with an optional minus sign.\<close>

definition digit_value :: "byte \<Rightarrow> nat" where
  "digit_value c = (if 97 \<le> c then unat c - 87 else unat c - 48)"

definition read_nat :: "nat \<Rightarrow> byte list \<Rightarrow> nat" where
  "read_nat base ds = foldl (\<lambda>n c. n * base + digit_value c) 0 ds"

definition read_int :: "nat \<Rightarrow> byte list \<Rightarrow> int" where
  "read_int base ds = (if ds \<noteq> [] \<and> hd ds = 0x2D then - int (read_nat base (tl ds)) else int (read_nat base ds))"

lemma digits_value: "n < 16 \<Longrightarrow> digit_value (digits ! n) = n \<and> digits ! n \<noteq> 0x2D"
proof -
  have "\<forall>n\<in>set [0..<16]. digit_value (digits ! n) = n \<and> digits ! n \<noteq> 0x2D" by (simp add: upt_rec digits_def digit_value_def)
  then show "n < 16 \<Longrightarrow> digit_value (digits ! n) = n \<and> digits ! n \<noteq> 0x2D" by simp
qed

lemma read_printint_digits:
  assumes "1 < base" "base \<le> 16"
  shows "read_nat base (rev (printint_digits x base)) = x"
  using assms
proof (induction x rule: less_induct)
  case (less x)
  have "x mod base < base" using less.prems by simp
  then have "x mod base < 16" using less.prems(2) by linarith
  then have d: "digit_value (digits ! (x mod base)) = x mod base" using digits_value by blast
  show ?case
  proof (cases "x div base = 0")
    case True
    then show ?thesis using d less.prems by (subst printint_digits.simps) (simp add: read_nat_def div_eq_0_iff)
  next
    case False
    then have "x div base < x" using less.prems by (metis div_0 div_less_dividend gr0I)
    then have "read_nat base (rev (printint_digits (x div base) base)) = x div base" using less by blast
    then show ?thesis using d False less.prems
      by (subst printint_digits.simps) (simp add: read_nat_def mult.commute)
  qed
qed

lemma printint_digits_bound:
  assumes "1 < base" "x < base ^ Suc k"
  shows "length (printint_digits x base) \<le> Suc k"
  using assms
proof (induction k arbitrary: x)
  case 0
  then show ?case by (subst printint_digits.simps) simp
next
  case (Suc k)
  then have "x div base < base ^ Suc k" by (simp add: div_less_iff_less_mult mult.commute)
  then have "length (printint_digits (x div base) base) \<le> Suc k" using Suc by blast
  then show ?case by (subst printint_digits.simps) simp
qed

lemma printint_digits_set:
  assumes "1 < base" "base \<le> 16"
  shows "set (printint_digits x base) \<subseteq> (\<lambda>n. digits ! n) ` {..<base}"
  using assms
proof (induction x rule: less_induct)
  case (less x)
  have m: "x mod base < base" using less.prems by simp
  show ?case
  proof (cases "x div base = 0")
    case True
    then show ?thesis using m by (subst printint_digits.simps) simp
  next
    case False
    then have "x div base < x" using less.prems by (metis div_0 div_less_dividend gr0I)
    then have "set (printint_digits (x div base) base) \<subseteq> (\<lambda>n. digits ! n) ` {..<base}" using less by blast
    then show ?thesis using m False less.prems by (subst printint_digits.simps) simp
  qed
qed

lemma uint_minus_neg:
  assumes "sint (xx :: 32 word) < 0"
  shows "uint (- xx) = - sint xx"
proof -
  have "uint xx = sint xx mod 2 ^ 32" using uint_sint [of xx] by (simp add: take_bit_eq_mod)
  then have "uint (- xx) = (- (sint xx mod 2 ^ 32)) mod 2 ^ 32" using uint_word_ariths(4) [of xx] by simp
  also have "\<dots> = (- sint xx) mod 2 ^ 32" by (rule mod_minus_eq)
  also have "\<dots> = - sint xx" using assms sint_ge [of xx] by (intro mod_pos_pos_trivial) simp_all
  finally show ?thesis .
qed

lemma uint_nonneg_sint:
  assumes "\<not> sint (xx :: 32 word) < 0"
  shows "uint xx = sint xx"
proof -
  have "uint xx = sint xx mod 2 ^ 32" using uint_sint [of xx] by (simp add: take_bit_eq_mod)
  also have "\<dots> = sint xx" using assms sint_lt [of xx] by (intro mod_pos_pos_trivial) simp_all
  finally show ?thesis .
qed

text \<open>
  C31. What \<open>printint\<close> prints reads back as the number, signed or unsigned, in base 10 and 16, the
  smallest integer included, and never overruns its buffer of 16 bytes.
\<close>

theorem printint_roundtrip:
  assumes "base = 10 \<or> base = 16"
  shows "read_int base (printint_bytes xx base sign) = (if sign then sint xx else uint xx) \<and>
    length (printint_bytes xx base sign) \<le> 16"
proof -
  have b: "1 < base" "base \<le> 16" using assms by auto
  define neg where "neg = (sign \<and> sint xx < 0)"
  define x where "x = (if neg then - xx else xx)"
  let ?d = "rev (printint_digits (unat x) base)"
  have bytes: "printint_bytes xx base sign = (if neg then [0x2D] else []) @ ?d"
    by (simp add: printint_bytes_def Let_def neg_def x_def)
  have "unat x < 2 ^ 32" using unsigned_less [of x, where 'a = nat] by simp
  also have "(2 :: nat) ^ 32 \<le> base ^ Suc 9" using assms by auto
  finally have "length ?d \<le> Suc 9" using printint_digits_bound [OF b(1), of "unat x" 9] unfolding length_rev by blast
  then have len: "length (printint_bytes xx base sign) \<le> 16" by (simp add: bytes)
  have "?d \<noteq> []" by (subst printint_digits.simps) simp
  then have "hd ?d \<in> set (printint_digits (unat x) base)" by (metis hd_in_set set_rev)
  then have nm: "hd ?d \<noteq> 0x2D" using printint_digits_set [OF b] b(2) digits_value by fastforce
  have v: "int (unat x) = (if neg then - sint xx else if sign then sint xx else uint xx)"
  proof (cases neg)
    case True
    then have "sint xx < 0" by (simp add: neg_def)
    then have "uint (- xx) = - sint xx" by (rule uint_minus_neg)
    then show ?thesis using True by (simp add: x_def)
  next
    case False
    then show ?thesis using uint_nonneg_sint [of xx] by (auto simp: x_def neg_def)
  qed
  show ?thesis using len nm v read_printint_digits [OF b, of "unat x"]
    by (auto simp: bytes read_int_def neg_def split: if_splits)
qed

theorem printint_roundtrip_witness:
  "read_int 10 (printint_bytes (- 2147483648) 10 True) = - 2147483648"
  using printint_roundtrip [of 10 "- 2147483648" True] by simp

section \<open>The output ring of the serial port\<close>

definition uart_items :: "'z const_scheme \<Rightarrow> byte list" where
  "uart_items s = ring_items UART_TX_BUF_SIZE (uart_tx_buf s) (uart_tx_r s) (uart_tx_w s)"

definition uart_ok :: "'z const_scheme \<Rightarrow> bool" where
  "uart_ok s \<longleftrightarrow> unat (uart_tx_w s - uart_tx_r s) \<le> UART_TX_BUF_SIZE"

definition uart_put :: "byte \<Rightarrow> 'z const_scheme \<Rightarrow> 'z const_scheme" where
  "uart_put c s = s\<lparr>uart_tx_buf := (uart_tx_buf s)(unat (uart_tx_w s) mod UART_TX_BUF_SIZE := c), uart_tx_w := uart_tx_w s + 1\<rparr>"

definition uart_top :: "'z const_scheme \<Rightarrow> byte" where
  "uart_top s = uart_tx_buf s (unat (uart_tx_r s) mod UART_TX_BUF_SIZE)"

definition uart_pop :: "'z const_scheme \<Rightarrow> 'z const_scheme" where
  "uart_pop s = s\<lparr>uart_tx_r := uart_tx_r s + 1\<rparr>"

definition uart_full :: "'z const_scheme \<Rightarrow> bool" where
  "uart_full s \<longleftrightarrow> uart_tx_w s = uart_tx_r s + of_nat UART_TX_BUF_SIZE"

definition uart_empty :: "'z const_scheme \<Rightarrow> bool" where
  "uart_empty s \<longleftrightarrow> uart_tx_w s = uart_tx_r s"

interpretation uq: bounded_queue uart_items UART_TX_BUF_SIZE uart_ok uart_put uart_top uart_pop uart_full uart_empty
proof
  fix q :: "'a const_scheme" and x
  assume ok: "uart_ok q"
  have "uart_tx_w q = uart_tx_r q + 32 \<longleftrightarrow> uart_tx_w q - uart_tx_r q = 32" by (auto simp: algebra_simps)
  also have "\<dots> \<longleftrightarrow> unat (uart_tx_w q - uart_tx_r q) = 32" by (simp add: word_eq_unat)
  finally have full: "uart_full q \<longleftrightarrow> unat (uart_tx_w q - uart_tx_r q) = 32" by (simp add: uart_full_def)
  then show "uart_full q \<longleftrightarrow> length (uart_items q) = UART_TX_BUF_SIZE" by (simp add: uart_items_def)
  show "uart_empty q \<longleftrightarrow> uart_items q = []" by (auto simp: uart_items_def ring_empty_iff uart_empty_def)
  show "length (uart_items q) \<le> UART_TX_BUF_SIZE" using ok by (simp add: uart_items_def uart_ok_def)
  show "uart_ok (uart_put x q) \<and> uart_items (uart_put x q) = uart_items q @ [x]" if "\<not> uart_full q"
  proof -
    have lt: "unat (uart_tx_w q - uart_tx_r q) < 32" using ok that full by (simp add: uart_ok_def)
    have "UART_TX_BUF_SIZE dvd 2 ^ LENGTH(64)" by simp
    from ring_put [OF this, of "uart_tx_w q" "uart_tx_r q" "uart_tx_buf q" x] lt show ?thesis
      using counter_diff_Suc [of "uart_tx_w q" "uart_tx_r q"] by (simp add: uart_ok_def uart_items_def uart_put_def)
  qed
  show "uart_ok (uart_pop q) \<and> uart_items q = uart_top q # uart_items (uart_pop q)" if "\<not> uart_empty q"
  proof -
    have eq: "uart_items q = uart_top q # uart_items (uart_pop q)"
      using that ring_pop [of "uart_tx_r q" "uart_tx_w q" UART_TX_BUF_SIZE "uart_tx_buf q"]
      by (auto simp: uart_items_def uart_empty_def uart_pop_def uart_top_def)
    then have "length (uart_items (uart_pop q)) \<le> length (uart_items q)" by simp
    then have "uart_ok (uart_pop q)" using ok by (simp add: uart_ok_def uart_items_def uart_pop_def)
    with eq show ?thesis by simp
  qed
qed

text \<open>How many bytes the device takes: one for each answer that it is idle.\<close>

definition uart_ready :: "'z const_scheme \<Rightarrow> nat" where
  "uart_ready s = length (takeWhile (\<lambda>b. b) (u_idle s))"

definition uart_sent :: "nat \<Rightarrow> 'z const_scheme \<Rightarrow> 'z const_scheme \<Rightarrow> bool" where
  "uart_sent k s t \<longleftrightarrow> uart_ok t \<and> u_out t = u_out s @ take k (uart_items s) \<and> uart_items t = drop k (uart_items s) \<and>
     held t = held s"

lemma uart_obs [simp]:
  "uart_items (s\<lparr>u_idle := x\<rparr>) = uart_items s" "uart_items (s\<lparr>u_out := y\<rparr>) = uart_items s"
  "uart_items (s\<lparr>procs := z\<rparr>) = uart_items s" "uart_items (s\<lparr>held := h\<rparr>) = uart_items s"
  "uart_ok (s\<lparr>u_idle := x\<rparr>) = uart_ok s" "uart_ok (s\<lparr>u_out := y\<rparr>) = uart_ok s"
  "uart_ok (s\<lparr>procs := z\<rparr>) = uart_ok s" "uart_ok (s\<lparr>held := h\<rparr>) = uart_ok s"
  by (simp_all add: uart_items_def uart_ok_def)

lemma uartstart_loop_sends:
  assumes "uart_ok s" "no_proc_lock s" "length (uart_items s) < n"
  shows "wp (uartstart_loop n) (\<lambda>_. uart_sent (min (uart_ready s) (length (uart_items s))) s) s"
  using assms
proof (induction n arbitrary: s)
  case 0
  then show ?case by simp
next
  case (Suc n)
  show ?case
  proof (cases "uart_empty s")
    case True
    then have "uart_items s = []" using uq.empty_iff Suc.prems(1) by blast
    then show ?thesis using True Suc.prems(1) unfolding uartstart_loop.simps wp_bnd wp_gets by (simp add: uart_empty_def uart_sent_def)
  next
    case ne: False
    note p = uq.pop_items [OF Suc.prems(1) ne]
    show ?thesis
    proof (cases "u_idle s")
      case Nil
      then show ?thesis using ne Suc.prems(1) unfolding uartstart_loop.simps wp_bnd wp_gets by (simp add: uart_empty_def uart_sent_def tx_idle_def uart_ready_def)
    next
      case (Cons b bs)
      show ?thesis
      proof (cases b)
        case False
        then show ?thesis using ne Cons Suc.prems(1) unfolding uartstart_loop.simps wp_bnd wp_gets by (simp add: uart_empty_def uart_sent_def tx_idle_def uart_ready_def)
      next
        case True
        let ?t = "uart_pop (s\<lparr>u_idle := bs\<rparr>)\<lparr>procs := wake_all ChUart NPROC (procs s), u_out := u_out s @ [uart_top s]\<rparr>"
        have it: "uart_items ?t = uart_items (uart_pop s)" "uart_ok ?t" "no_proc_lock ?t"
          using p Suc.prems(2) by (simp_all add: no_proc_lock_def uart_pop_def uart_items_def uart_ok_def)
        have len: "length (uart_items s) = Suc (length (uart_items ?t))" using p it(1) by simp
        then have "length (uart_items ?t) < n" using Suc.prems(3) by simp
        from Suc.IH [OF it(2,3) this]
        have "wp (uartstart_loop n) (\<lambda>_. uart_sent (min (uart_ready ?t) (length (uart_items ?t))) ?t) ?t" .
        moreover have "uart_ready s = Suc (uart_ready ?t)" using Cons True by (simp add: uart_ready_def uart_pop_def)
        moreover have "uart_sent (Suc k) s u" if "uart_sent k ?t u" for k u
          using that p it(1) by (simp add: uart_sent_def uart_pop_def)
        ultimately have "wp (uartstart_loop n) (\<lambda>_. uart_sent (min (uart_ready s) (length (uart_items s))) s) ?t"
          unfolding len by (auto elim!: wp_mono)
        moreover have "no_proc_lock (s\<lparr>u_idle := bs, uart_tx_r := uart_tx_r s + 1\<rparr>)" using Suc.prems(2) by (simp add: no_proc_lock_def)
        ultimately show ?thesis using ne Cons True unfolding uartstart_loop.simps wp_bnd wp_gets
          by (simp add: uart_empty_def tx_idle_def wp_wakeup write_thr_def uart_pop_def uart_top_def)
      qed
    qed
  qed
qed

text \<open>
  C33. \<open>uartstart\<close> ends, with any interrupt state of the device: it sends bytes from the front of the ring
  for as long as the device answers that it is idle and the ring is not empty, and removes exactly these.
\<close>

theorem uartstart_sends:
  assumes "uart_ok s" "no_proc_lock s"
  shows "\<exists>t. uartstart s = Done () t \<and>
    (let k = min (uart_ready s) (length (uart_items s)) in
      u_out t = u_out s @ take k (uart_items s) \<and> uart_items t = drop k (uart_items s))"
proof -
  have "length (uart_items s) = unat (uart_tx_w s - uart_tx_r s)" by (simp add: uart_items_def)
  then have "wp uartstart (\<lambda>_. uart_sent (min (uart_ready s) (length (uart_items s))) s) s"
    using uartstart_loop_sends [OF assms, of "Suc (length (uart_items s))"] by (simp add: uartstart_def del: uartstart_loop.simps)
  then show ?thesis unfolding wp_obtain by (auto simp: uart_sent_def Let_def)
qed


definition demo_const :: const where
  "demo_const = fsst.extend demo_fsst \<lparr>cons_buf = (\<lambda>_. 0), cons_r = 0, cons_w = 0, cons_e = 0, uart_tx_buf = (\<lambda>_. 65),
     uart_tx_w = 1, uart_tx_r = - 1, u_in = [], u_idle = [True, False], u_out = [66], u_wr = [], panicked = False,
     pr_locking = True, devsw_console = True\<rparr>"

lemma demo_const_simps:
  "held demo_const = []" "uart_tx_w demo_const = 1" "uart_tx_r demo_const = - 1" "uart_tx_buf demo_const = (\<lambda>_. 65)"
  "u_idle demo_const = [True, False]" "u_out demo_const = [66]" "panicked demo_const = False"
  by (simp_all add: demo_const_def fsst.defs demo_fsst_def logst.defs demo_logst_def bufst.defs demo_bufst_def pipest.defs
      demo_pipest_def demo_slst_def demo_bst_def demo_pst_def slst.defs bst.defs pst.defs)

lemma demo_const_uart: "uart_ok demo_const" "uart_items demo_const = [65, 65]" "no_proc_lock demo_const" "uart_ready demo_const = 1"
  by (simp_all add: uart_ok_def uart_items_def ring_items_def demo_const_simps no_proc_lock_def uart_ready_def upt_rec)

theorem uartstart_sends_witness: "\<exists>t. uartstart demo_const = Done () t \<and> u_out t = [66, 65] \<and> uart_items t = [65]"
  using uartstart_sends [OF demo_const_uart(1,3)] by (simp add: demo_const_uart demo_const_simps)


end
