(* ===== verification/Xv6_File.thy ===== *)
theory Xv6_File
  imports Xv6_Console
begin

text \<open>
  Open files (\<^verbatim>\<open>kernel/file.c\<close>) and the creation of pipes (\<open>pipealloc\<close> of \<^verbatim>\<open>kernel/pipe.c\<close>). A file is its
  index in \<open>ftable\<close>. The only entry of \<open>devsw\<close> is the console's, once \<open>consoleinit\<close> has run.
\<close>

definition NFILE :: nat where [simp]: "NFILE = 100"
definition NDEV :: int where [simp]: "NDEV = 10"
definition CONSOLE :: uint16 where [simp]: "CONSOLE = 1"

datatype ftype = FD_NONE | FD_PIPE | FD_INODE | FD_DEVICE

record file_t =
  f_type :: ftype
  f_ref :: cint
  f_readable :: bool
  f_writable :: bool
  f_pipe :: uint64
  f_ip :: "nat option"
  f_off :: uint
  f_major :: uint16

record filest = const +
  ftable :: "nat \<Rightarrow> file_t"

definition getf :: "nat \<Rightarrow> (file_t \<Rightarrow> 'a) \<Rightarrow> ('z filest_scheme, 'a) kmon" where
  "getf f g = gets (\<lambda>s. g (ftable s f))"

definition setf :: "nat \<Rightarrow> (file_t \<Rightarrow> file_t) \<Rightarrow> ('z filest_scheme, unit) kmon" where
  "setf f g = modify (\<lambda>s. s\<lparr>ftable := (ftable s)(f := g (ftable s f))\<rparr>)"

definition filealloc :: "('z filest_scheme, nat option) kmon" where
  "filealloc =
     bnd (lock_acquire LFtable) (\<lambda>_.
     bnd (gets (\<lambda>s. List.find (\<lambda>f. f_ref (ftable s f) = 0) [0..<NFILE])) (\<lambda>r.
     case r of
       Some f \<Rightarrow>
         bnd (setf f (\<lambda>x. x\<lparr>f_ref := 1\<rparr>)) (\<lambda>_.
         bnd (lock_release LFtable) (\<lambda>_.
         ret (Some f)))
     | None \<Rightarrow> bnd (lock_release LFtable) (\<lambda>_. ret None)))"

definition filedup :: "nat \<Rightarrow> ('z filest_scheme, nat) kmon" where
  "filedup f =
     bnd (lock_acquire LFtable) (\<lambda>_.
     bnd (getf f f_ref) (\<lambda>ref.
     if sint ref < 1 then panic ''filedup'' else
     bnd (setf f (\<lambda>x. x\<lparr>f_ref := f_ref x + 1\<rparr>)) (\<lambda>_.
     bnd (lock_release LFtable) (\<lambda>_.
     ret f))))"

definition fileclose :: "nat \<Rightarrow> ('z filest_scheme, unit) kmon" where
  "fileclose f =
     bnd (lock_acquire LFtable) (\<lambda>_.
     bnd (getf f f_ref) (\<lambda>ref.
     if sint ref < 1 then panic ''fileclose'' else
     bnd (setf f (\<lambda>x. x\<lparr>f_ref := f_ref x - 1\<rparr>)) (\<lambda>_.
     bnd (getf f (\<lambda>x. x)) (\<lambda>ff.
     if sint (f_ref ff) > 0 then lock_release LFtable else
     bnd (setf f (\<lambda>x. x\<lparr>f_ref := 0, f_type := FD_NONE\<rparr>)) (\<lambda>_.
     bnd (lock_release LFtable) (\<lambda>_.
     case f_type ff of
       FD_PIPE \<Rightarrow> pipeclose (f_pipe ff) (f_writable ff)
     | FD_NONE \<Rightarrow> ret ()
     | _ \<Rightarrow>
       bnd begin_op (\<lambda>_.
       bnd (case f_ip ff of None \<Rightarrow> fault | Some ip \<Rightarrow> iput ip) (\<lambda>_.
       end_op))))))))"

text \<open>\<open>struct stat\<close> in memory: four bytes of padding precede the size.\<close>

definition store_stat :: "uint64 \<Rightarrow> stat \<Rightarrow> ('z filest_scheme, unit) kmon" where
  "store_stat a sr =
     bnd (store_bytes a (le_bytes 4 (st_dev sr) @ le_bytes 4 (st_ino sr) @ le_bytes 2 (st_type sr) @ le_bytes 2 (st_nlink sr))) (\<lambda>_.
     store_bytes (a + 16) (le_bytes 8 (st_size sr)))"

definition filestat :: "nat \<Rightarrow> uint64 \<Rightarrow> ('z filest_scheme, cint) kmon" where
  "filestat f addr =
     bnd myproc (\<lambda>p.
     bnd (getf f (\<lambda>x. x)) (\<lambda>ff.
     if f_type ff = FD_INODE \<or> f_type ff = FD_DEVICE then
       bnd (ilock (f_ip ff)) (\<lambda>_.
       case f_ip ff of None \<Rightarrow> fault | Some ip \<Rightarrow>
       bnd (stati ip) (\<lambda>sr.
       bnd (iunlock (f_ip ff)) (\<lambda>_.
       bnd (gets k_local) (\<lambda>l.
       bnd (store_stat l sr) (\<lambda>_.
       bnd (getp p p_pagetable) (\<lambda>pagetable.
       bnd (copyout pagetable addr l 24) (\<lambda>r.
       if r < 0 then ret (- 1) else ret 0)))))))
     else ret (- 1)))"

definition fileread :: "nat \<Rightarrow> uint64 \<Rightarrow> cint \<Rightarrow> ('z filest_scheme, cint) kmon" where
  "fileread f addr n =
     bnd (getf f (\<lambda>x. x)) (\<lambda>ff.
     if \<not> f_readable ff then ret (- 1) else
     case f_type ff of
       FD_PIPE \<Rightarrow> piperead (f_pipe ff) addr n
     | FD_DEVICE \<Rightarrow>
       bnd (gets devsw_console) (\<lambda>console.
       if sint (f_major ff) < 0 \<or> sint (f_major ff) \<ge> NDEV \<or> \<not> (console \<and> f_major ff = CONSOLE) then ret (- 1)
       else consoleread True addr n)
     | FD_INODE \<Rightarrow>
       bnd (ilock (f_ip ff)) (\<lambda>_.
       case f_ip ff of None \<Rightarrow> fault | Some ip \<Rightarrow>
       bnd (getf f f_off) (\<lambda>off.
       bnd (readi ip True addr off n) (\<lambda>r.
       bnd (if sint r > 0 then setf f (\<lambda>x. x\<lparr>f_off := f_off x + r\<rparr>) else ret ()) (\<lambda>_.
       bnd (iunlock (f_ip ff)) (\<lambda>_.
       ret r)))))
     | FD_NONE \<Rightarrow> panic ''fileread'')"

definition FW_MAX :: cint where
  "FW_MAX = of_nat (((MAXOPBLOCKS - 1 - 1 - 2) div 2) * BSIZE)"

text \<open>
  The loop of \<open>filewrite\<close> on an inode; the result is \<open>i\<close>. A round that goes on has written at least
  one byte, so \<open>n + 1\<close> rounds are enough.
\<close>

fun filewrite_loop :: "nat \<Rightarrow> nat \<Rightarrow> uint64 \<Rightarrow> cint \<Rightarrow> cint \<Rightarrow> ('z filest_scheme, cint) kmon" where
  "filewrite_loop 0 f addr n i = spins"
| "filewrite_loop (Suc k) f addr n i =
     (if sint i < sint n then
        let n1 = (if sint (n - i) > sint FW_MAX then FW_MAX else n - i) in
        bnd begin_op (\<lambda>_.
        bnd (getf f f_ip) (\<lambda>ipo.
        bnd (ilock ipo) (\<lambda>_.
        case ipo of None \<Rightarrow> fault | Some ip \<Rightarrow>
        bnd (getf f f_off) (\<lambda>off.
        bnd (writei ip True (addr + scast i) off n1) (\<lambda>r.
        bnd (if sint r > 0 then setf f (\<lambda>x. x\<lparr>f_off := f_off x + r\<rparr>) else ret ()) (\<lambda>_.
        bnd (iunlock ipo) (\<lambda>_.
        bnd end_op (\<lambda>_.
        if r \<noteq> n1 then ret i else filewrite_loop k f addr n (i + r)))))))))
      else ret i)"

definition filewrite :: "nat \<Rightarrow> uint64 \<Rightarrow> cint \<Rightarrow> ('z filest_scheme, cint) kmon" where
  "filewrite f addr n =
     bnd (getf f (\<lambda>x. x)) (\<lambda>ff.
     if \<not> f_writable ff then ret (- 1) else
     case f_type ff of
       FD_PIPE \<Rightarrow> pipewrite (f_pipe ff) addr n
     | FD_DEVICE \<Rightarrow>
       bnd (gets devsw_console) (\<lambda>console.
       if sint (f_major ff) < 0 \<or> sint (f_major ff) \<ge> NDEV \<or> \<not> (console \<and> f_major ff = CONSOLE) then ret (- 1)
       else consolewrite True addr n)
     | FD_INODE \<Rightarrow>
       bnd (filewrite_loop (Suc (nat (sint n))) f addr n 0) (\<lambda>i.
       ret (if i = n then n else - 1))
     | FD_NONE \<Rightarrow> panic ''filewrite'')"

section \<open>pipealloc of kernel/pipe.c\<close>

definition pipe_bad :: "uint64 \<Rightarrow> nat option \<Rightarrow> nat option \<Rightarrow> ('z filest_scheme, (nat \<times> nat) option) kmon" where
  "pipe_bad pi f0 f1 =
     bnd (if pi \<noteq> 0 then kfree pi else ret ()) (\<lambda>_.
     bnd (case f0 of None \<Rightarrow> ret () | Some f \<Rightarrow> fileclose f) (\<lambda>_.
     bnd (case f1 of None \<Rightarrow> ret () | Some f \<Rightarrow> fileclose f) (\<lambda>_.
     ret None)))"

definition pipealloc :: "('z filest_scheme, (nat \<times> nat) option) kmon" where
  "pipealloc =
     bnd filealloc (\<lambda>r0. case r0 of None \<Rightarrow> pipe_bad 0 None None | Some f0 \<Rightarrow>
     bnd filealloc (\<lambda>r1. case r1 of None \<Rightarrow> pipe_bad 0 (Some f0) None | Some f1 \<Rightarrow>
     bnd kalloc (\<lambda>pi.
     if pi = 0 then pipe_bad 0 (Some f0) (Some f1) else
     bnd (setpi pi pipe_init) (\<lambda>_.
     bnd (setf f0 (\<lambda>x. x\<lparr>f_type := FD_PIPE, f_readable := True, f_writable := False, f_pipe := pi\<rparr>)) (\<lambda>_.
     bnd (setf f1 (\<lambda>x. x\<lparr>f_type := FD_PIPE, f_readable := False, f_writable := True, f_pipe := pi\<rparr>)) (\<lambda>_.
     ret (Some (f0, f1))))))))"

text \<open>A state for examples.\<close>

definition demo_filest :: filest where
  "demo_filest = const.extend demo_const \<lparr>ftable = (\<lambda>_. \<lparr>f_type = FD_NONE, f_ref = 0, f_readable = False, f_writable = False,
     f_pipe = 0, f_ip = None, f_off = 0, f_major = 0\<rparr>)\<rparr>"

lemmas demo_states = demo_filest_def const.defs demo_const_def fsst.defs demo_fsst_def logst.defs demo_logst_def bufst.defs
  demo_bufst_def pipest.defs demo_pipest_def demo_slst_def demo_bst_def demo_pst_def slst.defs bst.defs pst.defs

lemma demo_filest_simps:
  "held demo_filest = []" "on_cpu 1 0 demo_filest" "procs demo_filest 1 = demo_proc\<lparr>p_pagetable := 0x80010000\<rparr>" "procs demo_filest (Suc 0) = demo_proc\<lparr>p_pagetable := 0x80010000\<rparr>" "initproc demo_filest = Some 0"
  by (simp_all add: demo_states on_cpu_def)

end
