(* ===== verification/Xv6_Life.thy ===== *)
theory Xv6_Life
  imports Xv6_File
begin

text \<open>
  The life of processes (\<^verbatim>\<open>kernel/proc.c\<close>): \<open>userinit\<close>, \<open>fork\<close>, \<open>exit\<close>, \<open>killthreads\<close> and
  \<open>kthread_exit_proc\<close>; and the replacement of a process's program (\<^verbatim>\<open>kernel/exec.c\<close>). \<open>killthreads\<close> gives
  up the CPU while other threads live; \<open>killthreads_resume\<close> is what it does when it runs again.
\<close>

definition MAXARG :: nat where [simp]: "MAXARG = 32"

section \<open>Exit\<close>

definition other_alive :: "proc \<Rightarrow> cint \<Rightarrow> nat \<Rightarrow> bool" where
  "other_alive r tid i \<longleftrightarrow> t_tid (thread_tbl r i) \<noteq> tid \<and> t_state (thread_tbl r i) \<noteq> TZOMBIE \<and>
     t_state (thread_tbl r i) \<noteq> t_UNUSED"

definition killthreads_wait :: "('z pst_scheme, unit) kmon" where
  "killthreads_wait =
     bnd myproc (\<lambda>p.
     bnd mythread (\<lambda>t.
     bnd (gett t t_tid) (\<lambda>tid.
     bnd (getp p (\<lambda>r. \<exists>i\<in>set [0..<NTHREAD]. other_alive r tid i)) (\<lambda>got.
     if got then yield else ret ()))))"

definition killthreads_resume :: "('z pst_scheme, unit) kmon" where
  "killthreads_resume = bnd yield_resume (\<lambda>_. killthreads_wait)"

definition killthreads :: "('z pst_scheme, unit) kmon" where
  "killthreads =
     bnd myproc (\<lambda>p.
     bnd mythread (\<lambda>t.
     bnd (gett t (\<lambda>r. r)) (\<lambda>tr.
     bnd (if t_killed tr then
       bnd (wakeup (ChThread (fst t) (snd t))) (\<lambda>_.
       bnd (lock_acquire (LThread (fst t) (snd t))) (\<lambda>_.
       bnd (sett t (\<lambda>r. r\<lparr>t_state := TZOMBIE\<rparr>)) (\<lambda>_.
       sched)))
       else for_each [0..<NTHREAD] (\<lambda>i.
         bnd (getp p (\<lambda>r. other_alive r (t_tid tr) i)) (\<lambda>alive.
         if alive then sett (p, i) (\<lambda>r. r\<lparr>t_killed := True\<rparr>) else ret ()))) (\<lambda>_.
     killthreads_wait))))"

definition chan_of :: "nat option \<Rightarrow> chan" where
  "chan_of p = (case p of None \<Rightarrow> ChNull | Some q \<Rightarrow> ChProc q)"

text \<open>\<open>exit\<close> after its call of \<open>killthreads\<close>.\<close>

definition exit_rest :: "cint \<Rightarrow> ('z filest_scheme, unit) kmon" where
  "exit_rest status =
     bnd myproc (\<lambda>p.
     bnd mythread (\<lambda>t.
     bnd (for_each [0..<NOFILE] (\<lambda>fd.
       bnd (getp p (\<lambda>r. p_ofile r fd)) (\<lambda>fo.
       case fo of
         None \<Rightarrow> ret ()
       | Some f \<Rightarrow>
         bnd (fileclose f) (\<lambda>_.
         setp p (\<lambda>r. r\<lparr>p_ofile := (p_ofile r)(fd := None)\<rparr>))))) (\<lambda>_.
     bnd begin_op (\<lambda>_.
     bnd (getp p p_cwd) (\<lambda>cwd.
     bnd (case cwd of None \<Rightarrow> fault | Some ip \<Rightarrow> iput ip) (\<lambda>_.
     bnd end_op (\<lambda>_.
     bnd (setp p (\<lambda>r. r\<lparr>p_cwd := None\<rparr>)) (\<lambda>_.
     bnd (lock_acquire LWait) (\<lambda>_.
     bnd (reparent p) (\<lambda>_.
     bnd (getp p p_parent) (\<lambda>parent.
     bnd (wakeup (chan_of parent)) (\<lambda>_.
     bnd (lock_acquire (LProc p)) (\<lambda>_.
     bnd (sett t (\<lambda>r. r\<lparr>t_state := TZOMBIE\<rparr>)) (\<lambda>_.
     bnd (setp p (\<lambda>r. r\<lparr>p_xstate := status, p_state := ZOMBIE\<rparr>)) (\<lambda>_.
     bnd (sett t (\<lambda>r. r\<lparr>t_xstate := status\<rparr>)) (\<lambda>_.
     bnd (lock_release LWait) (\<lambda>_.
     bnd sched (\<lambda>_ :: unit.
     panic ''zombie exit''))))))))))))))))))"

definition exit :: "cint \<Rightarrow> ('z filest_scheme, unit) kmon" where
  "exit status =
     bnd myproc (\<lambda>p.
     bnd (gets initproc) (\<lambda>init.
     if init = Some p then panic ''init exiting'' else
     bnd killthreads (\<lambda>_.
     exit_rest status)))"

definition exit_resume :: "cint \<Rightarrow> ('z filest_scheme, unit) kmon" where
  "exit_resume status = bnd killthreads_resume (\<lambda>_. exit_rest status)"

text \<open>The count of \<open>kthread_exit_proc\<close> takes unused slots for live threads.\<close>

definition counts_as_thread :: "threadstate \<Rightarrow> bool" where
  "counts_as_thread s \<longleftrightarrow> s = t_SLEEPING \<or> s = t_RUNNABLE \<or> s = t_RUNNING \<or> s = t_UNUSED"

definition kthread_exit_proc :: "cint \<Rightarrow> ('z filest_scheme, unit) kmon" where
  "kthread_exit_proc status =
     bnd mythread (\<lambda>t.
     bnd (gett t (\<lambda>r. r)) (\<lambda>tr.
     case t_tparent tr of None \<Rightarrow> fault | Some p \<Rightarrow>
     bnd (lock_acquire (LProc p)) (\<lambda>_.
     bnd (getp p (\<lambda>r. \<exists>i\<in>set [0..<NTHREAD]. t_tid (thread_tbl r i) \<noteq> t_tid tr \<and>
       counts_as_thread (t_state (thread_tbl r i)))) (\<lambda>others.
     bnd (lock_release (LProc p)) (\<lambda>_.
     if others then
       bnd (lock_acquire LWait) (\<lambda>_.
       bnd (wakeup (ChThread (fst t) (snd t))) (\<lambda>_.
       bnd (lock_acquire (LProc p)) (\<lambda>_.
       bnd (sett t (\<lambda>r. r\<lparr>t_state := TZOMBIE\<rparr>)) (\<lambda>_.
       bnd (lock_release LWait) (\<lambda>_.
       bnd sched (\<lambda>_ :: unit.
       panic ''zombie exit''))))))
     else exit status)))))"

section \<open>Fork and the first process\<close>

definition fork :: "('z filest_scheme, cint) kmon" where
  "fork =
     bnd myproc (\<lambda>p.
     bnd mythread (\<lambda>t.
     bnd allocproc (\<lambda>r.
     case r of None \<Rightarrow> ret (- 1) | Some np \<Rightarrow>
     bnd (getp p (\<lambda>r. r)) (\<lambda>pr.
     bnd (getp np p_pagetable) (\<lambda>npt.
     bnd (uvmcopy (p_pagetable pr) npt (p_sz pr)) (\<lambda>c.
     if c < 0 then
       bnd (freeproc np) (\<lambda>_.
       bnd (lock_release (LProc np)) (\<lambda>_.
       ret (- 1)))
     else
       bnd (setp np (\<lambda>r. r\<lparr>p_sz := p_sz pr, p_pendingsignals := 0\<rparr>)) (\<lambda>_.
       bnd (gett (np, 0) t_trapframe) (\<lambda>ntf.
       bnd (gett t t_trapframe) (\<lambda>tf.
       bnd (if ntf = 0 \<or> tf = 0 then fault else memmove_k ntf tf SZ_TRAPFRAME) (\<lambda>_.
       bnd (tf_set ntf TF_a0 0) (\<lambda>_.
       bnd (for_each [0..<NOFILE] (\<lambda>i.
         bnd (getp p (\<lambda>r. p_ofile r i)) (\<lambda>fo.
         case fo of
           None \<Rightarrow> ret ()
         | Some f \<Rightarrow>
           bnd (filedup f) (\<lambda>f.
           setp np (\<lambda>r. r\<lparr>p_ofile := (p_ofile r)(i := Some f)\<rparr>))))) (\<lambda>_.
       bnd (getp p p_cwd) (\<lambda>cwd.
       bnd (case cwd of None \<Rightarrow> fault | Some ip \<Rightarrow> idup ip) (\<lambda>ip.
       bnd (setp np (\<lambda>r. r\<lparr>p_cwd := Some ip\<rparr>)) (\<lambda>_.
       bnd (getp np p_name) (\<lambda>nname.
       bnd (case safestrcpy nname (p_name pr) 16 of
              None \<Rightarrow> fault | Some name \<Rightarrow> setp np (\<lambda>r. r\<lparr>p_name := name\<rparr>)) (\<lambda>_.
       bnd (setp np (\<lambda>r. r\<lparr>p_signalmask := p_signalmask pr\<rparr>)) (\<lambda>_.
       bnd (copy_signal_handlers np p) (\<lambda>_.
       bnd (getp np p_pid) (\<lambda>pid.
       bnd (lock_release (LProc np)) (\<lambda>_.
       bnd (lock_acquire LWait) (\<lambda>_.
       bnd (setp np (\<lambda>r. r\<lparr>p_parent := Some p\<rparr>)) (\<lambda>_.
       bnd (lock_release LWait) (\<lambda>_.
       bnd (lock_acquire (LProc np)) (\<lambda>_.
       bnd (sett (np, 0) (\<lambda>r. r\<lparr>t_state := t_RUNNABLE\<rparr>)) (\<lambda>_.
       bnd (setp np (\<lambda>r. r\<lparr>p_state := USED\<rparr>)) (\<lambda>_.
       bnd (lock_release (LProc np)) (\<lambda>_.
       ret pid))))))))))))))))))))))))))))"

text \<open>\<open>initcode\<close> is the address the linker gave the array of that name.\<close>

definition SZ_INITCODE :: nat where [simp]: "SZ_INITCODE = 52"

definition userinit :: "uint64 \<Rightarrow> ('z filest_scheme, unit) kmon" where
  "userinit initcode =
     bnd allocproc (\<lambda>r.
     case r of None \<Rightarrow> fault | Some p \<Rightarrow>
     bnd (modify (\<lambda>s. s\<lparr>initproc := Some p\<rparr>)) (\<lambda>_.
     bnd (getp p p_pagetable) (\<lambda>pagetable.
     bnd (uvminit pagetable initcode (of_nat SZ_INITCODE)) (\<lambda>_.
     bnd (setp p (\<lambda>r. r\<lparr>p_sz := PGSIZE\<rparr>)) (\<lambda>_.
     bnd (gett (p, 0) t_trapframe) (\<lambda>tf.
     bnd (tf_set tf TF_epc 0) (\<lambda>_.
     bnd (tf_set tf TF_sp PGSIZE) (\<lambda>_.
     bnd (init_siganls_handlers_to_default p) (\<lambda>_.
     bnd (getp p p_name) (\<lambda>old.
     bnd (case safestrcpy old (ascii ''initcode'' @ [0]) 16 of
            None \<Rightarrow> fault | Some name \<Rightarrow> setp p (\<lambda>r. r\<lparr>p_name := name\<rparr>)) (\<lambda>_.
     bnd (namei [SLASH, 0]) (\<lambda>ip.
     bnd (setp p (\<lambda>r. r\<lparr>p_cwd := ip\<rparr>)) (\<lambda>_.
     bnd (sett (p, 0) (\<lambda>r. r\<lparr>t_state := t_RUNNABLE\<rparr>)) (\<lambda>_.
     lock_release (LProc p)))))))))))))))"

section \<open>kernel/exec.c\<close>

definition ELF_MAGIC :: uint where [simp]: "ELF_MAGIC = 0x464C457F"
definition ELF_PROG_LOAD :: uint where [simp]: "ELF_PROG_LOAD = 1"
definition SZ_ELFHDR :: nat where [simp]: "SZ_ELFHDR = 64"
definition SZ_PROGHDR :: nat where [simp]: "SZ_PROGHDR = 56"

text \<open>The fields of the two headers that are used.\<close>

record elfhdr =
  e_magic :: uint
  e_entry :: uint64
  e_phoff :: uint64
  e_phnum :: uint16

record proghdr =
  h_type :: uint
  h_off :: uint64
  h_vaddr :: uint64
  h_filesz :: uint64
  h_memsz :: uint64

definition of_le :: "byte list \<Rightarrow> nat \<Rightarrow> nat \<Rightarrow> 'a :: len word" where
  "of_le bs o' n = fold (\<lambda>i w. w OR push_bit (8 * i) (ucast (bs ! (o' + i)))) [0..<n] 0"

definition decode_elf :: "byte list \<Rightarrow> elfhdr" where
  "decode_elf bs = \<lparr>e_magic = of_le bs 0 4, e_entry = of_le bs 24 8, e_phoff = of_le bs 32 8, e_phnum = of_le bs 56 2\<rparr>"

definition decode_ph :: "byte list \<Rightarrow> proghdr" where
  "decode_ph bs = \<lparr>h_type = of_le bs 0 4, h_off = of_le bs 8 8, h_vaddr = of_le bs 16 8, h_filesz = of_le bs 32 8,
     h_memsz = of_le bs 40 8\<rparr>"

definition make_dfl_signal :: "nat \<Rightarrow> ('z pst_scheme, unit) kmon" where
  "make_dfl_signal p =
     for_each [0..<NUMOFSIGNALS] (\<lambda>i.
       bnd (getp p (\<lambda>r. p_signalhandlers r i)) (\<lambda>h.
       if h \<noteq> SIG_IGN then setp p (\<lambda>r. r\<lparr>p_signalhandlers := (p_signalhandlers r)(i := SIG_DFL)\<rparr>) else ret ()))"

fun loadseg_loop :: "nat list \<Rightarrow> uint64 \<Rightarrow> uint64 \<Rightarrow> nat \<Rightarrow> uint \<Rightarrow> uint \<Rightarrow> ('z fsst_scheme, int) kmon" where
  "loadseg_loop [] pagetable va ip offset sz = ret 0"
| "loadseg_loop (i # is) pagetable va ip offset sz =
     bnd (walkaddr pagetable (va + of_nat i)) (\<lambda>pa.
     if pa = 0 then panic ''loadseg: address should exist'' else
     let n = (if sz - of_nat i < ucast PGSIZE then sz - of_nat i else ucast PGSIZE) in
     bnd (readi ip False pa (offset + of_nat i) n) (\<lambda>r.
     if r \<noteq> n then ret (- 1) else loadseg_loop is pagetable va ip offset sz))"

definition loadseg :: "uint64 \<Rightarrow> uint64 \<Rightarrow> nat \<Rightarrow> uint \<Rightarrow> uint \<Rightarrow> ('z fsst_scheme, int) kmon" where
  "loadseg pagetable va ip offset sz =
     (if va mod PGSIZE \<noteq> 0 then panic ''loadseg: va must be page aligned'' else
      loadseg_loop (map (\<lambda>k. k * 4096) [0..<(unat sz + 4095) div 4096]) pagetable va ip offset sz)"

text \<open>
  The loop over the program headers: \<open>Inl sz\<close> is a jump to \<open>bad\<close> with that size, \<open>Inr sz\<close> the end of
  the loop. \<open>ph\<close> is read to the local buffer.
\<close>

fun exec_load :: "nat \<Rightarrow> cint \<Rightarrow> nat \<Rightarrow> uint64 \<Rightarrow> uint64 \<Rightarrow> ('z fsst_scheme, uint64 + uint64) kmon" where
  "exec_load 0 off ip pagetable sz = ret (Inr sz)"
| "exec_load (Suc k) off ip pagetable sz =
     bnd (gets k_local) (\<lambda>l.
     bnd (readi ip False l off (of_nat SZ_PROGHDR)) (\<lambda>r.
     if r \<noteq> of_nat SZ_PROGHDR then ret (Inl sz) else
     bnd (load_bytes l SZ_PROGHDR) (\<lambda>bs.
     let ph = decode_ph bs; off' = off + of_nat SZ_PROGHDR in
     if h_type ph \<noteq> ELF_PROG_LOAD then exec_load k off' ip pagetable sz else
     if h_memsz ph < h_filesz ph then ret (Inl sz) else
     if h_vaddr ph + h_memsz ph < h_vaddr ph then ret (Inl sz) else
     bnd (uvmalloc pagetable sz (h_vaddr ph + h_memsz ph)) (\<lambda>sz1.
     if sz1 = 0 then ret (Inl sz) else
     if h_vaddr ph mod PGSIZE \<noteq> 0 then ret (Inl sz1) else
     bnd (loadseg pagetable (h_vaddr ph) ip (ucast (h_off ph)) (ucast (h_filesz ph))) (\<lambda>c.
     if c < 0 then ret (Inl sz1) else exec_load k off' ip pagetable sz1)))))"

text \<open>The length of a string in a page of its own.\<close>

definition strlen_k :: "uint64 \<Rightarrow> ('z kmem_scheme, nat) kmon" where
  "strlen_k a =
     bnd (gets (\<lambda>s. List.find (\<lambda>i. load8 (mem s) (a + of_nat i) = 0) [0..<4096])) (\<lambda>r.
     case r of None \<Rightarrow> fault | Some n \<Rightarrow> ret n)"

text \<open>The loop that pushes the argument strings: \<open>Inl ()\<close> is a jump to \<open>bad\<close>, \<open>Inr\<close> the new \<open>sp\<close> and \<open>ustack\<close>.\<close>

fun exec_args :: "uint64 list \<Rightarrow> nat \<Rightarrow> uint64 \<Rightarrow> uint64 \<Rightarrow> uint64 \<Rightarrow> uint64 list \<Rightarrow>
    ('z pst_scheme, unit + uint64 \<times> uint64 list) kmon" where
  "exec_args [] argc pagetable sp stackbase ustack = ret (Inr (sp, ustack))"
| "exec_args (a # as) argc pagetable sp stackbase ustack =
     (if argc \<ge> MAXARG then ret (Inl ()) else
      bnd (strlen_k a) (\<lambda>n.
      let sp = sp - of_nat (n + 1); sp = sp - sp mod 16 in
      if sp < stackbase then ret (Inl ()) else
      bnd (copyout pagetable sp a (of_nat (n + 1))) (\<lambda>c.
      if c < 0 then ret (Inl ()) else
      exec_args as (argc + 1) pagetable sp stackbase (ustack @ [sp]))))"

text \<open>The part of a path after its last slash.\<close>

fun base_name :: "byte list \<Rightarrow> byte list \<Rightarrow> byte list" where
  "base_name [] last' = last'"
| "base_name (c # cs) last' = (if c = 0 then last' else base_name cs (if c = SLASH then cs else last'))"

definition exec_bad :: "uint64 \<Rightarrow> uint64 \<Rightarrow> nat option \<Rightarrow> ('z fsst_scheme, cint) kmon" where
  "exec_bad pagetable sz ip =
     bnd (if pagetable \<noteq> 0 then proc_freepagetable pagetable sz else ret ()) (\<lambda>_.
     bnd (case ip of None \<Rightarrow> ret () | Some i \<Rightarrow> bnd (iunlockput i) (\<lambda>_. end_op)) (\<lambda>_.
     ret (- 1)))"

text \<open>\<open>exec\<close> after the program is loaded, with the size \<open>sz\<close> of its image and its entry point.\<close>

definition exec_stack :: "byte list \<Rightarrow> uint64 list \<Rightarrow> uint64 \<Rightarrow> uint64 \<Rightarrow> uint64 \<Rightarrow> ('z fsst_scheme, cint) kmon" where
  "exec_stack path argv pagetable sz entry =
     bnd myproc (\<lambda>p.
     bnd mythread (\<lambda>t.
     bnd (getp p p_sz) (\<lambda>oldsz.
     bnd (make_dfl_signal p) (\<lambda>_.
     let sz = PGROUNDUP sz in
     bnd (uvmalloc pagetable sz (sz + 2 * PGSIZE)) (\<lambda>sz1.
     if sz1 = 0 then exec_bad pagetable sz None else
     let sz = sz1 in
     bnd (uvmclear pagetable (sz - 2 * PGSIZE)) (\<lambda>_.
     let stackbase = sz - PGSIZE in
     bnd (exec_args argv 0 pagetable sz stackbase []) (\<lambda>r.
     case r of
       Inl _ \<Rightarrow> exec_bad pagetable sz None
     | Inr (sp, ustack) \<Rightarrow>
       let argc = length ustack; sp = sp - of_nat ((argc + 1) * 8); sp = sp - sp mod 16 in
       if sp < stackbase then exec_bad pagetable sz None else
       bnd (copyout_bytes pagetable sp (concat (map (le_bytes 8) (ustack @ [0])))) (\<lambda>c.
       if c < 0 then exec_bad pagetable sz None else
       bnd (gett t t_trapframe) (\<lambda>tf.
       bnd (tf_set tf TF_a1 sp) (\<lambda>_.
       bnd (getp p (\<lambda>r. r)) (\<lambda>r.
       bnd (case safestrcpy (p_name r) (base_name path path) 16 of
              None \<Rightarrow> fault | Some name \<Rightarrow> setp p (\<lambda>r. r\<lparr>p_name := name\<rparr>)) (\<lambda>_.
       bnd (setp p (\<lambda>r. r\<lparr>p_pagetable := pagetable, p_sz := sz\<rparr>)) (\<lambda>_.
       bnd (tf_set tf TF_epc entry) (\<lambda>_.
       bnd (tf_set tf TF_sp sp) (\<lambda>_.
       bnd (proc_freepagetable (p_pagetable r) oldsz) (\<lambda>_.
       ret (of_nat argc)))))))))))))))))"

definition exec :: "byte list \<Rightarrow> uint64 list \<Rightarrow> ('z fsst_scheme, cint) kmon" where
  "exec path argv =
     bnd myproc (\<lambda>p.
     bnd killthreads (\<lambda>_.
     bnd begin_op (\<lambda>_.
     bnd (namei path) (\<lambda>r.
     case r of None \<Rightarrow> bnd end_op (\<lambda>_. ret (- 1)) | Some ip \<Rightarrow>
     bnd (ilock (Some ip)) (\<lambda>_.
     bnd (gets k_local) (\<lambda>l.
     bnd (readi ip False l 0 (of_nat SZ_ELFHDR)) (\<lambda>n.
     if n \<noteq> of_nat SZ_ELFHDR then exec_bad 0 0 (Some ip) else
     bnd (load_bytes l SZ_ELFHDR) (\<lambda>bs.
     let elf = decode_elf bs in
     if e_magic elf \<noteq> ELF_MAGIC then exec_bad 0 0 (Some ip) else
     bnd (proc_pagetable p) (\<lambda>pagetable.
     if pagetable = 0 then exec_bad 0 0 (Some ip) else
     bnd (exec_load (unat (e_phnum elf)) (ucast (e_phoff elf)) ip pagetable 0) (\<lambda>r.
     case r of
       Inl sz \<Rightarrow> exec_bad pagetable sz (Some ip)
     | Inr sz \<Rightarrow>
       bnd (iunlockput ip) (\<lambda>_.
       bnd end_op (\<lambda>_.
       exec_stack path argv pagetable sz (e_entry elf)))))))))))))"

section \<open>The end of threads\<close>

text \<open>
  C35. A thread that calls \<open>kthread_exit\<close> does not end its process as long as a slot of the thread table
  is unused, even if it is the last thread: unused slots count as live threads. The thread becomes a
  zombie without storing its exit status, and the process stays with its files open.
\<close>

theorem kthread_exit_last_thread:
  assumes "on_cpu p i s" "held s = []" "t_tparent (thr s p i) = Some p" "p < NPROC" "j < NTHREAD"
    and "t_state (thr s p j) = t_UNUSED" "t_tid (thr s p j) \<noteq> t_tid (thr s p i)"
  shows "\<exists>t. kthread_exit_proc status s = Asleep t \<and> t_state (thr t p i) = TZOMBIE \<and>
    t_xstate (thr t p i) = t_xstate (thr s p i) \<and> p_state (procs t p) = p_state (procs s p) \<and> p_ofile (procs t p) = p_ofile (procs s p)"
proof -
  have "\<exists>k\<in>set [0..<NTHREAD]. t_tid (thr s p k) \<noteq> t_tid (thr s p i) \<and> counts_as_thread (t_state (thr s p k))"
    using assms by (intro bexI [of _ j]) (auto simp: counts_as_thread_def)
  then show ?thesis using assms(1-4)
    by (simp add: kthread_exit_proc_def on_cpu_def no_proc_lock_def sched_run [of p i] upd_thread_def wake_all_def map_threads_def wake_def del: set_upt)
qed

theorem kthread_exit_last_thread_witness:
  "\<exists>t. kthread_exit_proc 3 demo_filest = Asleep t \<and> t_state (thr t 1 0) = TZOMBIE \<and> p_state (procs t 1) = USED"
  using kthread_exit_last_thread [OF demo_filest_simps(2,1), of 7 3] by (auto simp: demo_filest_simps demo_proc_def thread0_def)

text \<open>
  C36. A thread that was told to die because another thread of its process called \<open>exit\<close>, and that
  calls \<open>exit\<close> itself, stops the machine: \<open>killthreads\<close> takes the lock of the thread where \<open>sched\<close>
  requires that of the process.
\<close>

theorem exit_of_killed_thread_panics:
  assumes "on_cpu p i s" "held s = []" "t_killed (thr s p i)" "initproc s \<noteq> Some p"
  shows "exit status s = Panic ''sched p->lock''"
  using assms by (simp add: exit_def killthreads_def on_cpu_def no_proc_lock_def sched_run [of p i])

theorem exit_of_killed_thread_panics_witness:
  "exit 3 (demo_filest\<lparr>procs := (procs demo_filest)(1 := upd_thread 0 (\<lambda>r. r\<lparr>t_killed := True\<rparr>) demo_proc)\<rparr>) = Panic ''sched p->lock''"
  by (rule exit_of_killed_thread_panics [of 1 0]) (use demo_filest_simps in \<open>auto simp: on_cpu_def\<close>)

end
