(* ===== verification/Xv6_Syscall.thy ===== *)
theory Xv6_Syscall
  imports Xv6_Life
begin

text \<open>
  System calls: their arguments and the dispatcher (\<^verbatim>\<open>kernel/syscall.c\<close>), the calls on files
  (\<^verbatim>\<open>kernel/sysfile.c\<close>) and on processes, signals, threads and semaphores (\<^verbatim>\<open>kernel/sysproc.c\<close>).

  The arguments are the registers in the caller's trap frame. A path argument is copied to the local
  buffer and from there taken as the array of bytes the file system works on.
\<close>

definition MAXPATH :: nat where [simp]: "MAXPATH = 128"
definition O_WRONLY :: cint where [simp]: "O_WRONLY = 0x001"
definition O_RDWR :: cint where [simp]: "O_RDWR = 0x002"
definition O_CREATE :: cint where [simp]: "O_CREATE = 0x200"
definition O_TRUNC :: cint where [simp]: "O_TRUNC = 0x400"

section \<open>kernel/syscall.c: arguments\<close>

definition fetchaddr :: "uint64 \<Rightarrow> ('z pst_scheme, uint64 option) kmon" where
  "fetchaddr addr =
     bnd myproc (\<lambda>p.
     bnd (getp p (\<lambda>r. r)) (\<lambda>r.
     if addr \<ge> p_sz r \<or> addr + 8 > p_sz r then ret None else
     bnd (gets k_local) (\<lambda>ip.
     bnd (copyin (p_pagetable r) ip addr 8) (\<lambda>c.
     if c \<noteq> 0 then ret None else
     bnd (load_bytes ip 8) (\<lambda>bs.
     ret (Some (of_le bs 0 8)))))))"

definition fetchstr :: "uint64 \<Rightarrow> uint64 \<Rightarrow> nat \<Rightarrow> ('z pst_scheme, int) kmon" where
  "fetchstr addr buf max' =
     bnd myproc (\<lambda>p.
     bnd (getp p p_pagetable) (\<lambda>pagetable.
     bnd (copyinstr pagetable buf addr (of_nat max')) (\<lambda>err.
     if err < 0 then ret err else
     bnd (strlen_k buf) (\<lambda>n. ret (int n)))))"

definition argraw :: "nat \<Rightarrow> ('z pst_scheme, uint64) kmon" where
  "argraw n =
     bnd mythread (\<lambda>t.
     bnd (gett t t_trapframe) (\<lambda>tf.
     if n \<le> 5 then tf_get tf (TF_a0 + 8 * of_nat n) else panic ''argraw''))"

definition argint :: "nat \<Rightarrow> ('z pst_scheme, cint) kmon" where
  "argint n = bnd (argraw n) (\<lambda>v. ret (ucast v))"

definition argaddr :: "nat \<Rightarrow> ('z pst_scheme, uint64) kmon" where
  "argaddr n = argraw n"

text \<open>The string with its terminating zero, or \<open>None\<close> for a negative result.\<close>

definition argstr :: "nat \<Rightarrow> nat \<Rightarrow> ('z pst_scheme, byte list option) kmon" where
  "argstr n max' =
     bnd (argaddr n) (\<lambda>addr.
     bnd (gets k_local) (\<lambda>buf.
     bnd (fetchstr addr buf max') (\<lambda>r.
     if r < 0 then ret None else
     bnd (load_bytes buf (nat r + 1)) (\<lambda>bs.
     ret (Some bs)))))"

section \<open>kernel/sysfile.c\<close>

definition argfd :: "nat \<Rightarrow> ('z filest_scheme, (nat \<times> nat) option) kmon" where
  "argfd n =
     bnd (argint n) (\<lambda>fd.
     bnd myproc (\<lambda>p.
     if sint fd < 0 \<or> sint fd \<ge> int NOFILE then ret None else
     bnd (getp p (\<lambda>r. p_ofile r (unat fd))) (\<lambda>fo.
     case fo of None \<Rightarrow> ret None | Some f \<Rightarrow> ret (Some (unat fd, f)))))"

definition set_ofile :: "nat \<Rightarrow> nat \<Rightarrow> nat option \<Rightarrow> ('z filest_scheme, unit) kmon" where
  "set_ofile p fd v = setp p (\<lambda>r. r\<lparr>p_ofile := (p_ofile r)(fd := v)\<rparr>)"

definition fdalloc :: "nat \<Rightarrow> ('z filest_scheme, nat option) kmon" where
  "fdalloc f =
     bnd myproc (\<lambda>p.
     bnd (getp p (\<lambda>r. List.find (\<lambda>fd. p_ofile r fd = None) [0..<NOFILE])) (\<lambda>r.
     case r of
       None \<Rightarrow> ret None
     | Some fd \<Rightarrow> bnd (set_ofile p fd (Some f)) (\<lambda>_. ret (Some fd))))"

definition sys_dup :: "('z filest_scheme, uint64) kmon" where
  "sys_dup =
     bnd (argfd 0) (\<lambda>r. case r of None \<Rightarrow> ret (- 1) | Some (_, f) \<Rightarrow>
     bnd (fdalloc f) (\<lambda>r. case r of None \<Rightarrow> ret (- 1) | Some fd \<Rightarrow>
     bnd (filedup f) (\<lambda>_.
     ret (of_nat fd))))"

definition sys_read :: "('z filest_scheme, uint64) kmon" where
  "sys_read =
     bnd (argfd 0) (\<lambda>r. case r of None \<Rightarrow> ret (- 1) | Some (_, f) \<Rightarrow>
     bnd (argint 2) (\<lambda>n.
     bnd (argaddr 1) (\<lambda>p.
     bnd (fileread f p n) (\<lambda>v.
     ret (scast v)))))"

definition sys_write :: "('z filest_scheme, uint64) kmon" where
  "sys_write =
     bnd (argfd 0) (\<lambda>r. case r of None \<Rightarrow> ret (- 1) | Some (_, f) \<Rightarrow>
     bnd (argint 2) (\<lambda>n.
     bnd (argaddr 1) (\<lambda>p.
     bnd (filewrite f p n) (\<lambda>v.
     ret (scast v)))))"

definition sys_close :: "('z filest_scheme, uint64) kmon" where
  "sys_close =
     bnd (argfd 0) (\<lambda>r. case r of None \<Rightarrow> ret (- 1) | Some (fd, f) \<Rightarrow>
     bnd myproc (\<lambda>p.
     bnd (set_ofile p fd None) (\<lambda>_.
     bnd (fileclose f) (\<lambda>_.
     ret 0))))"

definition sys_fstat :: "('z filest_scheme, uint64) kmon" where
  "sys_fstat =
     bnd (argfd 0) (\<lambda>r. case r of None \<Rightarrow> ret (- 1) | Some (_, f) \<Rightarrow>
     bnd (argaddr 1) (\<lambda>a.
     bnd (filestat f a) (\<lambda>v.
     ret (scast v))))"

definition end_op_ret :: "uint64 \<Rightarrow> ('z filest_scheme, uint64) kmon" where
  "end_op_ret v = bnd end_op (\<lambda>_. ret v)"

definition link_bad :: "nat \<Rightarrow> ('z filest_scheme, uint64) kmon" where
  "link_bad ip =
     bnd (ilock (Some ip)) (\<lambda>_.
     bnd (seti ip (\<lambda>i. i\<lparr>i_nlink := i_nlink i - 1\<rparr>)) (\<lambda>_.
     bnd (iupdate ip) (\<lambda>_.
     bnd (iunlockput ip) (\<lambda>_.
     end_op_ret (- 1)))))"

definition sys_link :: "('z filest_scheme, uint64) kmon" where
  "sys_link =
     bnd (argstr 0 MAXPATH) (\<lambda>r. case r of None \<Rightarrow> ret (- 1) | Some old \<Rightarrow>
     bnd (argstr 1 MAXPATH) (\<lambda>r. case r of None \<Rightarrow> ret (- 1) | Some new \<Rightarrow>
     bnd begin_op (\<lambda>_.
     bnd (namei old) (\<lambda>r. case r of None \<Rightarrow> end_op_ret (- 1) | Some ip \<Rightarrow>
     bnd (ilock (Some ip)) (\<lambda>_.
     bnd (geti ip i_type) (\<lambda>type.
     if type = T_DIR then bnd (iunlockput ip) (\<lambda>_. end_op_ret (- 1)) else
     bnd (seti ip (\<lambda>i. i\<lparr>i_nlink := i_nlink i + 1\<rparr>)) (\<lambda>_.
     bnd (iupdate ip) (\<lambda>_.
     bnd (iunlock (Some ip)) (\<lambda>_.
     bnd (nameiparent new (replicate DIRSIZ 0)) (\<lambda>(dpo, name).
     case dpo of None \<Rightarrow> link_bad ip | Some dp \<Rightarrow>
     bnd (ilock (Some dp)) (\<lambda>_.
     bnd (geti dp i_dev) (\<lambda>ddev.
     bnd (geti ip (\<lambda>i. i)) (\<lambda>i.
     bnd (if ddev \<noteq> i_dev i then ret (- 1) else dirlink dp name (i_inum i)) (\<lambda>l.
     if sint l < 0 then bnd (iunlockput dp) (\<lambda>_. link_bad ip) else
     bnd (iunlockput dp) (\<lambda>_.
     bnd (iput ip) (\<lambda>_.
     end_op_ret 0))))))))))))))))"

fun isdirempty_loop :: "nat list \<Rightarrow> nat \<Rightarrow> ('z fsst_scheme, bool) kmon" where
  "isdirempty_loop [] dp = ret True"
| "isdirempty_loop (off # offs) dp =
     bnd (read_dirent dp (of_nat off) ''isdirempty: readi'') (\<lambda>(inum, _).
     if inum \<noteq> 0 then ret False else isdirempty_loop offs dp)"

definition isdirempty :: "nat \<Rightarrow> ('z fsst_scheme, bool) kmon" where
  "isdirempty dp = bnd (geti dp i_size) (\<lambda>sz. isdirempty_loop (drop 2 (dir_offsets sz)) dp)"

definition unlink_bad :: "nat \<Rightarrow> ('z filest_scheme, uint64) kmon" where
  "unlink_bad dp = bnd (iunlockput dp) (\<lambda>_. end_op_ret (- 1))"

definition DOT :: byte where [simp]: "DOT = 0x2E"

definition sys_unlink :: "('z filest_scheme, uint64) kmon" where
  "sys_unlink =
     bnd (argstr 0 MAXPATH) (\<lambda>r. case r of None \<Rightarrow> ret (- 1) | Some path \<Rightarrow>
     bnd begin_op (\<lambda>_.
     bnd (nameiparent path (replicate DIRSIZ 0)) (\<lambda>(dpo, name).
     case dpo of None \<Rightarrow> end_op_ret (- 1) | Some dp \<Rightarrow>
     bnd (ilock (Some dp)) (\<lambda>_.
     if namecmp name [DOT, 0] = Some 0 \<or> namecmp name [DOT, DOT, 0] = Some 0 then unlink_bad dp else
     bnd (dirlookup dp name) (\<lambda>r. case r of None \<Rightarrow> unlink_bad dp | Some (ip, off) \<Rightarrow>
     bnd (ilock (Some ip)) (\<lambda>_.
     bnd (geti ip (\<lambda>i. i)) (\<lambda>i.
     if sint (i_nlink i) < 1 then panic ''unlink: nlink < 1'' else
     bnd (if i_type i = T_DIR then isdirempty ip else ret True) (\<lambda>ok.
     if \<not> ok then bnd (iunlockput ip) (\<lambda>_. unlink_bad dp) else
     bnd (gets k_local) (\<lambda>de.
     bnd (store_bytes de (replicate SZ_DIRENT 0)) (\<lambda>_.
     bnd (writei dp False de off (of_nat SZ_DIRENT)) (\<lambda>w.
     if w \<noteq> of_nat SZ_DIRENT then panic ''unlink: writei'' else
     bnd (if i_type i = T_DIR then
            bnd (seti dp (\<lambda>d. d\<lparr>i_nlink := i_nlink d - 1\<rparr>)) (\<lambda>_. iupdate dp)
          else ret ()) (\<lambda>_.
     bnd (iunlockput dp) (\<lambda>_.
     bnd (seti ip (\<lambda>i. i\<lparr>i_nlink := i_nlink i - 1\<rparr>)) (\<lambda>_.
     bnd (iupdate ip) (\<lambda>_.
     bnd (iunlockput ip) (\<lambda>_.
     end_op_ret 0))))))))))))))))"

definition create :: "byte list \<Rightarrow> uint16 \<Rightarrow> uint16 \<Rightarrow> uint16 \<Rightarrow> ('z fsst_scheme, nat option) kmon" where
  "create path type major minor =
     bnd (nameiparent path (replicate DIRSIZ 0)) (\<lambda>(dpo, name).
     case dpo of None \<Rightarrow> ret None | Some dp \<Rightarrow>
     bnd (ilock (Some dp)) (\<lambda>_.
     bnd (dirlookup dp name) (\<lambda>r.
     case r of
       Some (ip, _) \<Rightarrow>
         bnd (iunlockput dp) (\<lambda>_.
         bnd (ilock (Some ip)) (\<lambda>_.
         bnd (geti ip i_type) (\<lambda>itype.
         if type = T_FILE \<and> (itype = T_FILE \<or> itype = T_DEVICE) then ret (Some ip) else
         bnd (iunlockput ip) (\<lambda>_. ret None))))
     | None \<Rightarrow>
         bnd (geti dp i_dev) (\<lambda>dev.
         bnd (ialloc dev type) (\<lambda>ip.
         bnd (ilock (Some ip)) (\<lambda>_.
         bnd (seti ip (\<lambda>i. i\<lparr>i_major := major, i_minor := minor, i_nlink := 1\<rparr>)) (\<lambda>_.
         bnd (iupdate ip) (\<lambda>_.
         bnd (geti ip i_inum) (\<lambda>inum.
         bnd (if type = T_DIR then
           bnd (seti dp (\<lambda>d. d\<lparr>i_nlink := i_nlink d + 1\<rparr>)) (\<lambda>_.
           bnd (iupdate dp) (\<lambda>_.
           bnd (dirlink ip [DOT, 0] inum) (\<lambda>a.
           if sint a < 0 then panic ''create dots'' else
           bnd (geti dp i_inum) (\<lambda>dinum.
           bnd (dirlink ip [DOT, DOT, 0] dinum) (\<lambda>b.
           if sint b < 0 then panic ''create dots'' else ret ())))))
           else ret ()) (\<lambda>_.
         bnd (dirlink dp name inum) (\<lambda>c.
         if sint c < 0 then panic ''create: dirlink'' else
         bnd (iunlockput dp) (\<lambda>_.
         ret (Some ip)))))))))))))"

definition open_inode :: "byte list \<Rightarrow> cint \<Rightarrow> ('z fsst_scheme, nat option) kmon" where
  "open_inode path omode =
     (if omode AND O_CREATE \<noteq> 0 then create path T_FILE 0 0 else
      bnd (namei path) (\<lambda>r. case r of None \<Rightarrow> ret None | Some ip \<Rightarrow>
      bnd (ilock (Some ip)) (\<lambda>_.
      bnd (geti ip i_type) (\<lambda>type.
      if type = T_DIR \<and> omode \<noteq> 0 then bnd (iunlockput ip) (\<lambda>_. ret None) else ret (Some ip)))))"

definition sys_open :: "('z filest_scheme, uint64) kmon" where
  "sys_open =
     bnd (argstr 0 MAXPATH) (\<lambda>r. case r of None \<Rightarrow> ret (- 1) | Some path \<Rightarrow>
     bnd (argint 1) (\<lambda>omode.
     bnd begin_op (\<lambda>_.
     bnd (open_inode path omode) (\<lambda>r. case r of None \<Rightarrow> end_op_ret (- 1) | Some ip \<Rightarrow>
     bnd (geti ip (\<lambda>i. i)) (\<lambda>i.
     if i_type i = T_DEVICE \<and> (sint (i_major i) < 0 \<or> sint (i_major i) \<ge> NDEV) then
       bnd (iunlockput ip) (\<lambda>_. end_op_ret (- 1)) else
     bnd filealloc (\<lambda>fo. case fo of None \<Rightarrow> bnd (iunlockput ip) (\<lambda>_. end_op_ret (- 1)) | Some f \<Rightarrow>
     bnd (fdalloc f) (\<lambda>fdo. case fdo of
       None \<Rightarrow> bnd (fileclose f) (\<lambda>_. bnd (iunlockput ip) (\<lambda>_. end_op_ret (- 1)))
     | Some fd \<Rightarrow>
       bnd (if i_type i = T_DEVICE then setf f (\<lambda>x. x\<lparr>f_type := FD_DEVICE, f_major := i_major i\<rparr>)
            else setf f (\<lambda>x. x\<lparr>f_type := FD_INODE, f_off := 0\<rparr>)) (\<lambda>_.
       bnd (setf f (\<lambda>x. x\<lparr>f_ip := Some ip, f_readable := (omode AND O_WRONLY = 0),
         f_writable := (omode AND O_WRONLY \<noteq> 0 \<or> omode AND O_RDWR \<noteq> 0)\<rparr>)) (\<lambda>_.
       bnd (if omode AND O_TRUNC \<noteq> 0 \<and> i_type i = T_FILE then itrunc ip else ret ()) (\<lambda>_.
       bnd (iunlock (Some ip)) (\<lambda>_.
       end_op_ret (of_nat fd))))))))))))"

definition sys_mkdir :: "('z filest_scheme, uint64) kmon" where
  "sys_mkdir =
     bnd begin_op (\<lambda>_.
     bnd (argstr 0 MAXPATH) (\<lambda>r. case r of None \<Rightarrow> end_op_ret (- 1) | Some path \<Rightarrow>
     bnd (create path T_DIR 0 0) (\<lambda>r. case r of None \<Rightarrow> end_op_ret (- 1) | Some ip \<Rightarrow>
     bnd (iunlockput ip) (\<lambda>_.
     end_op_ret 0))))"

definition sys_mknod :: "('z filest_scheme, uint64) kmon" where
  "sys_mknod =
     bnd begin_op (\<lambda>_.
     bnd (argstr 0 MAXPATH) (\<lambda>r. case r of None \<Rightarrow> end_op_ret (- 1) | Some path \<Rightarrow>
     bnd (argint 1) (\<lambda>major.
     bnd (argint 2) (\<lambda>minor.
     bnd (create path T_DEVICE (ucast major) (ucast minor)) (\<lambda>r. case r of None \<Rightarrow> end_op_ret (- 1) | Some ip \<Rightarrow>
     bnd (iunlockput ip) (\<lambda>_.
     end_op_ret 0))))))"

definition sys_chdir :: "('z filest_scheme, uint64) kmon" where
  "sys_chdir =
     bnd myproc (\<lambda>p.
     bnd begin_op (\<lambda>_.
     bnd (argstr 0 MAXPATH) (\<lambda>r. case r of None \<Rightarrow> end_op_ret (- 1) | Some path \<Rightarrow>
     bnd (namei path) (\<lambda>r. case r of None \<Rightarrow> end_op_ret (- 1) | Some ip \<Rightarrow>
     bnd (ilock (Some ip)) (\<lambda>_.
     bnd (geti ip i_type) (\<lambda>type.
     if type \<noteq> T_DIR then bnd (iunlockput ip) (\<lambda>_. end_op_ret (- 1)) else
     bnd (iunlock (Some ip)) (\<lambda>_.
     bnd (getp p p_cwd) (\<lambda>cwd.
     bnd (case cwd of None \<Rightarrow> fault | Some c \<Rightarrow> iput c) (\<lambda>_.
     bnd end_op (\<lambda>_.
     bnd (setp p (\<lambda>r. r\<lparr>p_cwd := Some ip\<rparr>)) (\<lambda>_.
     ret 0)))))))))))"

text \<open>
  The loop of \<open>sys_exec\<close> that fetches the argument strings, each to a page of its own: \<open>Inl\<close> the pages
  allocated before a jump to \<open>bad\<close>, \<open>Inr\<close> all of them.
\<close>

fun sys_exec_args :: "nat \<Rightarrow> uint64 \<Rightarrow> uint64 list \<Rightarrow> ('z pst_scheme, uint64 list + uint64 list) kmon" where
  "sys_exec_args 0 uargv argv = ret (Inl argv)"
| "sys_exec_args (Suc k) uargv argv =
     bnd (fetchaddr (uargv + 8 * of_nat (length argv))) (\<lambda>r.
     case r of None \<Rightarrow> ret (Inl argv) | Some uarg \<Rightarrow>
     if uarg = 0 then ret (Inr argv) else
     bnd kalloc (\<lambda>pg.
     if pg = 0 then ret (Inl argv) else
     bnd (fetchstr uarg pg (unat PGSIZE)) (\<lambda>n.
     if n < 0 then ret (Inl (argv @ [pg])) else sys_exec_args k uargv (argv @ [pg]))))"

definition sys_exec :: "('z filest_scheme, uint64) kmon" where
  "sys_exec =
     bnd (argstr 0 MAXPATH) (\<lambda>r. case r of None \<Rightarrow> ret (- 1) | Some path \<Rightarrow>
     bnd (argaddr 1) (\<lambda>uargv.
     bnd (sys_exec_args MAXARG uargv []) (\<lambda>r.
     case r of
       Inl argv \<Rightarrow> bnd (for_each argv kfree) (\<lambda>_. ret (- 1))
     | Inr argv \<Rightarrow>
       bnd (exec path argv) (\<lambda>v.
       bnd (for_each argv kfree) (\<lambda>_.
       ret (scast v))))))"

definition pipe_undo :: "nat option \<Rightarrow> nat option \<Rightarrow> nat \<Rightarrow> nat \<Rightarrow> ('z filest_scheme, uint64) kmon" where
  "pipe_undo fd0 fd1 rdf wrf =
     bnd myproc (\<lambda>p.
     bnd (case fd0 of None \<Rightarrow> ret () | Some fd \<Rightarrow> set_ofile p fd None) (\<lambda>_.
     bnd (case fd1 of None \<Rightarrow> ret () | Some fd \<Rightarrow> set_ofile p fd None) (\<lambda>_.
     bnd (fileclose rdf) (\<lambda>_.
     bnd (fileclose wrf) (\<lambda>_.
     ret (- 1))))))"

definition sys_pipe :: "('z filest_scheme, uint64) kmon" where
  "sys_pipe =
     bnd myproc (\<lambda>p.
     bnd (argaddr 0) (\<lambda>fdarray.
     bnd pipealloc (\<lambda>r. case r of None \<Rightarrow> ret (- 1) | Some (rdf, wrf) \<Rightarrow>
     bnd (fdalloc rdf) (\<lambda>r0. case r0 of None \<Rightarrow> pipe_undo None None rdf wrf | Some fd0 \<Rightarrow>
     bnd (fdalloc wrf) (\<lambda>r1. case r1 of None \<Rightarrow> pipe_undo (Some fd0) None rdf wrf | Some fd1 \<Rightarrow>
     bnd (getp p p_pagetable) (\<lambda>pagetable.
     bnd (copyout_bytes pagetable fdarray (le_bytes 4 (of_nat fd0 :: cint))) (\<lambda>a.
     if a < 0 then pipe_undo (Some fd0) (Some fd1) rdf wrf else
     bnd (copyout_bytes pagetable (fdarray + 4) (le_bytes 4 (of_nat fd1 :: cint))) (\<lambda>b.
     if b < 0 then pipe_undo (Some fd0) (Some fd1) rdf wrf else ret 0))))))))"

section \<open>kernel/sysproc.c\<close>

definition sys_exit :: "('z filest_scheme, uint64) kmon" where
  "sys_exit = bnd (argint 0) (\<lambda>n. bnd (exit n) (\<lambda>_. ret 0))"

definition sys_sigprocmask :: "('z filest_scheme, uint64) kmon" where
  "sys_sigprocmask = bnd (argint 0) (\<lambda>new_mask. bnd (sigprocmask_proc new_mask) (\<lambda>v. ret (scast v)))"

definition sys_sigaction :: "('z filest_scheme, uint64) kmon" where
  "sys_sigaction =
     bnd (argint 0) (\<lambda>signalnumber.
     bnd (argaddr 1) (\<lambda>act.
     bnd (argaddr 2) (\<lambda>oldact.
     bnd (sigaction_proc signalnumber act oldact) (\<lambda>v.
     ret (scast v)))))"

definition sys_sigret :: "('z filest_scheme, uint64) kmon" where
  "sys_sigret = bnd sigret_proc (\<lambda>v. ret (scast v))"

definition sys_getpid :: "('z filest_scheme, uint64) kmon" where
  "sys_getpid = bnd myproc (\<lambda>p. bnd (getp p p_pid) (\<lambda>v. ret (scast v)))"

definition sys_fork :: "('z filest_scheme, uint64) kmon" where
  "sys_fork = bnd fork (\<lambda>v. ret (scast v))"

definition sys_wait :: "('z filest_scheme, uint64) kmon" where
  "sys_wait = bnd (argaddr 0) (\<lambda>p. bnd (wait p) (\<lambda>v. ret (scast v)))"

definition sys_sbrk :: "('z filest_scheme, uint64) kmon" where
  "sys_sbrk =
     bnd (argint 0) (\<lambda>n.
     bnd myproc (\<lambda>p.
     bnd (getp p p_sz) (\<lambda>sz.
     bnd (growproc n) (\<lambda>r.
     if sint r < 0 then ret (- 1) else ret (scast (ucast sz :: cint))))))"

definition sys_sleep_loop :: "cint \<Rightarrow> uint \<Rightarrow> ('z filest_scheme, uint64) kmon" where
  "sys_sleep_loop n ticks0 =
     bnd (gets ticks) (\<lambda>now.
     if now - ticks0 < n then
       bnd myproc (\<lambda>p.
       bnd (getp p p_killed) (\<lambda>killed.
       if killed then bnd (lock_release LTicks) (\<lambda>_. ret (- 1))
       else sleep ChTicks LTicks))
     else bnd (lock_release LTicks) (\<lambda>_. ret 0))"

definition sys_sleep :: "('z filest_scheme, uint64) kmon" where
  "sys_sleep =
     bnd (argint 0) (\<lambda>n.
     bnd (lock_acquire LTicks) (\<lambda>_.
     bnd (gets ticks) (\<lambda>ticks0.
     sys_sleep_loop n ticks0)))"

definition sys_sleep_resume :: "cint \<Rightarrow> uint \<Rightarrow> ('z filest_scheme, uint64) kmon" where
  "sys_sleep_resume n ticks0 = bnd (sleep_resume LTicks) (\<lambda>_. sys_sleep_loop n ticks0)"

definition sys_kill :: "('z filest_scheme, uint64) kmon" where
  "sys_kill =
     bnd (argint 0) (\<lambda>pid.
     bnd (argint 1) (\<lambda>signum.
     bnd (kill pid signum) (\<lambda>v. ret (scast v))))"

definition sys_uptime :: "('z filest_scheme, uint64) kmon" where
  "sys_uptime =
     bnd (lock_acquire LTicks) (\<lambda>_.
     bnd (gets ticks) (\<lambda>xticks.
     bnd (lock_release LTicks) (\<lambda>_.
     ret (ucast xticks))))"

definition sys_kthread_exit :: "('z filest_scheme, uint64) kmon" where
  "sys_kthread_exit = bnd (argint 0) (\<lambda>status. bnd (kthread_exit_proc status) (\<lambda>_. ret 0))"

definition sys_kthread_join :: "('z filest_scheme, uint64) kmon" where
  "sys_kthread_join =
     bnd (argint 0) (\<lambda>tid.
     bnd (argaddr 1) (\<lambda>status.
     bnd (kthread_join_proc tid status) (\<lambda>v. ret (scast v))))"

definition sys_kthread_create :: "('z filest_scheme, uint64) kmon" where
  "sys_kthread_create =
     bnd (argaddr 0) (\<lambda>start_func.
     bnd (argaddr 1) (\<lambda>stack.
     bnd (kthread_create_proc start_func stack) (\<lambda>v. ret (scast v))))"

definition sys_kthread_id :: "('z filest_scheme, uint64) kmon" where
  "sys_kthread_id = bnd kthread_id_proc (\<lambda>v. ret (scast v))"

definition sys_bsem_alloc :: "('z filest_scheme, uint64) kmon" where
  "sys_bsem_alloc = bnd bsem_alloc (\<lambda>v. ret (scast v))"

definition sys_bsem_free :: "('z filest_scheme, uint64) kmon" where
  "sys_bsem_free = bnd (argaddr 0) (\<lambda>d. bnd (bsem_free (ucast d)) (\<lambda>_. ret 0))"

definition sys_bsem_down :: "('z filest_scheme, uint64) kmon" where
  "sys_bsem_down = bnd (argaddr 0) (\<lambda>d. bnd (bsem_down (ucast d)) (\<lambda>_. ret 0))"

definition sys_bsem_up :: "('z filest_scheme, uint64) kmon" where
  "sys_bsem_up = bnd (argaddr 0) (\<lambda>d. bnd (bsem_up (ucast d)) (\<lambda>_. ret 0))"

section \<open>kernel/syscall.c: the dispatcher\<close>

definition syscalls :: "('z filest_scheme, uint64) kmon list" where
  "syscalls = [sys_fork, sys_exit, sys_wait, sys_pipe, sys_read, sys_kill, sys_exec, sys_fstat, sys_chdir, sys_dup,
     sys_getpid, sys_sbrk, sys_sleep, sys_uptime, sys_open, sys_write, sys_mknod, sys_unlink, sys_link, sys_mkdir,
     sys_close, sys_sigprocmask, sys_sigaction, sys_sigret, sys_kthread_exit, sys_kthread_create, sys_kthread_id,
     sys_kthread_join, sys_bsem_alloc, sys_bsem_free, sys_bsem_down, sys_bsem_up]"

text \<open>The table is indexed from 1; there is no call 0.\<close>

definition syscall :: "('z filest_scheme, unit) kmon" where
  "syscall =
     bnd myproc (\<lambda>p.
     bnd mythread (\<lambda>t.
     bnd (gett t t_trapframe) (\<lambda>tf.
     bnd (tf_get tf TF_a7) (\<lambda>a7.
     let num = ucast a7 :: cint in
     if sint num > 0 \<and> sint num \<le> int (length (syscalls :: ('z filest_scheme, uint64) kmon list)) then
       bnd (syscalls ! (unat num - 1)) (\<lambda>v.
       bnd (gett t t_trapframe) (\<lambda>tf.
       tf_set tf TF_a0 v))
     else
       bnd (getp p (\<lambda>r. r)) (\<lambda>r.
       bnd (printf (Some (ascii ''%d %s: unknown sys call %d'' @ NL)) [PInt (p_pid r), PStr (Some (p_name r)), PInt num]) (\<lambda>_.
       tf_set tf TF_a0 (- 1)))))))"

section \<open>Descriptors and the file table\<close>

text \<open>The slots of the descriptor tables that name a file, and the typing of the tables.\<close>

definition fd_slots :: "(nat \<Rightarrow> proc) \<Rightarrow> nat \<Rightarrow> (nat \<times> nat) set" where
  "fd_slots ps f = {(p, i). p < NPROC \<and> i < NOFILE \<and> p_ofile (ps p) i = Some f}"

definition files_typed :: "'z filest_scheme \<Rightarrow> bool" where
  "files_typed s \<longleftrightarrow> (\<forall>f. unat (f_ref (ftable s f)) = card (fd_slots (procs s) f)) \<and>
     (\<forall>p < NPROC. \<forall>i < NOFILE. \<forall>f. p_ofile (procs s p) i = Some f \<longrightarrow> f < NFILE)"

lemma fd_slots_finite: "finite (fd_slots ps f)" "card (fd_slots ps f) \<le> NPROC * NOFILE"
proof -
  have sub: "fd_slots ps f \<subseteq> {..<NPROC} \<times> {..<NOFILE}" by (auto simp: fd_slots_def)
  then show "finite (fd_slots ps f)" by (rule finite_subset) simp
  have "card (fd_slots ps f) \<le> card ({..<NPROC} \<times> {..<NOFILE})" by (rule card_mono [OF _ sub]) simp
  then show "card (fd_slots ps f) \<le> NPROC * NOFILE" by (simp only: card_cartesian_product card_lessThan)
qed

lemma fd_slots_open:
  fixes f :: nat
  assumes "p < NPROC" "i < NOFILE" "p_ofile (ps p) i = None"
  defines "qs \<equiv> ps(p := (ps p)\<lparr>p_ofile := (p_ofile (ps p))(i := Some f)\<rparr>)"
  shows "card (fd_slots qs g) = card (fd_slots ps g) + (if g = f then 1 else 0)"
proof -
  have "fd_slots qs g = (if g = f then insert (p, i) (fd_slots ps g) else fd_slots ps g)"
    using assms by (auto simp: fd_slots_def split: if_splits)
  moreover have "(p, i) \<notin> fd_slots ps g" using assms by (simp add: fd_slots_def)
  ultimately show ?thesis using card_insert_disjoint [OF fd_slots_finite(1), of "(p, i)" ps g] by (cases "g = f") simp_all
qed

lemma sint_small_ref:
  assumes "unat (r :: cint) \<le> 1024"
  shows "sint r = int (unat r)"
proof -
  have "r = of_nat (unat r)" by simp
  moreover have "nat (sint (of_nat (unat r) :: cint)) = unat r" using assms by (intro nat_sint_of_nat) simp
  ultimately have n: "nat (sint r) = unat r" by simp
  then show ?thesis
  proof (cases "unat r = 0")
    case True
    then have "r = 0" by (simp only: unat_eq_0)
    then show ?thesis by simp
  qed (use n in linarith)
qed

text \<open>The first argument as a descriptor.\<close>

lemma argfd_run:
  assumes "cproc s = Some p" "argraw 0 s = Done v s"
  defines "fd \<equiv> sint (ucast v :: cint)"
  shows "argfd 0 s = Done (if 0 \<le> fd \<and> fd < int NOFILE then map_option (\<lambda>f. (nat fd, f)) (p_ofile (procs s p) (nat fd)) else None) s"
proof -
  have "argint 0 s = Done (ucast v) s" using assms(2) by (simp add: argint_def ret_def)
  moreover have "0 \<le> fd \<Longrightarrow> unat (ucast v :: cint) = nat fd"
  proof -
    assume "0 \<le> fd"
    then have "uint (ucast v :: cint) = fd" using uint_nonneg_sint [of "ucast v :: cint"] unfolding fd_def by simp
    then show "unat (ucast v :: cint) = nat fd" by (simp only: unat_eq_nat_uint)
  qed
  ultimately show ?thesis using assms(1) unfolding fd_def by (auto simp: argfd_def ret_def split: option.split)
qed

lemma files_typed_dup:
  assumes ty: "files_typed s" and p: "p < NPROC" "i < NOFILE" "j < NOFILE" "p_ofile (procs s p) i = None" "p_ofile (procs s p) j = Some f"
  shows "files_typed (s\<lparr>procs := (procs s)(p := (procs s p)\<lparr>p_ofile := (p_ofile (procs s p))(i := Some f)\<rparr>),
     ftable := (ftable s)(f := (ftable s f)\<lparr>f_ref := f_ref (ftable s f) + 1\<rparr>)\<rparr>)"
proof -
  let ?ps = "(procs s)(p := (procs s p)\<lparr>p_ofile := (p_ofile (procs s p))(i := Some f)\<rparr>)"
  have c: "card (fd_slots ?ps g) = card (fd_slots (procs s) g) + (if g = f then 1 else 0)" for g using fd_slots_open [where ps = "procs s", OF p(1,2,4)] by blast
  have r: "unat (f_ref (ftable s g)) = card (fd_slots (procs s) g)" for g using ty by (simp add: files_typed_def)
  have "unat (f_ref (ftable s f) + 1) = unat (f_ref (ftable s f)) + 1"
    using unat_plus_of_nat [of "f_ref (ftable s f)" 1] r [of f] fd_slots_finite(2) [of "procs s" f] by simp
  moreover have "f < NFILE" using ty p by (auto simp: files_typed_def)
  ultimately show ?thesis using ty c r by (auto simp: files_typed_def)
qed

lemma filedup_run:
  assumes "LFtable \<notin> set (held s)" "1 \<le> sint (f_ref (ftable s f))"
  shows "filedup f s = Done f (s\<lparr>ftable := (ftable s)(f := (ftable s f)\<lparr>f_ref := f_ref (ftable s f) + 1\<rparr>)\<rparr>)"
  using assms by (simp add: filedup_def getf_def setf_def ret_def)

text \<open>
  C11. The descriptors of all processes stay well-typed under \<open>dup\<close>: every open descriptor names a file of the table,
  and the reference count of a file is the number of descriptors that name it. \<open>dup\<close> of an open descriptor
  returns the lowest one that is free and makes it name the same file; for an argument out of range, a closed
  descriptor or a full table it returns -1 and changes nothing. It never panics in \<open>filedup\<close>.
\<close>

theorem sys_dup_typed:
  assumes ty: "files_typed s" and cp: "cproc s = Some p" "p < NPROC" and arg: "argraw 0 s = Done v s" and lk: "LFtable \<notin> set (held s)"
  defines "fd \<equiv> sint (ucast v :: cint)" and "ofile \<equiv> p_ofile (procs s p)"
  shows "if 0 \<le> fd \<and> fd < int NOFILE \<and> ofile (nat fd) \<noteq> None \<and> (\<exists>i < NOFILE. ofile i = None)
    then \<exists>t i. sys_dup s = Done (of_nat i) t \<and> i < NOFILE \<and> ofile i = None \<and> (\<forall>j < i. ofile j \<noteq> None) \<and>
      p_ofile (procs t p) = ofile(i := ofile (nat fd)) \<and> files_typed t
    else sys_dup s = Done (- 1) s"
proof -
  have a: "argfd 0 s = Done (if 0 \<le> fd \<and> fd < int NOFILE then map_option (\<lambda>f. (nat fd, f)) (ofile (nat fd)) else None) s"
    using argfd_run [OF cp(1) arg] by (simp add: fd_def ofile_def)
  let ?r = "List.find (\<lambda>i. ofile i = None) [0..<NOFILE]"
  show ?thesis
  proof (cases "0 \<le> fd \<and> fd < int NOFILE \<and> ofile (nat fd) \<noteq> None")
    case False
    then have "argfd 0 s = Done None s" using a by auto
    then show ?thesis using False by (auto simp: sys_dup_def ret_def)
  next
    case True
    then obtain f where f: "ofile (nat fd) = Some f" by auto
    then have af: "argfd 0 s = Done (Some (nat fd, f)) s" using a True by simp
    show ?thesis
    proof (cases ?r)
      case None
      then have "fdalloc f s = Done None s" using cp(1) by (simp add: fdalloc_def ofile_def ret_def)
      then have "sys_dup s = Done (- 1) s" using af by (simp add: sys_dup_def ret_def)
      moreover have "\<not> (\<exists>i < NOFILE. ofile i = None)" using None by (auto simp: find_None_iff)
      ultimately show ?thesis by (simp only: simp_thms if_False)
    next
      case (Some i)
      have i: "i < NOFILE" "ofile i = None" "\<forall>j < i. ofile j \<noteq> None" using Some by (auto simp: find_Some_iff)
      let ?s = "s\<lparr>procs := (procs s)(p := (procs s p)\<lparr>p_ofile := ofile(i := Some f)\<rparr>)\<rparr>"
      have al: "fdalloc f s = Done (Some i) ?s" using cp(1) Some by (simp add: fdalloc_def set_ofile_def ofile_def ret_def)
      have nf: "nat fd < NOFILE" using True by (simp, linarith)
      have "(p, nat fd) \<in> fd_slots (procs s) f" using f cp(2) nf by (simp add: fd_slots_def ofile_def)
      then have "0 < card (fd_slots (procs s) f)" using fd_slots_finite(1) card_gt_0_iff by blast
      moreover have u: "unat (f_ref (ftable s f)) = card (fd_slots (procs s) f)" using ty by (simp add: files_typed_def)
      ultimately have "1 \<le> sint (f_ref (ftable s f))" using sint_small_ref [of "f_ref (ftable s f)"] fd_slots_finite(2) [of "procs s" f] by simp
      then have "filedup f ?s = Done f (?s\<lparr>ftable := (ftable s)(f := (ftable s f)\<lparr>f_ref := f_ref (ftable s f) + 1\<rparr>)\<rparr>)"
        using filedup_run [of ?s f] lk by simp
      then have run: "sys_dup s = Done (of_nat i) (?s\<lparr>ftable := (ftable s)(f := (ftable s f)\<lparr>f_ref := f_ref (ftable s f) + 1\<rparr>)\<rparr>)"
        using af al by (simp add: sys_dup_def ret_def)
      have "files_typed (?s\<lparr>ftable := (ftable s)(f := (ftable s f)\<lparr>f_ref := f_ref (ftable s f) + 1\<rparr>)\<rparr>)"
        using files_typed_dup [OF ty cp(2) i(1) nf, of f] i(2) f by (simp add: ofile_def)
      then show ?thesis using True i run f by auto
    qed
  qed
qed

text \<open>A process with one open descriptor.\<close>

definition demo_fd :: filest where
  "demo_fd = demo_filest\<lparr>procs := (procs demo_filest)(1 := (procs demo_filest 1)\<lparr>p_ofile := (\<lambda>_. None)(0 := Some 3)\<rparr>),
     ftable := (ftable demo_filest)(3 := (ftable demo_filest 3)\<lparr>f_type := FD_DEVICE, f_ref := 1\<rparr>)\<rparr>"

lemma demo_fd_simps:
  "held demo_fd = []" "cproc demo_fd = Some 1" "p_ofile (procs demo_fd p) = (\<lambda>_. None)(0 := (if p = 1 then Some 3 else None))"
  "f_ref (ftable demo_fd f) = (if f = 3 then 1 else 0)" "argraw 0 demo_fd = Done 0 demo_fd"
  by (simp_all add: demo_fd_def demo_states demo_proc_def proc0_def demo_user_mem_def argraw_def tf_get_def ld_def gets_def fun_eq_iff)

theorem sys_dup_typed_witness: "\<exists>t. sys_dup demo_fd = Done 1 t \<and> files_typed t"
proof -
  have "fd_slots (procs demo_fd) f = (if f = 3 then {(1, 0)} else {})" for f
    by (auto simp: fd_slots_def demo_fd_simps split: if_splits)
  then have ty: "files_typed demo_fd" by (auto simp: files_typed_def demo_fd_simps split: if_splits)
  have c: "0 \<le> sint (ucast (0 :: uint64) :: cint) \<and> sint (ucast (0 :: uint64) :: cint) < int NOFILE \<and>
    p_ofile (procs demo_fd 1) (nat (sint (ucast (0 :: uint64) :: cint))) \<noteq> None \<and> (\<exists>i < NOFILE. p_ofile (procs demo_fd 1) i = None)"
    by (auto simp: demo_fd_simps intro!: exI [of _ 1])
  obtain t i where t: "sys_dup demo_fd = Done (of_nat i) t" "i < NOFILE" "p_ofile (procs demo_fd 1) i = None" "\<forall>j < i. p_ofile (procs demo_fd 1) j \<noteq> None" "files_typed t"
    using sys_dup_typed [OF ty demo_fd_simps(2) _ demo_fd_simps(5)] c unfolding if_P [OF c] by (auto simp: demo_fd_simps(1))
  have "i = 1" using t(3) t(4) [rule_format, of 1] by (cases "i = 0"; cases "i = 1") (auto simp: demo_fd_simps)
  then show ?thesis using t by auto
qed

end
