(* ===== verification/Xv6_Trap.thy ===== *)
theory Xv6_Trap
  imports Xv6_Syscall
begin

text \<open>
  Traps, interrupts and the delivery of signals (\<^verbatim>\<open>kernel/trap.c\<close>), the interrupt controller
  (\<^verbatim>\<open>kernel/plic.c\<close>), \<open>forkret\<close> (\<^verbatim>\<open>kernel/proc.c\<close>) and the start of the first hart (\<^verbatim>\<open>kernel/main.c\<close>).

  The control registers that this code reads and writes are fields of the state; the interrupt enable
  bit as the lock code handles it is in the model of the locks. \<open>plic_in\<close> are the interrupt numbers the
  controller will answer with, \<open>plic_wr\<close> the writes to it. Addresses the linker provides are parameters.
  The return to user space is the pair of arguments passed to \<open>userret\<close>.
\<close>

definition SSTATUS_SPP :: uint64 where [simp]: "SSTATUS_SPP = 0x100"
definition SSTATUS_SPIE :: uint64 where [simp]: "SSTATUS_SPIE = 0x20"
definition SSTATUS_SIE :: uint64 where [simp]: "SSTATUS_SIE = 0x2"
definition UART0_IRQ :: uint where [simp]: "UART0_IRQ = 10"
definition VIRTIO0_IRQ :: uint where [simp]: "VIRTIO0_IRQ = 1"

definition MAKE_SATP :: "uint64 \<Rightarrow> uint64" where
  "MAKE_SATP pagetable = 0x8000000000000000 OR drop_bit 12 pagetable"

record trapst = filest +
  r_sstatus :: uint64
  r_sepc :: uint64
  r_scause :: uint64
  r_stval :: uint64
  r_stvec :: uint64
  r_satp :: uint64
  r_sip :: uint64
  hart :: nat
  plic_in :: "uint list"
  plic_wr :: "(uint64 \<times> uint) list"
  first :: bool
  kernel_pagetable :: uint64
  started :: bool

text \<open>Addresses of code: \<open>uservec\<close>, \<open>userret\<close>, \<open>usertrap\<close>, \<open>kernelvec\<close> and the two ends of the code of \<open>sigret\<close>.\<close>

record syms =
  y_trampoline :: uint64
  y_uservec :: uint64
  y_userret :: uint64
  y_usertrap :: uint64
  y_kernelvec :: uint64
  y_sigretBEG :: uint64
  y_sigretEND :: uint64

section \<open>kernel/trap.c: signals\<close>

definition sigkill_handler :: "('z trapst_scheme, cint) kmon" where
  "sigkill_handler =
     bnd myproc (\<lambda>p.
     bnd mythread (\<lambda>t.
     bnd (lock_acquire (LProc p)) (\<lambda>_.
     bnd (setp p (\<lambda>r. r\<lparr>p_killed := True\<rparr>)) (\<lambda>_.
     bnd (gett t t_state) (\<lambda>st.
     bnd (if st = t_SLEEPING then sett t (\<lambda>r. r\<lparr>t_state := t_RUNNABLE\<rparr>) else ret ()) (\<lambda>_.
     bnd (for_each [0..<NTHREAD] (\<lambda>i.
       bnd (lock_acquire (LThread p i)) (\<lambda>_.
       bnd (gett (p, i) t_state) (\<lambda>st.
       bnd (if st = t_SLEEPING then sett (p, i) (\<lambda>r. r\<lparr>t_state := t_RUNNABLE\<rparr>) else ret ()) (\<lambda>_.
       lock_release (LThread p i)))))) (\<lambda>_.
     bnd (lock_release (LProc p)) (\<lambda>_.
     ret 0))))))))"

definition sig_bit :: "nat \<Rightarrow> uint" where
  "sig_bit i = push_bit i 1"

definition sigcont_handler :: "('z trapst_scheme, cint) kmon" where
  "sigcont_handler =
     bnd myproc (\<lambda>p.
     bnd (getp p p_freeze) (\<lambda>freeze.
     if \<not> freeze then ret (- 1) else
     bnd (setp p (\<lambda>r. r\<lparr>p_freeze := False\<rparr>)) (\<lambda>_.
     bnd (setp p (\<lambda>r. r\<lparr>p_pendingsignals := p_pendingsignals r XOR sig_bit SIGCONT\<rparr>)) (\<lambda>_.
     ret 0))))"

text \<open>The endless loop of \<open>sigstop_handler\<close>: it gives up the CPU until \<open>SIGCONT\<close> is pending.\<close>

definition sigstop_wait :: "('z trapst_scheme, cint) kmon" where
  "sigstop_wait =
     bnd myproc (\<lambda>p.
     bnd (lock_acquire (LProc p)) (\<lambda>_.
     bnd (getp p p_pendingsignals) (\<lambda>pend.
     if pend AND sig_bit SIGCONT = 0 then
       bnd (lock_release (LProc p)) (\<lambda>_.
       bnd yield (\<lambda>_.
       ret 0))
     else
       bnd (setp p (\<lambda>r. r\<lparr>p_freeze := False\<rparr>)) (\<lambda>_.
       bnd (setp p (\<lambda>r. r\<lparr>p_pendingsignals := p_pendingsignals r XOR sig_bit SIGSTOP\<rparr>)) (\<lambda>_.
       bnd (setp p (\<lambda>r. r\<lparr>p_pendingsignals := p_pendingsignals r XOR sig_bit SIGCONT\<rparr>)) (\<lambda>_.
       bnd (lock_release (LProc p)) (\<lambda>_.
       ret 0)))))))"

definition sigstop_handler :: "('z trapst_scheme, cint) kmon" where
  "sigstop_handler =
     bnd myproc (\<lambda>p.
     bnd mythread (\<lambda>t.
     bnd (getp p p_freeze) (\<lambda>freeze.
     bnd (gett t t_state) (\<lambda>st.
     if freeze then ret (- 1)
     else if st = t_RUNNABLE \<or> st = t_RUNNING then
       bnd (lock_acquire (LProc p)) (\<lambda>_.
       bnd (setp p (\<lambda>r. r\<lparr>p_freeze := True\<rparr>)) (\<lambda>_.
       bnd (lock_release (LProc p)) (\<lambda>_.
       sigstop_wait)))
     else ret 0))))"

definition sigstop_resume :: "('z trapst_scheme, cint) kmon" where
  "sigstop_resume = bnd yield_resume (\<lambda>_. sigstop_wait)"

text \<open>What \<open>kvmmake\<close> maps in the kernel page table: reading any other address in the kernel traps.\<close>

definition kmapped :: "uint64 \<Rightarrow> bool" where
  "kmapped a \<longleftrightarrow> (UART0 \<le> a \<and> a < UART0 + PGSIZE) \<or> (VIRTIO0 \<le> a \<and> a < VIRTIO0 + PGSIZE) \<or>
     (PLIC \<le> a \<and> a < PLIC + 0x400000) \<or> (KERNBASE \<le> a \<and> a < PHYSTOP) \<or> TRAMPOLINE \<le> a \<and> a < MAXVA \<or>
     (\<exists>p\<in>set [0..<NPROC]. \<exists>t\<in>set [0..<NTHREAD]. KSTACK p t \<le> a \<and> a < KSTACK p t + PGSIZE)"

text \<open>
  \<open>tmp_action\<close> is the local buffer: the handler at offset 0, the mask at offset 8. The handler and the
  mask are fetched from user memory at the addresses that \<open>sigaction\<close> stored as the handler and the
  mask themselves.
\<close>

definition signalhandler_user :: "syms \<Rightarrow> nat \<Rightarrow> ('z trapst_scheme, unit) kmon" where
  "signalhandler_user y i =
     bnd myproc (\<lambda>p.
     bnd mythread (\<lambda>t.
     bnd (lock_acquire (LProc p)) (\<lambda>_.
     bnd (gets k_local) (\<lambda>tmp.
     bnd (getp p (\<lambda>r. r)) (\<lambda>r.
     bnd (copyin (p_pagetable r) tmp (p_signalhandlers r i) 8) (\<lambda>_.
     bnd (copyin (p_pagetable r) (tmp + 8) (ucast (p_signalmasks r i)) 4) (\<lambda>_.
     bnd (load_bytes tmp 12) (\<lambda>act.
     bnd (setp p (\<lambda>r. r\<lparr>p_mask_origin := p_signalmask r\<rparr>)) (\<lambda>_.
     bnd (setp p (\<lambda>r. r\<lparr>p_signalmask := of_le act 8 4\<rparr>)) (\<lambda>_.
     bnd (setp p (\<lambda>r. r\<lparr>p_handling := True\<rparr>)) (\<lambda>_.
     bnd (gett t t_trapframe) (\<lambda>tf.
     bnd (tf_get tf TF_sp) (\<lambda>sp.
     let new_sp = sp - of_nat SZ_TRAPFRAME in
     bnd (walkaddr (p_pagetable r) (PGROUNDDOWN new_sp)) (\<lambda>pa.
     bnd (if pa \<noteq> 0 \<and> \<not> kmapped sp then fault else copyout (p_pagetable r) new_sp sp 8) (\<lambda>_.
     bnd (tf_set tf TF_epc (of_le act 0 8)) (\<lambda>_.
     let funcsize = y_sigretEND y - y_sigretBEG y in
     bnd (tf_set tf TF_sp (sp - funcsize)) (\<lambda>_.
     bnd (copyout (p_pagetable r) (sp - funcsize) (y_sigretBEG y) funcsize) (\<lambda>_.
     bnd (tf_set tf TF_a0 (of_nat i)) (\<lambda>_.
     bnd (tf_set tf TF_ra (sp - funcsize)) (\<lambda>_.
     bnd (setp p (\<lambda>r. r\<lparr>p_pendingsignals := p_pendingsignals r XOR sig_bit i\<rparr>)) (\<lambda>_.
     lock_release (LProc p))))))))))))))))))))))"

text \<open>
  The test of \<open>signal_handler\<close> as it is written: the bitwise and of the pending bit with the logical
  negation, 0 or 1, of the masked bit.
\<close>

definition sig_test :: "uint \<Rightarrow> uint \<Rightarrow> nat \<Rightarrow> bool" where
  "sig_test pend msk i \<longleftrightarrow> (pend AND sig_bit i) AND (if msk AND sig_bit i = 0 then 1 else 0) \<noteq> 0"

fun signal_loop :: "syms \<Rightarrow> nat list \<Rightarrow> ('z trapst_scheme, unit) kmon" where
  "signal_loop y [] = ret ()"
| "signal_loop y (i # is) =
     bnd myproc (\<lambda>p.
     bnd (getp p (\<lambda>r. r)) (\<lambda>r.
     if sig_test (p_pendingsignals r) (p_signalmask r) i then
       if p_signalhandlers r i = SIG_IGN then signal_loop y is
       else bnd (if p_signalhandlers r i = SIG_DFL then bnd sigkill_handler (\<lambda>_. ret ())
                 else if i = SIGKILL then bnd sigkill_handler (\<lambda>_. ret ())
                 else if i = SIGCONT then bnd sigcont_handler (\<lambda>_. ret ())
                 else if i = SIGSTOP then bnd sigstop_handler (\<lambda>_. ret ())
                 else signalhandler_user y i) (\<lambda>_.
            signal_loop y is)
     else ret ()))"

definition signal_handler :: "syms \<Rightarrow> ('z trapst_scheme, unit) kmon" where
  "signal_handler y =
     bnd myproc (\<lambda>p.
     bnd (getp p p_handling) (\<lambda>handling.
     if handling then ret () else signal_loop y [0..<NUMOFSIGNALS]))"

section \<open>kernel/plic.c\<close>

definition plic_put :: "uint64 \<Rightarrow> uint \<Rightarrow> ('z trapst_scheme, unit) kmon" where
  "plic_put a v = modify (\<lambda>s. s\<lparr>plic_wr := plic_wr s @ [(a, v)]\<rparr>)"

definition PLIC_SENABLE :: "nat \<Rightarrow> uint64" where
  "PLIC_SENABLE h = PLIC + 0x2080 + of_nat h * 0x100"

definition PLIC_SPRIORITY :: "nat \<Rightarrow> uint64" where
  "PLIC_SPRIORITY h = PLIC + 0x201000 + of_nat h * 0x2000"

definition PLIC_SCLAIM :: "nat \<Rightarrow> uint64" where
  "PLIC_SCLAIM h = PLIC + 0x201004 + of_nat h * 0x2000"

definition plicinit :: "('z trapst_scheme, unit) kmon" where
  "plicinit =
     bnd (plic_put (PLIC + ucast UART0_IRQ * 4) 1) (\<lambda>_.
     plic_put (PLIC + ucast VIRTIO0_IRQ * 4) 1)"

definition plicinithart :: "('z trapst_scheme, unit) kmon" where
  "plicinithart =
     bnd (gets hart) (\<lambda>h.
     bnd (plic_put (PLIC_SENABLE h) (push_bit (unat UART0_IRQ) 1 OR push_bit (unat VIRTIO0_IRQ) 1)) (\<lambda>_.
     plic_put (PLIC_SPRIORITY h) 0))"

definition plic_claim :: "('z trapst_scheme, uint) kmon" where
  "plic_claim =
     bnd (gets plic_in) (\<lambda>l.
     case l of
       [] \<Rightarrow> ret 0
     | irq # irqs \<Rightarrow> bnd (modify (\<lambda>s. s\<lparr>plic_in := irqs\<rparr>)) (\<lambda>_. ret irq))"

definition plic_complete :: "uint \<Rightarrow> ('z trapst_scheme, unit) kmon" where
  "plic_complete irq = bnd (gets hart) (\<lambda>h. plic_put (PLIC_SCLAIM h) irq)"

section \<open>kernel/trap.c: interrupts and traps\<close>

definition clockintr :: "('z trapst_scheme, unit) kmon" where
  "clockintr =
     bnd (lock_acquire LTicks) (\<lambda>_.
     bnd (modify (\<lambda>s. s\<lparr>ticks := ticks s + 1\<rparr>)) (\<lambda>_.
     bnd (wakeup ChTicks) (\<lambda>_.
     lock_release LTicks)))"

definition devintr :: "(uint \<Rightarrow> uint) \<Rightarrow> ('z trapst_scheme, cint) kmon" where
  "devintr R =
     bnd (gets r_scause) (\<lambda>scause.
     if scause AND 0x8000000000000000 \<noteq> 0 \<and> scause AND 0xff = 9 then
       bnd plic_claim (\<lambda>irq.
       bnd (if irq = UART0_IRQ then uartintr
            else if irq = VIRTIO0_IRQ then virtio_disk_intr R
            else if irq \<noteq> 0 then printf (Some (ascii ''unexpected interrupt irq=%d'' @ NL)) [PInt irq]
            else ret ()) (\<lambda>_.
       bnd (if irq \<noteq> 0 then plic_complete irq else ret ()) (\<lambda>_.
       ret 1)))
     else if scause = 0x8000000000000001 then
       bnd (gets hart) (\<lambda>h.
       bnd (if h = 0 then clockintr else ret ()) (\<lambda>_.
       bnd (modify (\<lambda>s. s\<lparr>r_sip := r_sip s AND NOT 2\<rparr>)) (\<lambda>_.
       ret 2)))
     else ret 0)"

definition w_stvec :: "uint64 \<Rightarrow> ('z trapst_scheme, unit) kmon" where
  "w_stvec v = modify (\<lambda>s. s\<lparr>r_stvec := v\<rparr>)"

definition w_sstatus :: "uint64 \<Rightarrow> ('z trapst_scheme, unit) kmon" where
  "w_sstatus v = modify (\<lambda>s. s\<lparr>r_sstatus := v\<rparr>)"

definition w_sepc :: "uint64 \<Rightarrow> ('z trapst_scheme, unit) kmon" where
  "w_sepc v = modify (\<lambda>s. s\<lparr>r_sepc := v\<rparr>)"

definition intr_on :: "('z trapst_scheme, unit) kmon" where
  "intr_on = bnd (gets r_sstatus) (\<lambda>x. w_sstatus (x OR SSTATUS_SIE))"

definition intr_off :: "('z trapst_scheme, unit) kmon" where
  "intr_off = bnd (gets r_sstatus) (\<lambda>x. w_sstatus (x AND NOT SSTATUS_SIE))"

definition trapinithart :: "syms \<Rightarrow> ('z trapst_scheme, unit) kmon" where
  "trapinithart y = w_stvec (y_kernelvec y)"

definition usertrapret :: "syms \<Rightarrow> ('z trapst_scheme, uint64 \<times> uint64) kmon" where
  "usertrapret y =
     bnd myproc (\<lambda>p.
     bnd mythread (\<lambda>t.
     bnd (getp p p_backup) (\<lambda>backup.
     bnd (gett t t_trapframe) (\<lambda>tf.
     bnd (if backup = 0 \<or> tf = 0 then fault else memmove_k backup tf SZ_TRAPFRAME) (\<lambda>_.
     bnd intr_off (\<lambda>_.
     bnd (w_stvec (TRAMPOLINE + (y_uservec y - y_trampoline y))) (\<lambda>_.
     bnd (gets r_satp) (\<lambda>satp.
     bnd (tf_set tf TF_satp satp) (\<lambda>_.
     bnd (gett t t_kstack) (\<lambda>kstack.
     bnd (tf_set tf TF_ksp (kstack + PGSIZE)) (\<lambda>_.
     bnd (tf_set tf TF_trap (y_usertrap y)) (\<lambda>_.
     bnd (gets hart) (\<lambda>h.
     bnd (tf_set tf TF_hartid (of_nat h)) (\<lambda>_.
     bnd (gets r_sstatus) (\<lambda>x.
     bnd (w_sstatus ((x AND NOT SSTATUS_SPP) OR SSTATUS_SPIE)) (\<lambda>_.
     bnd (tf_get tf TF_epc) (\<lambda>epc.
     bnd (w_sepc epc) (\<lambda>_.
     bnd (signal_handler y) (\<lambda>_.
     bnd (getp p p_pagetable) (\<lambda>pagetable.
     ret (TRAPFRAME + of_nat (SZ_TRAPFRAME * snd t), MAKE_SATP pagetable)))))))))))))))))))))"

text \<open>\<open>usertrap\<close> up to the second test of \<open>killed\<close>; the result is \<open>which_dev\<close>.\<close>

definition usertrap_body :: "syms \<Rightarrow> (uint \<Rightarrow> uint) \<Rightarrow> ('z trapst_scheme, cint) kmon" where
  "usertrap_body y R =
     bnd (gets r_sstatus) (\<lambda>sstatus.
     if sstatus AND SSTATUS_SPP \<noteq> 0 then panic ''usertrap: not from user mode'' else
     bnd (w_stvec (y_kernelvec y)) (\<lambda>_.
     bnd myproc (\<lambda>p.
     bnd mythread (\<lambda>t.
     bnd (gett t t_trapframe) (\<lambda>tf.
     bnd (gets r_sepc) (\<lambda>sepc.
     bnd (tf_set tf TF_epc sepc) (\<lambda>_.
     bnd (gets r_scause) (\<lambda>scause.
     if scause = 8 then
       bnd (getp p p_killed) (\<lambda>killed.
       bnd (if killed then exit (- 1) else ret ()) (\<lambda>_.
       bnd (tf_get tf TF_epc) (\<lambda>epc.
       bnd (tf_set tf TF_epc (epc + 4)) (\<lambda>_.
       bnd intr_on (\<lambda>_.
       bnd syscall (\<lambda>_.
       ret 0))))))
     else
       bnd (devintr R) (\<lambda>which_dev.
       if which_dev \<noteq> 0 then ret which_dev else
       bnd (getp p p_pid) (\<lambda>pid.
       bnd (printf (Some (ascii ''usertrap(): unexpected scause %p pid=%d'' @ NL)) [PPtr scause, PInt pid]) (\<lambda>_.
       bnd (gets r_stval) (\<lambda>stval.
       bnd (printf (Some (ascii ''            sepc=%p stval=%p'' @ NL)) [PPtr sepc, PPtr stval]) (\<lambda>_.
       bnd (setp p (\<lambda>r. r\<lparr>p_killed := True\<rparr>)) (\<lambda>_.
       ret 0))))))))))))))"

definition usertrap :: "syms \<Rightarrow> (uint \<Rightarrow> uint) \<Rightarrow> ('z trapst_scheme, uint64 \<times> uint64) kmon" where
  "usertrap y R =
     bnd (usertrap_body y R) (\<lambda>which_dev.
     bnd myproc (\<lambda>p.
     bnd (getp p p_killed) (\<lambda>killed.
     bnd (if killed then exit (- 1) else ret ()) (\<lambda>_.
     bnd (if which_dev = 2 then yield else ret ()) (\<lambda>_.
     usertrapret y)))))"

definition usertrap_resume :: "syms \<Rightarrow> ('z trapst_scheme, uint64 \<times> uint64) kmon" where
  "usertrap_resume y = bnd yield_resume (\<lambda>_. usertrapret y)"

definition kerneltrap_end :: "uint64 \<Rightarrow> uint64 \<Rightarrow> ('z trapst_scheme, unit) kmon" where
  "kerneltrap_end sepc sstatus = bnd (w_sepc sepc) (\<lambda>_. w_sstatus sstatus)"

definition kerneltrap :: "(uint \<Rightarrow> uint) \<Rightarrow> ('z trapst_scheme, unit) kmon" where
  "kerneltrap R =
     bnd (gets r_sepc) (\<lambda>sepc.
     bnd (gets r_sstatus) (\<lambda>sstatus.
     bnd (gets r_scause) (\<lambda>scause.
     if sstatus AND SSTATUS_SPP = 0 then panic ''kerneltrap: not from supervisor mode'' else
     if sstatus AND SSTATUS_SIE \<noteq> 0 then panic ''kerneltrap: interrupts enabled'' else
     bnd (devintr R) (\<lambda>which_dev.
     if which_dev = 0 then
       bnd (printf (Some (ascii ''scause %p'' @ NL)) [PPtr scause]) (\<lambda>_.
       bnd (gets r_stval) (\<lambda>stval.
       bnd (printf (Some (ascii ''sepc=%p stval=%p'' @ NL)) [PPtr sepc, PPtr stval]) (\<lambda>_.
       panic ''kerneltrap'')))
     else
       bnd (gets cthread) (\<lambda>mt.
       bnd (case mt of
              None \<Rightarrow> ret ()
            | Some t \<Rightarrow>
              bnd (gett t t_state) (\<lambda>st.
              if which_dev = 2 \<and> st = t_RUNNING then yield else ret ())) (\<lambda>_.
       kerneltrap_end sepc sstatus))))))"

definition kerneltrap_resume :: "uint64 \<Rightarrow> uint64 \<Rightarrow> ('z trapst_scheme, unit) kmon" where
  "kerneltrap_resume sepc sstatus = bnd yield_resume (\<lambda>_. kerneltrap_end sepc sstatus)"

section \<open>forkret and main\<close>

definition forkret :: "syms \<Rightarrow> ('z trapst_scheme, uint64 \<times> uint64) kmon" where
  "forkret y =
     bnd myproc (\<lambda>p.
     bnd (lock_release (LProc p)) (\<lambda>_.
     bnd (gets first) (\<lambda>f.
     bnd (if f then
       bnd (modify (\<lambda>s. s\<lparr>first := False\<rparr>)) (\<lambda>_. fsinit ROOTDEV)
       else ret ()) (\<lambda>_.
     usertrapret y))))"

definition kvminit :: "uint64 \<Rightarrow> uint64 \<Rightarrow> ('z trapst_scheme, unit) kmon" where
  "kvminit etext trampoline =
     bnd (kvmmake etext trampoline) (\<lambda>pt. modify (\<lambda>s. s\<lparr>kernel_pagetable := pt\<rparr>))"

definition kvminithart :: "('z trapst_scheme, unit) kmon" where
  "kvminithart = modify (\<lambda>s. s\<lparr>r_satp := MAKE_SATP (kernel_pagetable s)\<rparr>)"

text \<open>The branch of \<open>main\<close> for hart 0, up to \<open>scheduler\<close>.\<close>

definition main_boot :: "syms \<Rightarrow> uint64 \<Rightarrow> uint64 \<Rightarrow> uint64 \<Rightarrow> (uint \<Rightarrow> uint) \<Rightarrow> ('z trapst_scheme, unit) kmon" where
  "main_boot y etext pages initcode R =
     bnd consoleinit (\<lambda>_.
     bnd printfinit (\<lambda>_.
     bnd (printf (Some NL) []) (\<lambda>_.
     bnd (printf (Some (ascii ''xv6 kernel is booting'' @ NL)) []) (\<lambda>_.
     bnd (printf (Some NL) []) (\<lambda>_.
     bnd kinit (\<lambda>_.
     bnd (kvminit etext (y_trampoline y)) (\<lambda>_.
     bnd kvminithart (\<lambda>_.
     bnd procinit (\<lambda>_.
     bnd (trapinithart y) (\<lambda>_.
     bnd plicinit (\<lambda>_.
     bnd plicinithart (\<lambda>_.
     bnd binit (\<lambda>_.
     bnd iinit (\<lambda>_.
     bnd (virtio_disk_init R pages) (\<lambda>_.
     bnd (userinit initcode) (\<lambda>_.
     bnd initsems (\<lambda>_.
     modify (\<lambda>s. s\<lparr>started := True\<rparr>))))))))))))))))))"

section \<open>Which signals are delivered\<close>

text \<open>The test is true only for signal 0: for another signal the bitwise and with 0 or 1 is 0.\<close>

lemma sig_test_zero: "sig_test pend msk i \<longleftrightarrow> i = 0 \<and> bit pend 0 \<and> \<not> bit msk 0"
proof (cases i)
  case 0
  then show ?thesis by (simp add: sig_test_def sig_bit_def and_one_eq mod_2_eq_odd bit_0)
next
  case (Suc n)
  have "even (pend AND sig_bit i)" unfolding even_and_iff by (simp add: sig_bit_def Suc even_push_bit_iff)
  then show ?thesis by (simp add: sig_test_def Suc and_one_eq mod_2_eq_odd del: and.right_idem)
qed

lemma signal_loop_later: "(\<forall>i\<in>set is. i \<noteq> 0) \<Longrightarrow> is \<noteq> [] \<Longrightarrow> signal_loop y is = bnd myproc (\<lambda>_. ret ())"
  by (cases "is") (auto simp: sig_test_zero fun_eq_iff bnd_def myproc_def getp_def gets_def ret_def fault_def split: option.split)

text \<open>
  C30. \<open>signal_handler\<close> delivers signal 0 or nothing: it is equivalent to looking at bit 0 of the pending
  signals and of the mask, and no other pending signal is ever handled, because the test of the loop is
  false for every other signal and the loop returns at the first signal that fails the test.
\<close>

theorem signal_handler_equiv:
  "signal_handler y =
     bnd myproc (\<lambda>p.
     bnd (getp p (\<lambda>r. r)) (\<lambda>r.
     if p_handling r then ret ()
     else if bit (p_pendingsignals r) 0 \<and> \<not> bit (p_signalmask r) 0 \<and> p_signalhandlers r 0 \<noteq> SIG_IGN then
       bnd (if p_signalhandlers r 0 = SIG_DFL then bnd sigkill_handler (\<lambda>_. ret ()) else signalhandler_user y 0) (\<lambda>_.
       bnd myproc (\<lambda>_. ret ()))
     else ret ()))" (is "_ = ?R")
proof
  fix s :: "'a trapst_scheme"
  have u: "[0..<NUMOFSIGNALS] = 0 # [Suc 0..<NUMOFSIGNALS]" by (subst upt_rec) simp
  have l: "signal_loop y [Suc 0..<NUMOFSIGNALS] = (bnd myproc (\<lambda>_. ret ()) :: ('a trapst_scheme, unit) kmon)"
    by (rule signal_loop_later) auto
  show "signal_handler y s = ?R s"
  proof (cases "cproc s")
    case None
    then show ?thesis by (simp add: signal_handler_def myproc_def)
  next
    case (Some p)
    then show ?thesis unfolding signal_handler_def u
      by (simp add: sig_test_zero l del: NUMOFSIGNALS_def)
  qed
qed

end
