(* ===== verification/User_Lib.thy ===== *)
theory User_Lib
  imports Xv6_Mem
begin

text \<open>
  The C library of the user programs (\<^verbatim>\<open>user/ulib.c\<close>). A pointer into a string that is only read is the list of
  bytes from there to the end of its array, so that \<open>None\<close> is a read past the end; an array that is written is a
  list of bytes, with positions as pointers. \<open>char\<close> is unsigned on this machine. The system calls inside
  \<open>gets\<close> are the bytes standard input delivers; \<open>stat\<close> only makes three system calls.
\<close>

section \<open>Definitions\<close>

fun u_strcpy :: "byte list \<Rightarrow> byte list \<Rightarrow> byte list option" where
  "u_strcpy (d # s) (c # t) = (if c = 0 then Some (c # s) else map_option (\<lambda>r. c # r) (u_strcpy s t))"
| "u_strcpy _ _ = None"

fun u_strcmp :: "byte list \<Rightarrow> byte list \<Rightarrow> int option" where
  "u_strcmp (a # p) (b # q) = (if a \<noteq> 0 \<and> a = b then u_strcmp p q else Some (uint a - uint b))"
| "u_strcmp _ _ = None"

fun u_strlen_loop :: "byte list \<Rightarrow> uint \<Rightarrow> uint option" where
  "u_strlen_loop [] n = None"
| "u_strlen_loop (c # s) n = (if c = 0 then Some n else u_strlen_loop s (n + 1))"

definition u_strlen :: "byte list \<Rightarrow> uint option" where
  "u_strlen s = u_strlen_loop s 0"

fun u_memset :: "byte list \<Rightarrow> byte \<Rightarrow> nat \<Rightarrow> byte list option" where
  "u_memset dst c 0 = Some dst"
| "u_memset (_ # dst) c (Suc n) = map_option (\<lambda>r. c # r) (u_memset dst c n)"
| "u_memset [] c (Suc n) = None"

text \<open>\<open>strchr\<close>: the distance to the first \<open>c\<close>, or \<open>Some None\<close> for the null pointer.\<close>

fun u_strchr :: "byte list \<Rightarrow> byte \<Rightarrow> nat option option" where
  "u_strchr [] c = None"
| "u_strchr (x # s) c =
     (if x = 0 then Some None
      else if x = c then Some (Some 0)
      else map_option (map_option Suc) (u_strchr s c))"

text \<open>\<open>gets\<close>: \<open>inp\<close> is what standard input still holds; the result is the buffer and the input that is left.\<close>

fun u_gets_loop :: "byte list \<Rightarrow> byte list \<Rightarrow> nat \<Rightarrow> nat \<Rightarrow> byte list \<Rightarrow> (byte list \<times> byte list) option" where
  "u_gets_loop [] buf i max_len got = Some (got, [])"
| "u_gets_loop (c # inp) buf i max_len got =
     (if i + 1 < max_len then
        (if i < length buf then
           (if c = 10 \<or> c = 13 then Some (got @ [c], inp) else u_gets_loop inp buf (i + 1) max_len (got @ [c]))
         else None)
      else Some (got, c # inp))"

definition u_gets :: "byte list \<Rightarrow> byte list \<Rightarrow> nat \<Rightarrow> (byte list \<times> byte list) option" where
  "u_gets inp buf max_len =
     (case u_gets_loop inp buf 0 max_len [] of None \<Rightarrow> None
      | Some (got, rest) \<Rightarrow>
          if length got < length buf then Some (got @ 0 # drop (length got + 1) buf, rest) else None)"

fun u_atoi_loop :: "byte list \<Rightarrow> uint \<Rightarrow> uint option" where
  "u_atoi_loop [] n = None"
| "u_atoi_loop (c # s) n = (if 0x30 \<le> c \<and> c \<le> 0x39 then u_atoi_loop s (n * 10 + ucast c - 0x30) else Some n)"

definition u_atoi :: "byte list \<Rightarrow> uint option" where
  "u_atoi s = u_atoi_loop s 0"

fun u_copy_up :: "byte list \<Rightarrow> nat \<Rightarrow> nat \<Rightarrow> nat \<Rightarrow> byte list option" where
  "u_copy_up m dst src 0 = Some m"
| "u_copy_up m dst src (Suc n) =
     (if src < length m \<and> dst < length m then u_copy_up (m[dst := m ! src]) (dst + 1) (src + 1) n else None)"

fun u_copy_down :: "byte list \<Rightarrow> nat \<Rightarrow> nat \<Rightarrow> nat \<Rightarrow> byte list option" where
  "u_copy_down m dst src 0 = Some m"
| "u_copy_down m dst src (Suc n) =
     (if src - 1 < length m \<and> dst - 1 < length m then u_copy_down (m[dst - 1 := m ! (src - 1)]) (dst - 1) (src - 1) n else None)"

definition u_memmove :: "byte list \<Rightarrow> nat \<Rightarrow> nat \<Rightarrow> nat \<Rightarrow> byte list option" where
  "u_memmove m dst src n = (if src > dst then u_copy_up m dst src n else u_copy_down m (dst + n) (src + n) n)"

fun u_memcmp :: "byte list \<Rightarrow> byte list \<Rightarrow> nat \<Rightarrow> int option" where
  "u_memcmp s1 s2 0 = Some 0"
| "u_memcmp (a # s1) (b # s2) (Suc n) = (if a \<noteq> b then Some (uint a - uint b) else u_memcmp s1 s2 n)"
| "u_memcmp _ _ (Suc n) = None"

definition u_memcpy :: "byte list \<Rightarrow> nat \<Rightarrow> nat \<Rightarrow> nat \<Rightarrow> byte list option" where
  "u_memcpy m dst src n = u_memmove m dst src n"

section \<open>Strings\<close>

lemma u_strchr_hit: "0 \<notin> set l \<Longrightarrow> c \<notin> set l \<Longrightarrow> c \<noteq> 0 \<Longrightarrow> u_strchr (l @ c # r) c = Some (Some (length l))"
  by (induction l) auto

lemma u_strchr_miss: "0 \<notin> set l \<Longrightarrow> c \<notin> set l \<Longrightarrow> u_strchr (l @ 0 # r) c = Some None"
  by (induction l) auto

lemma u_strchr_less: "u_strchr s c = Some (Some k) \<Longrightarrow> k < length s"
  by (induction s arbitrary: k) (auto split: if_splits)

section \<open>memmove\<close>

text \<open>The two loops, on the byte at position \<open>i\<close>.\<close>

lemma u_copy_up_nth:
  assumes "dst < src" "src + n \<le> length m"
  shows "\<exists>r. u_copy_up m dst src n = Some r \<and> length r = length m \<and>
    (\<forall>i < length m. r ! i = (if dst \<le> i \<and> i < dst + n then m ! (src + (i - dst)) else m ! i))"
  using assms
proof (induction n arbitrary: m dst src)
  case 0
  then show ?case by auto
next
  case (Suc n)
  let ?m = "m[dst := m ! src]"
  obtain r where r: "u_copy_up ?m (dst + 1) (src + 1) n = Some r" "length r = length m"
    "\<forall>i < length m. r ! i = (if dst + 1 \<le> i \<and> i < dst + 1 + n then ?m ! (src + 1 + (i - (dst + 1))) else ?m ! i)"
    using Suc.IH [of "dst + 1" "src + 1" ?m] Suc.prems by auto
  have "r ! i = (if dst \<le> i \<and> i < dst + Suc n then m ! (src + (i - dst)) else m ! i)" if "i < length m" for i
  proof (cases "i = dst")
    case True
    then show ?thesis using r(3) that by simp
  next
    case False
    have "src + 1 + (i - (dst + 1)) = src + (i - dst)" if "dst < i" using that by simp
    then show ?thesis using r(3) that False Suc.prems(1) by auto
  qed
  then show ?case using r Suc.prems by auto
qed

lemma u_copy_down_nth:
  assumes "src \<le> dst" "dst + n \<le> length m"
  shows "\<exists>r. u_copy_down m (dst + n) (src + n) n = Some r \<and> length r = length m \<and>
    (\<forall>i < length m. r ! i = (if dst \<le> i \<and> i < dst + n then m ! (src + (i - dst)) else m ! i))"
  using assms
proof (induction n arbitrary: m)
  case 0
  then show ?case by auto
next
  case (Suc n)
  let ?m = "m[dst + n := m ! (src + n)]"
  obtain r where r: "u_copy_down ?m (dst + n) (src + n) n = Some r" "length r = length m"
    "\<forall>i < length m. r ! i = (if dst \<le> i \<and> i < dst + n then ?m ! (src + (i - dst)) else ?m ! i)"
    using Suc.IH [of ?m] Suc.prems by auto
  have "r ! i = (if dst \<le> i \<and> i < dst + Suc n then m ! (src + (i - dst)) else m ! i)" if "i < length m" for i
    using r(3) that Suc.prems by (auto simp: nth_list_update less_Suc_eq)
  then show ?case using r Suc.prems by auto
qed

lemma u_memmove_aux:
  assumes "src + n \<le> length m" "dst + n \<le> length m"
  shows "u_memmove m dst src n = Some (take dst m @ take n (drop src m) @ drop (dst + n) m)"
proof -
  obtain r where r: "u_memmove m dst src n = Some r" "length r = length m"
    "\<forall>i < length m. r ! i = (if dst \<le> i \<and> i < dst + n then m ! (src + (i - dst)) else m ! i)"
    using u_copy_up_nth [of dst src n m] u_copy_down_nth [of src dst n m] assms
    unfolding u_memmove_def by (cases "dst < src") auto
  have "r = take dst m @ take n (drop src m) @ drop (dst + n) m"
    by (rule nth_equalityI) (use assms r(2,3) in \<open>auto simp: nth_append\<close>)
  then show ?thesis using r(1) by simp
qed

text \<open>
  C37. \<open>memmove\<close> copies as if through a second buffer, whether and however the two ranges overlap, and leaves the
  rest of the array as it was.
\<close>

theorem u_memmove_copies:
  assumes "src + n \<le> length m" "dst + n \<le> length m"
  shows "u_memmove m dst src n = Some (take dst m @ take n (drop src m) @ drop (dst + n) m)"
  using assms by (rule u_memmove_aux)

theorem u_memmove_copies_witness: "u_memmove [1, 2, 3, 4, 5] 1 0 3 = Some [1, 1, 2, 3, 5]"
  using u_memmove_copies [of 0 3 "[1, 2, 3, 4, 5]" 1] by simp

end
