(* ===== verification/User_Grep.thy ===== *)
theory User_Grep
  imports User_Lib
begin

text \<open>
  The program \<open>grep\<close> (\<^verbatim>\<open>user/grep.c\<close>): the regular expression matcher and the loop that filters the lines of a
  file through a buffer of 1024 bytes. \<open>None\<close> is a read past the end of an array.
\<close>

section \<open>The matcher\<close>

definition CARET :: byte where [simp]: "CARET = 0x5E"
definition STAR :: byte where [simp]: "STAR = 0x2A"
definition DOLLAR :: byte where [simp]: "DOLLAR = 0x24"
definition DOT :: byte where [simp]: "DOT = 0x2E"
definition NEWLINE :: byte where [simp]: "NEWLINE = 10"

function (sequential) matchhere :: "byte list \<Rightarrow> byte list \<Rightarrow> bool option"
  and matchstar :: "byte \<Rightarrow> byte list \<Rightarrow> byte list \<Rightarrow> bool option" where
  "matchhere [] text = None"
| "matchhere (r # re) text =
     (if r = 0 then Some True else
      case re of [] \<Rightarrow> None
      | r1 # re2 \<Rightarrow>
          if r1 = STAR then matchstar r re2 text
          else if r = DOLLAR \<and> r1 = 0 then (case text of [] \<Rightarrow> None | t # _ \<Rightarrow> Some (t = 0))
          else case text of [] \<Rightarrow> None
               | t # text1 \<Rightarrow> if t \<noteq> 0 \<and> (r = DOT \<or> r = t) then matchhere re text1 else Some False)"
| "matchstar c re text =
     (case matchhere re text of
        None \<Rightarrow> None
      | Some found \<Rightarrow>
          if found then Some True
          else case text of [] \<Rightarrow> None
               | t # text1 \<Rightarrow> if t \<noteq> 0 \<and> (t = c \<or> c = DOT) then matchstar c re text1 else Some False)"
  by pat_completeness auto
termination
  by (relation "measure (\<lambda>x. case x of Inl (re, text) \<Rightarrow> 2 * (length re + length text) | Inr (c, re, text) \<Rightarrow> 2 * (length re + length text) + 1)") auto

fun match_loop :: "byte list \<Rightarrow> byte list \<Rightarrow> bool option" where
  "match_loop re text =
     (case matchhere re text of
        None \<Rightarrow> None
      | Some found \<Rightarrow>
          if found then Some True
          else case text of [] \<Rightarrow> None | t # text1 \<Rightarrow> if t \<noteq> 0 then match_loop re text1 else Some False)"

definition match :: "byte list \<Rightarrow> byte list \<Rightarrow> bool option" where
  "match re text =
     (case re of [] \<Rightarrow> None | r # re1 \<Rightarrow> if r = CARET then matchhere re1 text else match_loop re text)"

declare match_loop.simps [simp del] matchstar.simps [simp del]

section \<open>What a pattern means\<close>

datatype item = One byte | Many byte | End

fun items :: "byte list \<Rightarrow> item list" where
  "items [] = []"
| "items [r] = (if r = DOLLAR then [End] else [One r])"
| "items (r # r1 # re) = (if r1 = STAR then Many r # items re else One r # items (r1 # re))"

definition fits :: "byte \<Rightarrow> byte \<Rightarrow> bool" where
  "fits c t \<longleftrightarrow> c = DOT \<or> c = t"

text \<open>\<open>denotes is u v\<close>: the items match the string \<open>u\<close> when \<open>v\<close> follows it.\<close>

inductive denotes :: "item list \<Rightarrow> byte list \<Rightarrow> byte list \<Rightarrow> bool" where
  den_Nil: "denotes [] [] v"
| den_One: "fits c t \<Longrightarrow> denotes is u v \<Longrightarrow> denotes (One c # is) (t # u) v"
| den_Many: "\<forall>x \<in> set w. fits c x \<Longrightarrow> denotes is u v \<Longrightarrow> denotes (Many c # is) (w @ u) v"
| den_End: "denotes [End] [] []"

inductive_cases den_NilE: "denotes [] u v"
inductive_cases den_OneE: "denotes (One c # is) u v"
inductive_cases den_ManyE: "denotes (Many c # is) u v"
inductive_cases den_EndE: "denotes (End # is) u v"

definition here :: "item list \<Rightarrow> byte list \<Rightarrow> bool" where
  "here is t \<longleftrightarrow> (\<exists>u v. t = u @ v \<and> denotes is u v)"

definition matches :: "byte list \<Rightarrow> byte list \<Rightarrow> bool" where
  "matches p t \<longleftrightarrow> (case p of r # q \<Rightarrow> if r = CARET then here (items q) t else (\<exists>w t'. t = w @ t' \<and> here (items p) t')
     | [] \<Rightarrow> (\<exists>w t'. t = w @ t' \<and> here (items p) t'))"

lemma here_Nil: "here [] t"
  by (auto simp: here_def intro: den_Nil)

lemma here_One: "here (One c # is) t \<longleftrightarrow> (\<exists>x t'. t = x # t' \<and> fits c x \<and> here is t')"
proof
  assume "here (One c # is) t"
  then show "\<exists>x t'. t = x # t' \<and> fits c x \<and> here is t'" by (fastforce simp: here_def elim!: den_OneE)
next
  assume "\<exists>x t'. t = x # t' \<and> fits c x \<and> here is t'"
  then obtain x u v where "t = (x # u) @ v" "fits c x" "denotes is u v" by (auto simp: here_def)
  then show "here (One c # is) t" using den_One unfolding here_def by blast
qed

lemma here_End: "here [End] t \<longleftrightarrow> t = []"
  by (auto simp: here_def elim!: den_EndE intro: den_End)

lemma here_Many: "here (Many c # is) t \<longleftrightarrow> here is t \<or> (\<exists>x t'. t = x # t' \<and> fits c x \<and> here (Many c # is) t')"
proof
  assume "here (Many c # is) t"
  then obtain w u v where t: "t = (w @ u) @ v" "\<forall>x \<in> set w. fits c x" "denotes is u v" by (auto simp: here_def elim!: den_ManyE)
  show "here is t \<or> (\<exists>x t'. t = x # t' \<and> fits c x \<and> here (Many c # is) t')"
  proof (cases w)
    case Nil
    then show ?thesis using t by (auto simp: here_def)
  next
    case (Cons x w')
    then have "denotes (Many c # is) (w' @ u) v" using t by (intro den_Many) auto
    then have "here (Many c # is) ((w' @ u) @ v)" unfolding here_def by blast
    then show ?thesis using t Cons by simp
  qed
next
  assume "here is t \<or> (\<exists>x t'. t = x # t' \<and> fits c x \<and> here (Many c # is) t')"
  then show "here (Many c # is) t"
  proof
    assume "here is t"
    then show ?thesis using den_Many [of "[]" c "is"] by (auto simp: here_def)
  next
    assume "\<exists>x t'. t = x # t' \<and> fits c x \<and> here (Many c # is) t'"
    then obtain x w u v where t: "t = x # (w @ u) @ v" "fits c x" "\<forall>y \<in> set w. fits c y" "denotes is u v"
      by (auto simp: here_def elim!: den_ManyE)
    then have "denotes (Many c # is) ((x # w) @ u) v" by (intro den_Many) auto
    then have "here (Many c # is) (((x # w) @ u) @ v)" unfolding here_def by blast
    then show ?thesis using t(1) by simp
  qed
qed

lemma matchstar_here:
  assumes mh: "\<And>t. 0 \<notin> set t \<Longrightarrow> matchhere re (t @ 0 # y) = Some (here is t)" and "0 \<notin> set t"
  shows "matchstar c re (t @ 0 # y) = Some (here (Many c # is) t)"
  using assms(2)
proof (induction t)
  case Nil
  then show ?case using mh [of "[]"] here_Many [of c "is" "[]"] by (simp add: matchstar.simps)
next
  case (Cons x t)
  then show ?case using mh [of "x # t"] here_Many [of c "is" "x # t"] by (auto simp: matchstar.simps [of c re "x # t @ 0 # y"] fits_def)
qed

lemma matchhere_items:
  assumes "0 \<notin> set p" "0 \<notin> set t"
  shows "matchhere (p @ 0 # x) (t @ 0 # y) = Some (here (items p) t)"
  using assms
proof (induction p arbitrary: t rule: items.induct)
  case 1
  then show ?case by (simp add: here_Nil)
next
  case (2 r)
  then show ?case by (cases t) (auto simp: here_End here_One here_Nil fits_def)
next
  case (3 r r1 re)
  show ?case
  proof (cases "r1 = STAR")
    case True
    then have "\<And>t. 0 \<notin> set t \<Longrightarrow> matchhere (re @ 0 # x) (t @ 0 # y) = Some (here (items re) t)" using 3 by simp
    from matchstar_here [OF this] show ?thesis using True 3 by simp
  next
    case False
    then have "\<And>t. 0 \<notin> set t \<Longrightarrow> matchhere ((r1 # re) @ 0 # x) (t @ 0 # y) = Some (here (items (r1 # re)) t)" using 3 by simp
    then show ?thesis using False 3 by (cases t) (auto simp: here_One fits_def)
  qed
qed

lemma match_loop_items:
  assumes "0 \<notin> set p" "0 \<notin> set t"
  shows "match_loop (p @ 0 # x) (t @ 0 # y) = Some (\<exists>w t'. t = w @ t' \<and> here (items p) t')"
  using assms(2)
proof (induction t)
  case Nil
  then show ?case using matchhere_items [OF assms(1), of "[]" x y] by (simp add: match_loop.simps)
next
  case (Cons c t)
  have "(\<exists>w t'. c # t = w @ t' \<and> here (items p) t') \<longleftrightarrow> here (items p) (c # t) \<or> (\<exists>w t'. t = w @ t' \<and> here (items p) t')"
    by (auto simp: Cons_eq_append_conv)
  then show ?case using Cons matchhere_items [OF assms(1), of "c # t" x y] by (simp add: match_loop.simps [of _ "c # t @ 0 # y"])
qed

lemma match_matches_aux:
  assumes "0 \<notin> set p" "0 \<notin> set t"
  shows "match (p @ 0 # x) (t @ 0 # y) = Some (matches p t)"
proof (cases p)
  case Nil
  then show ?thesis using match_loop_items [OF assms, of x y] by (simp add: match_def matches_def)
next
  case (Cons r q)
  then show ?thesis using match_loop_items [OF assms, of x y] matchhere_items [of q t x y] assms by (auto simp: match_def matches_def)
qed

section \<open>The loop over the lines\<close>

definition GREP_BUF :: nat where [simp]: "GREP_BUF = 1024"

text \<open>
  The loop over the lines in the buffer, from position \<open>p\<close>: the buffer, the position after the last newline and
  what is written to standard output.
\<close>

function grep_lines :: "byte list \<Rightarrow> byte list \<Rightarrow> nat \<Rightarrow> byte list \<Rightarrow> (byte list \<times> nat \<times> byte list) option" where
  "grep_lines pattern buf p out =
     (case u_strchr (drop p buf) NEWLINE of
        None \<Rightarrow> None
      | Some None \<Rightarrow> Some (buf, p, out)
      | Some (Some k) \<Rightarrow>
          let q = p + k; buf' = buf[q := 0] in
          (case match pattern (drop p buf') of
             None \<Rightarrow> None
           | Some found \<Rightarrow>
               if found then grep_lines pattern (buf'[q := NEWLINE]) (q + 1) (out @ take (q + 1 - p) (drop p (buf'[q := NEWLINE])))
               else grep_lines pattern buf' (q + 1) out))"
  by pat_completeness auto

termination
  by (relation "measure (\<lambda>(pattern, buf, p, out). length buf - p)") (auto dest!: u_strchr_less)

declare grep_lines.simps [simp del]

text \<open>
  The loop over the reads. \<open>inp\<close> is what is left of the file, and \<open>got inp n\<close> the number of bytes \<open>read\<close> delivers when
  it is asked for \<open>n\<close> of them.
\<close>

function grep :: "(byte list \<Rightarrow> nat \<Rightarrow> nat) \<Rightarrow> byte list \<Rightarrow> byte list \<Rightarrow> byte list \<Rightarrow> nat \<Rightarrow> byte list \<Rightarrow> byte list option" where
  "grep got pattern inp buf m out =
     (let chunk = take (min (got inp (GREP_BUF - m - 1)) (GREP_BUF - m - 1)) inp; n = length chunk in
      if n = 0 then Some out else
      let m1 = m + n; buf1 = (take m buf @ chunk @ drop m1 buf)[m1 := 0] in
      case grep_lines pattern buf1 0 out of
        None \<Rightarrow> None
      | Some (buf2, p, out2) \<Rightarrow>
          let m2 = m1 - p in
          (case u_memmove buf2 0 p m2 of None \<Rightarrow> None | Some buf3 \<Rightarrow> grep got pattern (drop n inp) buf3 m2 out2))"
  by pat_completeness auto
termination
proof (relation "measure (\<lambda>(got, pattern, inp, buf, m, out). length inp)", goal_cases)
  case 1
  show ?case by simp
next
  case (2 got pattern inp buf m out chunk n)
  have "0 < n" "n \<le> length inp" using 2(1,2,3) by simp_all
  then show ?case by simp
qed

declare grep.simps [simp del]

text \<open>
  What the program should print: the complete lines of the file that match, in order. \<open>split_lines r bs\<close> gives the lines of
  \<open>r @ bs\<close> and the rest after the last newline.
\<close>

fun split_lines :: "byte list \<Rightarrow> byte list \<Rightarrow> byte list list \<times> byte list" where
  "split_lines r [] = ([], r)"
| "split_lines r (c # bs) = (if c = NEWLINE then (let (ls, r') = split_lines [] bs in (r # ls, r')) else split_lines (r @ [c]) bs)"

definition lines_of :: "byte list \<Rightarrow> byte list list" where
  "lines_of bs = fst (split_lines [] bs)"

definition printed :: "byte list \<Rightarrow> byte list list \<Rightarrow> byte list" where
  "printed p ls = concat (map (\<lambda>l. l @ [NEWLINE]) (filter (matches p) ls))"

lemma split_append: "split_lines r (xs @ ys) = (fst (split_lines r xs) @ fst (split_lines (snd (split_lines r xs)) ys), snd (split_lines (snd (split_lines r xs)) ys))"
  by (induction r xs rule: split_lines.induct) (auto simp: split_beta Let_def)

lemma split_plain: "NEWLINE \<notin> set xs \<Longrightarrow> split_lines r xs = ([], r @ xs)"
  by (induction xs arbitrary: r) auto

lemma split_line: "NEWLINE \<notin> set l \<Longrightarrow> split_lines [] (l @ NEWLINE # ys) = (l # fst (split_lines [] ys), snd (split_lines [] ys))"
  by (simp add: split_append split_plain split_beta Let_def)

lemma split_rest: "NEWLINE \<notin> set r \<Longrightarrow> NEWLINE \<notin> set (snd (split_lines r xs)) \<and> set (snd (split_lines r xs)) \<subseteq> set r \<union> set xs \<and> length (snd (split_lines r xs)) \<le> length r + length xs"
  by (induction r xs rule: split_lines.induct) (auto simp: split_beta Let_def)

lemma grep_lines_run:
  assumes "0 \<notin> set pat" "0 \<notin> set xs"
  shows "\<exists>pre'. grep_lines (pat @ 0 # z) (pre @ xs @ 0 # post) (length pre) out =
    Some (pre' @ snd (split_lines [] xs) @ 0 # post, length pre', out @ printed pat (fst (split_lines [] xs))) \<and>
    length pre' + length (snd (split_lines [] xs)) = length pre + length xs"
  using assms(2)
proof (induction "length xs" arbitrary: xs pre out rule: less_induct)
  case less
  show ?case
  proof (cases "NEWLINE \<in> set xs")
    case False
    then have "u_strchr (xs @ 0 # post) NEWLINE = Some None" using less.prems by (intro u_strchr_miss) auto
    then show ?thesis using False by (auto simp: grep_lines.simps [of _ "pre @ xs @ 0 # post"] split_plain printed_def)
  next
    case True
    then obtain l ys where xs: "xs = l @ NEWLINE # ys" "NEWLINE \<notin> set l" using split_list_first by metis
    have z: "0 \<notin> set l" "0 \<notin> set ys" using less.prems xs by auto
    let ?rest = "ys @ 0 # post"
    let ?b = "pre @ l @ 0 # ?rest"
    have q: "u_strchr (l @ NEWLINE # ?rest) NEWLINE = Some (Some (length l))" using xs z by (intro u_strchr_hit) auto
    have m: "match (pat @ 0 # z) (l @ 0 # ?rest) = Some (matches pat l)" by (rule match_matches_aux [OF assms(1) z(1)])
    have upd: "(pre @ l @ NEWLINE # ?rest)[length pre + length l := c] = (pre @ l @ [c]) @ ?rest" for c
      using list_update_append [of "pre @ l" "NEWLINE # ?rest" "length (pre @ l)" c] by simp
    have upd': "?b[length pre + length l := NEWLINE] = (pre @ l @ [NEWLINE]) @ ?rest"
      using list_update_append [of "pre @ l" "0 # ?rest" "length (pre @ l)" NEWLINE] by simp
    have run: "grep_lines (pat @ 0 # z) (pre @ xs @ 0 # post) (length pre) out =
      grep_lines (pat @ 0 # z) ((pre @ l @ [if matches pat l then NEWLINE else 0]) @ ys @ 0 # post)
        (length (pre @ l @ [if matches pat l then NEWLINE else 0])) (out @ (if matches pat l then l @ [NEWLINE] else []))"
      using q m upd upd' by (subst grep_lines.simps) (simp add: xs Let_def)
    have len: "length ys < length xs" by (simp add: xs)
    obtain pre' where p: "grep_lines (pat @ 0 # z) (pre @ xs @ 0 # post) (length pre) out =
        Some (pre' @ snd (split_lines [] ys) @ 0 # post, length pre', (out @ (if matches pat l then l @ [NEWLINE] else [])) @ printed pat (fst (split_lines [] ys)))"
      "length pre' + length (snd (split_lines [] ys)) = length (pre @ l @ [if matches pat l then NEWLINE else 0]) + length ys"
      using less.hyps [OF len z(2)] unfolding run by blast
    have ce: "split_lines [] xs = (l # fst (split_lines [] ys), snd (split_lines [] ys))" using split_line [OF xs(2)] xs(1) by simp
    have "length xs = length l + 1 + length ys" using xs(1) by simp
    then show ?thesis using p by (intro exI [of _ pre']) (simp add: ce printed_def)
  qed
qed

lemma grep_run:
  assumes pat: "0 \<notin> set pat" and got: "\<And>inp n. inp \<noteq> [] \<Longrightarrow> 0 < n \<Longrightarrow> 0 < got inp n"
    and "length buf = GREP_BUF" "take m buf = r" "length r = m" "m < GREP_BUF" "0 \<notin> set r" "NEWLINE \<notin> set r" "0 \<notin> set inp"
    and "\<forall>l \<in> set (fst (split_lines r inp)). length l < GREP_BUF - 1"
  shows "grep got (pat @ 0 # z) inp buf m out = Some (out @ printed pat (fst (split_lines r inp)))"
  using assms(3-)
proof (induction "length inp" arbitrary: inp buf m r out rule: less_induct)
  case less
  let ?size = "GREP_BUF - m - 1"
  let ?n = "min (got inp ?size) ?size"
  show ?case
  proof (cases "take ?n inp = []")
    case True
    have "fst (split_lines r inp) = []"
    proof (cases "inp = []")
      case False
      have "?size = 0"
      proof (rule ccontr)
        assume n: "?size \<noteq> 0"
        then have "0 < got inp ?size" by (intro got False) simp
        then show False using True False n by simp
      qed
      then have m: "m = GREP_BUF - 1" using less.prems(4) by simp
      show ?thesis
      proof (cases "NEWLINE \<in> set inp")
        case True
        then obtain l ys where "inp = l @ NEWLINE # ys" "NEWLINE \<notin> set l" using split_list_first by metis
        then have "r @ l \<in> set (fst (split_lines r inp))" by (simp add: split_append split_plain split_beta Let_def)
        then show ?thesis using less.prems(3,8) m by fastforce
      qed (simp add: split_plain)
    qed simp
    then show ?thesis using True by (simp add: grep.simps [of _ _ inp] printed_def Let_def)
  next
    case False
    define c where "c = take ?n inp"
    define inp' where "inp' = drop ?n inp"
    have io: "inp = c @ inp'" "c \<noteq> []" using False by (simp_all only: c_def inp'_def append_take_drop_id not_False_eq_True)
    have dr: "drop (length c) inp = inp'" using io(1) by simp
    have cl: "length c \<le> ?size" by (simp add: c_def)
    let ?post = "drop (m + length c + 1) buf"
    have "(take m buf @ c @ drop (m + length c) buf)[m + length c := 0] = r @ c @ 0 # ?post"
    proof -
      have "m + length c < length buf" using cl less.prems(1,4) by simp
      then have "drop (m + length c) buf = buf ! (m + length c) # ?post" by (simp add: Cons_nth_drop_Suc)
      then show ?thesis using less.prems(2,3) by (simp add: list_update_append)
    qed
    note eq = this
    have run: "grep got (pat @ 0 # z) inp buf m out = (case grep_lines (pat @ 0 # z) (r @ c @ 0 # ?post) 0 out of
        None \<Rightarrow> None | Some (buf2, p, out2) \<Rightarrow>
          (case u_memmove buf2 0 p (m + length c - p) of None \<Rightarrow> None | Some buf3 \<Rightarrow> grep got (pat @ 0 # z) inp' buf3 (m + length c - p) out2))"
      unfolding grep.simps [of got "pat @ 0 # z" inp buf m out] Let_def c_def [symmetric]
      by (simp only: eq dr length_0_conv io(2) if_False)
    have z: "0 \<notin> set (r @ c)" using less.prems(5,7) io by auto
    have ct: "split_lines [] (r @ c) = split_lines r c" using less.prems(6) by (simp add: split_append split_plain)
    let ?r = "snd (split_lines r c)"
    obtain pre' where p: "grep_lines (pat @ 0 # z) (r @ c @ 0 # ?post) 0 out = Some (pre' @ ?r @ 0 # ?post, length pre', out @ printed pat (fst (split_lines r c)))"
      "length pre' + length ?r = length r + length c"
      using grep_lines_run [OF pat z, of z "[]" ?post out] ct by auto
    let ?buf2 = "pre' @ ?r @ 0 # ?post"
    have m2: "m + length c - length pre' = length ?r" using p(2) less.prems(3) by simp
    have bl: "length ?buf2 = GREP_BUF" using p(2) less.prems(1,3,4) cl by simp
    have mv: "u_memmove ?buf2 0 (length pre') (length ?r) = Some (?r @ drop (length ?r) ?buf2)"
      using u_memmove_aux [of "length pre'" "length ?r" ?buf2 0] by simp
    note cr = split_rest [OF less.prems(6), of c]
    have "grep got (pat @ 0 # z) inp' (?r @ drop (length ?r) ?buf2) (length ?r) (out @ printed pat (fst (split_lines r c))) =
      Some ((out @ printed pat (fst (split_lines r c))) @ printed pat (fst (split_lines ?r inp')))"
      using io bl cr cl less.prems by (intro less.hyps) (auto simp: split_append)
    then show ?thesis using run p(1) m2 mv io by (simp add: split_append printed_def)
  qed
qed

section \<open>Properties\<close>

text \<open>
  C9. \<open>match\<close> returns for every pattern and text, reads neither past its end, and decides whether the pattern, as a
  sequence of literal characters, dots, starred characters and a final dollar, matches at the start of the text
  when it begins with a caret, and anywhere in the text otherwise.
\<close>

theorem match_matches:
  assumes "0 \<notin> set p" "0 \<notin> set t"
  shows "match (p @ 0 # x) (t @ 0 # y) = Some (matches p t)"
  using assms by (rule match_matches_aux)

theorem match_matches_witness: "matches [0x61, 0x2A, 0x62, 0x24] [0x63, 0x61, 0x61, 0x62]"
proof -
  have "match ([0x61, 0x2A, 0x62, 0x24] @ 0 # []) ([0x63, 0x61, 0x61, 0x62] @ 0 # []) = Some True" by code_simp
  then show ?thesis using match_matches [of "[0x61, 0x2A, 0x62, 0x24]" "[0x63, 0x61, 0x61, 0x62]" "[]" "[]"] by simp
qed

text \<open>
  C10. \<open>grep\<close> ends and prints the complete lines of the file that match, in order and unchanged, however \<open>read\<close>
  splits the file, when the lines fit in the buffer and neither they nor the pattern contain a zero byte. What
  follows the last newline is not printed.
\<close>

theorem grep_prints_matching_lines:
  assumes "0 \<notin> set pat" "0 \<notin> set inp" "\<forall>inp n. inp \<noteq> [] \<and> 0 < n \<longrightarrow> 0 < got inp n"
    "length buf = GREP_BUF" "\<forall>l \<in> set (lines_of inp). length l < GREP_BUF - 1"
  shows "grep got (pat @ 0 # z) inp buf 0 [] = Some (concat (map (\<lambda>l. l @ [NEWLINE]) (filter (matches pat) (lines_of inp))))"
  using grep_run [of pat got buf 0 "[]" inp z "[]"] assms by (simp add: printed_def lines_of_def)

theorem grep_prints_matching_lines_witness:
  "grep (\<lambda>_ _. 2) [0x61, 0] [0x61, 0x62, 10, 0x62, 10, 0x61] (replicate 1024 0) 0 [] = Some [0x61, 0x62, 10]"
proof -
  have l: "lines_of [0x61, 0x62, 10, 0x62, 10, 0x61] = [[0x61, 0x62], [0x62]]" by (simp add: lines_of_def)
  have "match ([0x61] @ 0 # []) ([0x61, 0x62] @ 0 # []) = Some True" "match ([0x61] @ 0 # []) ([0x62] @ 0 # []) = Some False" by code_simp+
  then have m: "matches [0x61] [0x61, 0x62]" "\<not> matches [0x61] [0x62]"
    using match_matches_aux [of "[0x61]" "[0x61, 0x62]" "[]" "[]"] match_matches_aux [of "[0x61]" "[0x62]" "[]" "[]"] by simp_all
  have "grep (\<lambda>_ _. 2) ([0x61] @ 0 # []) [0x61, 0x62, 10, 0x62, 10, 0x61] (replicate 1024 0) 0 [] =
    Some (concat (map (\<lambda>l. l @ [NEWLINE]) (filter (matches [0x61]) (lines_of [0x61, 0x62, 10, 0x62, 10, 0x61]))))"
    by (rule grep_prints_matching_lines) (simp_all add: l)
  then show ?thesis by (simp add: l m)
qed

end
