(* ===== verification/User_Printf.thy ===== *)
theory User_Printf
  imports User_Lib
begin

text \<open>
  Formatted output of the user programs (\<^verbatim>\<open>user/printf.c\<close>) as the bytes it writes, one \<open>write\<close> for each. \<open>None\<close> is a
  format that consumes an argument that was not passed with the type it asks for, or a string without an end.
\<close>

section \<open>Definitions\<close>

definition u_digits :: "byte list" where
  "u_digits = [0x30, 0x31, 0x32, 0x33, 0x34, 0x35, 0x36, 0x37, 0x38, 0x39, 0x41, 0x42, 0x43, 0x44, 0x45, 0x46]"

text \<open>The \<open>do\<close> loop of \<open>printint\<close>: the digits of \<open>x\<close>, lowest first.\<close>

function u_printint_digits :: "nat \<Rightarrow> nat \<Rightarrow> byte list" where
  "u_printint_digits x base =
     u_digits ! (x mod base) # (if x div base \<noteq> 0 \<and> 1 < base then u_printint_digits (x div base) base else [])"
  by pat_completeness auto
termination
  by (relation "measure fst") (auto, metis div_0 div_less_dividend gr0I less_numeral_extra(3) One_nat_def)

declare u_printint_digits.simps [simp del]

definition u_printint :: "uint \<Rightarrow> nat \<Rightarrow> bool \<Rightarrow> byte list" where
  "u_printint xx base sign =
     (let neg = sign \<and> sint xx < 0; x = (if neg then - xx else xx) in
      rev (u_printint_digits (unat x) base @ (if neg then [0x2D] else [])))"

definition u_printptr :: "uint64 \<Rightarrow> byte list" where
  "u_printptr x = [0x30, 0x78] @ map (\<lambda>i. u_digits ! unat (drop_bit 60 (push_bit (4 * i) x))) [0..<16]"

datatype u_arg = AInt uint | ALong uint64 | AStr "byte list option"

fun u_string :: "byte list \<Rightarrow> byte list option" where
  "u_string [] = None"
| "u_string (c # s) = (if c = 0 then Some [] else map_option (\<lambda>r. c # r) (u_string s))"

definition u_null :: "byte list" where
  "u_null = [0x28, 0x6E, 0x75, 0x6C, 0x6C, 0x29, 0]"

definition emit :: "byte list \<Rightarrow> byte list option \<Rightarrow> byte list option" where
  "emit bs r = map_option (\<lambda>out. bs @ out) r"

text \<open>\<open>vprintf\<close>; \<open>pct\<close> is the state: whether the character before was a percent sign that starts a directive.\<close>

fun u_vprintf :: "byte list \<Rightarrow> bool \<Rightarrow> u_arg list \<Rightarrow> byte list option" where
  "u_vprintf [] pct ap = None"
| "u_vprintf (c # fmt) pct ap =
     (if c = 0 then Some []
      else if \<not> pct then (if c = 0x25 then u_vprintf fmt True ap else emit [c] (u_vprintf fmt False ap))
      else if c = 0x64 then
        (case ap of AInt n # ap' \<Rightarrow> emit (u_printint n 10 True) (u_vprintf fmt False ap') | _ \<Rightarrow> None)
      else if c = 0x6C then
        (case ap of ALong n # ap' \<Rightarrow> emit (u_printint (ucast n) 10 False) (u_vprintf fmt False ap') | _ \<Rightarrow> None)
      else if c = 0x78 then
        (case ap of AInt n # ap' \<Rightarrow> emit (u_printint n 16 False) (u_vprintf fmt False ap') | _ \<Rightarrow> None)
      else if c = 0x70 then
        (case ap of ALong n # ap' \<Rightarrow> emit (u_printptr n) (u_vprintf fmt False ap') | _ \<Rightarrow> None)
      else if c = 0x73 then
        (case ap of
           AStr s # ap' \<Rightarrow>
             (case u_string (case s of None \<Rightarrow> u_null | Some bs \<Rightarrow> bs) of
                None \<Rightarrow> None
              | Some bs \<Rightarrow> emit bs (u_vprintf fmt False ap'))
         | _ \<Rightarrow> None)
      else if c = 0x63 then
        (case ap of AInt n # ap' \<Rightarrow> emit [ucast n] (u_vprintf fmt False ap') | _ \<Rightarrow> None)
      else if c = 0x25 then emit [c] (u_vprintf fmt False ap)
      else emit [0x25, c] (u_vprintf fmt False ap))"

section \<open>Reading a number back\<close>

lemma u_digit: "n < 10 \<Longrightarrow> 0x30 \<le> u_digits ! n \<and> u_digits ! n \<le> 0x39"
proof -
  have "\<forall>n \<in> set [0..<10]. 0x30 \<le> u_digits ! n \<and> u_digits ! n \<le> 0x39"
    by (simp add: upt_rec u_digits_def)
  then show "n < 10 \<Longrightarrow> 0x30 \<le> u_digits ! n \<and> u_digits ! n \<le> 0x39" by simp
qed

lemma u_digit_value: "n < 10 \<Longrightarrow> (ucast (u_digits ! n) :: uint) = 0x30 + of_nat n"
proof -
  have "\<forall>n \<in> set [0..<10]. (ucast (u_digits ! n) :: uint) = 0x30 + of_nat n" by (simp add: upt_rec u_digits_def)
  then show "n < 10 \<Longrightarrow> (ucast (u_digits ! n) :: uint) = 0x30 + of_nat n" by simp
qed

lemma u_atoi_digits: "u_atoi_loop (rev (u_printint_digits x 10) @ rest) 0 = u_atoi_loop rest (of_nat x)"
proof (induction x arbitrary: rest rule: less_induct)
  case (less x)
  have m: "x mod 10 < 10" by simp
  show ?case
  proof (cases "x div 10 = 0")
    case True
    then have "x mod 10 = x" by simp
    then show ?thesis using True u_digit [OF m] u_digit_value [OF m] by (subst u_printint_digits.simps) simp
  next
    case False
    then have "x div 10 < x" by simp
    note ih = less.IH [OF this, of "u_digits ! (x mod 10) # rest"]
    have "(of_nat (x div 10) * 10 + of_nat (x mod 10) :: uint) = of_nat (x div 10 * 10 + x mod 10)" by (simp only: of_nat_add of_nat_mult of_nat_numeral)
    then have "of_nat (x div 10) * 10 + (0x30 + of_nat (x mod 10)) - 0x30 = (of_nat x :: uint)" by (simp add: algebra_simps)
    then show ?thesis using False ih u_digit [OF m] u_digit_value [OF m]
      by (subst u_printint_digits.simps) simp
  qed
qed

text \<open>
  C38. \<open>atoi\<close> reads back what \<open>printf\<close> prints for \<open>%d\<close>, for every non-negative \<open>int\<close>. Of a negative number it reads
  0, since it does not know the minus sign.
\<close>

theorem printf_atoi_roundtrip:
  "\<exists>out. u_vprintf [0x25, 0x64, 0] False [AInt n] = Some out \<and>
     u_atoi (out @ [0]) = Some (if sint n < 0 then 0 else n)"
proof -
  have "u_atoi (u_printint n 10 True @ [0]) = Some (if sint n < 0 then 0 else n)"
    using u_atoi_digits [of "unat n" "[0]"] by (simp add: u_atoi_def u_printint_def Let_def)
  then show ?thesis by (simp add: emit_def)
qed

end
