(* ===== verification/User_Sh.thy ===== *)
theory User_Sh
  imports User_Lib Xv6_Syscall
begin

text \<open>
  The parser of the shell (\<^verbatim>\<open>user/sh.c\<close>). The line is an array of bytes; the state of the parser is the position \<open>*ps\<close>
  in it, and a string of a command is the pair of positions of its first byte and of the byte after it. \<open>panic\<close>
  prints a message and ends the shell's child. Allocation of the nodes is assumed to succeed.

  The loops and the recursion have fuel; running out of it is \<open>Spins\<close>, and a theorem below shows that it does not
  happen.
\<close>

section \<open>Commands\<close>

datatype 'w scmd =
    ExecCmd "'w list"
  | RedirCmd "'w scmd" 'w uint nat
  | PipeCmd "'w scmd" "'w scmd"
  | ListCmd "'w scmd" "'w scmd"
  | BackCmd "'w scmd"

type_synonym span = "nat \<times> nat"

definition O_RDONLY :: uint where [simp]: "O_RDONLY = 0"

definition MAXARGS :: nat where [simp]: "MAXARGS = 10"

text \<open>Storing an argument in the \<open>execcmd\<close> that \<open>parseredirs\<close> may have wrapped: both names refer to the same node.\<close>

fun add_arg :: "'w scmd \<Rightarrow> 'w \<Rightarrow> 'w scmd" where
  "add_arg (ExecCmd argv) w = ExecCmd (argv @ [w])"
| "add_arg (RedirCmd c file mode fd) w = RedirCmd (add_arg c w) file mode fd"
| "add_arg c w = c"

text \<open>
  \<open>getcmd\<close> after the prompt: the line from standard input, which still holds \<open>inp\<close>, in the cleared buffer, with the
  result 0, or -1 at the end of the input; and the input that is left.
\<close>

definition getcmd :: "byte list \<Rightarrow> byte list \<Rightarrow> nat \<Rightarrow> (int \<times> byte list \<times> byte list) option" where
  "getcmd inp buf nbuf =
     (case u_memset buf 0 nbuf of
        None \<Rightarrow> None
      | Some b \<Rightarrow>
          (case u_gets inp b nbuf of
             None \<Rightarrow> None
           | Some (b', rest) \<Rightarrow> (case b' of [] \<Rightarrow> None | c # _ \<Rightarrow> Some (if c = 0 then - 1 else 0, b', rest))))"

section \<open>The lexer\<close>

definition whitespace :: "byte list" where
  "whitespace = [0x20, 0x09, 0x0D, 0x0A, 0x0B]"

definition symbols :: "byte list" where
  "symbols = [0x3C, 0x7C, 0x3E, 0x26, 0x3B, 0x28, 0x29]"

definition strchr_hit :: "byte list \<Rightarrow> byte \<Rightarrow> bool" where
  "strchr_hit cs c = (case u_strchr (cs @ [0]) c of Some (Some _) \<Rightarrow> True | _ \<Rightarrow> False)"

definition rdb :: "byte list \<Rightarrow> (nat, byte) kmon" where
  "rdb buf = (\<lambda>s. if s < length buf then Done (buf ! s) s else Fault)"

text \<open>\<open>while(s < es && P(*s)) s++;\<close>\<close>

function skip_while :: "(byte \<Rightarrow> bool) \<Rightarrow> byte list \<Rightarrow> nat \<Rightarrow> (nat, unit) kmon" where
  "skip_while P buf es s =
     (if s < es then if s < length buf then if P (buf ! s) then skip_while P buf es (s + 1) else Done () s else Fault
      else Done () s)"
  by pat_completeness auto
termination
  by (relation "measure (\<lambda>(P, buf, es, s). es - s)") auto

declare skip_while.simps [simp del]

definition skip_ws :: "byte list \<Rightarrow> nat \<Rightarrow> (nat, unit) kmon" where
  "skip_ws = skip_while (strchr_hit whitespace)"

text \<open>The \<open>switch\<close> of \<open>gettoken\<close>: the kind of the token that starts with \<open>c\<close>, and the position after it.\<close>

definition token_switch :: "byte list \<Rightarrow> nat \<Rightarrow> byte \<Rightarrow> (nat, byte) kmon" where
  "token_switch buf es c =
     (if c = 0 then ret c
      else if c \<in> {0x7C, 0x28, 0x29, 0x3B, 0x26, 0x3C} then bnd (modify Suc) (\<lambda>_. ret c)
      else if c = 0x3E then
        bnd (modify Suc) (\<lambda>_.
        bnd (rdb buf) (\<lambda>c2.
        if c2 = 0x3E then bnd (modify Suc) (\<lambda>_. ret 0x2B) else ret c))
      else bnd (skip_while (\<lambda>x. \<not> strchr_hit whitespace x \<and> \<not> strchr_hit symbols x) buf es) (\<lambda>_. ret 0x61))"

definition gettoken :: "byte list \<Rightarrow> nat \<Rightarrow> (nat, byte \<times> nat \<times> nat) kmon" where
  "gettoken buf es =
     bnd (skip_ws buf es) (\<lambda>_.
     bnd (gets (\<lambda>s. s)) (\<lambda>q.
     bnd (rdb buf) (\<lambda>c.
     bnd (token_switch buf es c) (\<lambda>tok.
     bnd (gets (\<lambda>s. s)) (\<lambda>eq.
     bnd (skip_ws buf es) (\<lambda>_.
     ret (tok, q, eq)))))))"

definition peek :: "byte list \<Rightarrow> nat \<Rightarrow> byte list \<Rightarrow> (nat, bool) kmon" where
  "peek buf es toks =
     bnd (skip_ws buf es) (\<lambda>_.
     bnd (rdb buf) (\<lambda>c.
     ret (c \<noteq> 0 \<and> strchr_hit toks c)))"

section \<open>The parser\<close>

text \<open>The \<open>switch\<close> of \<open>parseredirs\<close>.\<close>

definition redir_switch :: "byte \<Rightarrow> 'w scmd \<Rightarrow> 'w \<Rightarrow> 'w scmd" where
  "redir_switch tok cmd w =
     (if tok = 0x3C then RedirCmd cmd w O_RDONLY 0
      else if tok = 0x3E then RedirCmd cmd w (O_WRONLY OR O_CREATE OR O_TRUNC) 1
      else if tok = 0x2B then RedirCmd cmd w (O_WRONLY OR O_CREATE) 1
      else cmd)"

fun parseredirs :: "nat \<Rightarrow> span scmd \<Rightarrow> byte list \<Rightarrow> nat \<Rightarrow> (nat, span scmd) kmon" where
  "parseredirs 0 cmd buf es = spins"
| "parseredirs (Suc fuel) cmd buf es =
     bnd (peek buf es [0x3C, 0x3E]) (\<lambda>more.
     if \<not> more then ret cmd else
     bnd (gettoken buf es) (\<lambda>(tok, _, _).
     bnd (gettoken buf es) (\<lambda>(tok2, q, eq).
     if tok2 \<noteq> 0x61 then panic ''missing file for redirection'' else
     parseredirs fuel (redir_switch tok cmd (q, eq)) buf es)))"

text \<open>The loop of \<open>parseexec\<close> over the arguments.\<close>

fun parseargs :: "nat \<Rightarrow> span scmd \<Rightarrow> nat \<Rightarrow> byte list \<Rightarrow> nat \<Rightarrow> (nat, span scmd) kmon" where
  "parseargs 0 r argc buf es = spins"
| "parseargs (Suc fuel) r argc buf es =
     bnd (peek buf es [0x7C, 0x29, 0x26, 0x3B]) (\<lambda>stop.
     if stop then ret r else
     bnd (gettoken buf es) (\<lambda>(tok, q, eq).
     if tok = 0 then ret r
     else if tok \<noteq> 0x61 then panic ''syntax''
     else if argc + 1 \<ge> MAXARGS then panic ''too many args''
     else bnd (parseredirs fuel (add_arg r (q, eq)) buf es) (\<lambda>r'. parseargs fuel r' (argc + 1) buf es)))"

text \<open>The loop of \<open>parseline\<close> over ampersands.\<close>

fun parseback :: "nat \<Rightarrow> span scmd \<Rightarrow> byte list \<Rightarrow> nat \<Rightarrow> (nat, span scmd) kmon" where
  "parseback 0 cmd buf es = spins"
| "parseback (Suc fuel) cmd buf es =
     bnd (peek buf es [0x26]) (\<lambda>more.
     if \<not> more then ret cmd else
     bnd (gettoken buf es) (\<lambda>_.
     parseback fuel (BackCmd cmd) buf es))"

fun parseline :: "nat \<Rightarrow> byte list \<Rightarrow> nat \<Rightarrow> (nat, span scmd) kmon"
  and parsepipe :: "nat \<Rightarrow> byte list \<Rightarrow> nat \<Rightarrow> (nat, span scmd) kmon"
  and parseblock :: "nat \<Rightarrow> byte list \<Rightarrow> nat \<Rightarrow> (nat, span scmd) kmon"
  and parseexec :: "nat \<Rightarrow> byte list \<Rightarrow> nat \<Rightarrow> (nat, span scmd) kmon" where
  "parseline 0 buf es = spins"
| "parseline (Suc fuel) buf es =
     bnd (parsepipe fuel buf es) (\<lambda>cmd.
     bnd (parseback fuel cmd buf es) (\<lambda>cmd.
     bnd (peek buf es [0x3B]) (\<lambda>semi.
     if semi then
       bnd (gettoken buf es) (\<lambda>_.
       bnd (parseline fuel buf es) (\<lambda>rest.
       ret (ListCmd cmd rest)))
     else ret cmd)))"
| "parsepipe 0 buf es = spins"
| "parsepipe (Suc fuel) buf es =
     bnd (parseexec fuel buf es) (\<lambda>cmd.
     bnd (peek buf es [0x7C]) (\<lambda>bar.
     if bar then
       bnd (gettoken buf es) (\<lambda>_.
       bnd (parsepipe fuel buf es) (\<lambda>rest.
       ret (PipeCmd cmd rest)))
     else ret cmd))"
| "parseblock 0 buf es = spins"
| "parseblock (Suc fuel) buf es =
     bnd (peek buf es [0x28]) (\<lambda>opn.
     if \<not> opn then panic ''parseblock'' else
     bnd (gettoken buf es) (\<lambda>_.
     bnd (parseline fuel buf es) (\<lambda>cmd.
     bnd (peek buf es [0x29]) (\<lambda>cls.
     if \<not> cls then panic ''syntax - missing )'' else
     bnd (gettoken buf es) (\<lambda>_.
     parseredirs fuel cmd buf es)))))"
| "parseexec 0 buf es = spins"
| "parseexec (Suc fuel) buf es =
     bnd (peek buf es [0x28]) (\<lambda>opn.
     if opn then parseblock fuel buf es else
     bnd (parseredirs fuel (ExecCmd []) buf es) (\<lambda>r.
     parseargs fuel r 0 buf es))"

text \<open>\<open>nulterminate\<close>: the positions it clears, and the buffer after it; \<open>None\<close> is a write outside the buffer.\<close>

fun nulterminate :: "span scmd \<Rightarrow> byte list \<Rightarrow> byte list option" where
  "nulterminate (ExecCmd argv) buf =
     fold (\<lambda>(q, eq) b. case b of None \<Rightarrow> None | Some bs \<Rightarrow> if eq < length bs then Some (bs[eq := 0]) else None) argv (Some buf)"
| "nulterminate (RedirCmd c (q, eq) mode fd) buf =
     (case nulterminate c buf of None \<Rightarrow> None | Some bs \<Rightarrow> if eq < length bs then Some (bs[eq := 0]) else None)"
| "nulterminate (PipeCmd l r) buf = (case nulterminate l buf of None \<Rightarrow> None | Some bs \<Rightarrow> nulterminate r bs)"
| "nulterminate (ListCmd l r) buf = (case nulterminate l buf of None \<Rightarrow> None | Some bs \<Rightarrow> nulterminate r bs)"
| "nulterminate (BackCmd c) buf = nulterminate c buf"

definition parse_fuel :: "nat \<Rightarrow> nat" where
  "parse_fuel n = 4 * n + 4"

definition parsecmd :: "byte list \<Rightarrow> (nat, span scmd \<times> byte list) kmon" where
  "parsecmd buf =
     (case u_strlen buf of
        None \<Rightarrow> fault
      | Some n \<Rightarrow>
          let es = unat n in
          bnd (modify (\<lambda>_. 0)) (\<lambda>_.
          bnd (parseline (parse_fuel es) buf es) (\<lambda>cmd.
          bnd (peek buf es []) (\<lambda>_.
          bnd (gets (\<lambda>s. s)) (\<lambda>s.
          if s \<noteq> es then panic ''syntax'' else
          case nulterminate cmd buf of None \<Rightarrow> fault | Some buf' \<Rightarrow> ret (cmd, buf'))))))"

section \<open>The parser returns and stays in the line\<close>

text \<open>Total correctness up to a \<open>panic\<close>.\<close>

definition safe :: "('s, 'a) kmon \<Rightarrow> ('a \<Rightarrow> 's \<Rightarrow> bool) \<Rightarrow> 's \<Rightarrow> bool" where
  "safe f Q s = (case f s of Done r t \<Rightarrow> Q r t | Panic _ \<Rightarrow> True | _ \<Rightarrow> False)"

lemma safe_simps [simp]:
  "safe (ret x) Q s = Q x s" "safe (bnd m f) Q s = safe m (\<lambda>x. safe (f x) Q) s" "safe (panic e) Q s"
  "safe (gets g) Q s = Q (g s) s" "safe (modify h) Q' s = Q' () (h s)"
  by (auto simp: safe_def ret_def bnd_def panic_def gets_def modify_def split: outcome.splits)

lemma safe_mono: "safe f Q s \<Longrightarrow> (\<And>r t. Q r t \<Longrightarrow> R r t) \<Longrightarrow> safe f R s"
  by (auto simp: safe_def split: outcome.splits)

lemma safe_bindI: "safe m Q s \<Longrightarrow> (\<And>x t. Q x t \<Longrightarrow> safe (f x) R t) \<Longrightarrow> safe (bnd m f) R s"
  by (auto elim: safe_mono)

definition line_ok :: "byte list \<Rightarrow> nat \<Rightarrow> bool" where
  "line_ok buf es \<longleftrightarrow> es < length buf \<and> buf ! es = 0 \<and> (\<forall>i < es. buf ! i \<noteq> 0)"

definition wordc :: "byte \<Rightarrow> bool" where
  "wordc c \<longleftrightarrow> c \<noteq> 0 \<and> \<not> strchr_hit whitespace c \<and> \<not> strchr_hit symbols c"

definition span_ok :: "byte list \<Rightarrow> span \<Rightarrow> bool" where
  "span_ok buf = (\<lambda>(q, eq). q < eq \<and> eq < length buf \<and> (\<forall>i. q \<le> i \<and> i < eq \<longrightarrow> wordc (buf ! i)) \<and> \<not> wordc (buf ! eq) \<and> (\<forall>i < eq. buf ! i \<noteq> 0))"

lemma strchr_hit_iff: "0 \<notin> set cs \<Longrightarrow> strchr_hit cs c \<longleftrightarrow> c \<in> set cs"
proof -
  assume z: "0 \<notin> set cs"
  show ?thesis
  proof (cases "c \<in> set cs")
    case True
    then obtain xs ys where "cs = xs @ c # ys" "c \<notin> set xs" using split_list_first by metis
    then show ?thesis using z u_strchr_hit [of xs c "ys @ [0]"] by (auto simp: strchr_hit_def)
  next
    case False
    then show ?thesis using z u_strchr_miss [of cs c "[]"] by (simp add: strchr_hit_def)
  qed
qed

lemma hit_whitespace: "strchr_hit whitespace c \<longleftrightarrow> c \<in> {0x20, 0x09, 0x0D, 0x0A, 0x0B}"
  by (subst strchr_hit_iff) (simp_all add: whitespace_def)

lemma hit_symbols: "strchr_hit symbols c \<longleftrightarrow> c \<in> {0x3C, 0x7C, 0x3E, 0x26, 0x3B, 0x28, 0x29}"
  by (subst strchr_hit_iff) (simp_all add: symbols_def)

lemma skip_while_run:
  assumes "s \<le> es" "es < length buf"
  shows "\<exists>t. skip_while P buf es s = Done () t \<and> s \<le> t \<and> t \<le> es \<and> (\<forall>i. s \<le> i \<and> i < t \<longrightarrow> P (buf ! i)) \<and> (t < es \<longrightarrow> \<not> P (buf ! t))"
  using assms
proof (induction "es - s" arbitrary: s)
  case 0
  then have "skip_while P buf es s = Done () s" by (subst skip_while.simps) simp
  then show ?case using 0 by auto
next
  case (Suc n)
  show ?case
  proof (cases "P (buf ! s)")
    case True
    have "n = es - (s + 1)" "s + 1 \<le> es" "s < es" "s < length buf" using Suc.hyps(2) Suc.prems by simp_all
    then obtain t where t: "skip_while P buf es (s + 1) = Done () t" "s + 1 \<le> t" "t \<le> es"
      "\<forall>i. s + 1 \<le> i \<and> i < t \<longrightarrow> P (buf ! i)" "t < es \<longrightarrow> \<not> P (buf ! t)" using Suc.hyps(1) [of "s + 1"] Suc.prems(2) by blast
    have "P (buf ! i)" if "s \<le> i \<and> i < t" for i using t(4) True that by (cases "i = s") auto
    then show ?thesis using t True \<open>s < es\<close> \<open>s < length buf\<close> by (auto simp: skip_while.simps [of P buf es s])
  next
    case False
    have "s < es" "s < length buf" using Suc.hyps(2) Suc.prems by simp_all
    then show ?thesis using False by (auto simp: skip_while.simps [of P buf es s])
  qed
qed

lemma safe_skip:
  assumes "s \<le> es" "es < length buf"
  shows "safe (skip_while P buf es) (\<lambda>_ t. s \<le> t \<and> t \<le> es \<and> (\<forall>i. s \<le> i \<and> i < t \<longrightarrow> P (buf ! i)) \<and> (t < es \<longrightarrow> \<not> P (buf ! t))) s"
  using skip_while_run [OF assms, of P] by (auto simp: safe_def)

lemma safe_skip_le: "s \<le> es \<Longrightarrow> es < length buf \<Longrightarrow> safe (skip_while P buf es) (\<lambda>_ t. s \<le> t \<and> t \<le> es) s"
  by (rule safe_mono [OF safe_skip]) auto

lemma safe_rdb [simp]: "safe (rdb buf) Q s \<longleftrightarrow> s < length buf \<and> Q (buf ! s) s"
  by (simp add: safe_def rdb_def)

lemma safe_peek:
  assumes l: "line_ok buf es" and "s \<le> es"
  shows "safe (peek buf es toks) (\<lambda>b t. s \<le> t \<and> t \<le> es \<and> (b \<longrightarrow> t < es \<and> strchr_hit toks (buf ! t)) \<and>
    (\<not> b \<and> t < es \<longrightarrow> \<not> strchr_hit toks (buf ! t)) \<and> (t < es \<longrightarrow> \<not> strchr_hit whitespace (buf ! t))) s"
  unfolding peek_def skip_ws_def
proof (rule safe_bindI [OF safe_skip])
  show "s \<le> es" "es < length buf" using l assms(2) by (simp_all add: line_ok_def)
  fix x t
  assume t: "s \<le> t \<and> t \<le> es \<and> (\<forall>i. s \<le> i \<and> i < t \<longrightarrow> strchr_hit whitespace (buf ! i)) \<and> (t < es \<longrightarrow> \<not> strchr_hit whitespace (buf ! t))"
  have "t < length buf" "buf ! t \<noteq> 0 \<longleftrightarrow> t < es" using t l by (auto simp: line_ok_def le_eq_less_or_eq)
  then show "safe (bnd (rdb buf) (\<lambda>c. ret (c \<noteq> 0 \<and> strchr_hit toks c))) (\<lambda>b t. s \<le> t \<and> t \<le> es \<and> (b \<longrightarrow> t < es \<and> strchr_hit toks (buf ! t)) \<and>
    (\<not> b \<and> t < es \<longrightarrow> \<not> strchr_hit toks (buf ! t)) \<and> (t < es \<longrightarrow> \<not> strchr_hit whitespace (buf ! t))) t"
    using t by auto
qed

lemma safe_word:
  assumes l: "line_ok buf es" and q: "q < es" "wordc (buf ! q)"
  shows "safe (skip_while (\<lambda>x. \<not> strchr_hit whitespace x \<and> \<not> strchr_hit symbols x) buf es)
    (\<lambda>_ t. t \<le> es \<and> span_ok buf (q, t)) q"
proof (rule safe_mono [OF safe_skip])
  show "q \<le> es" "es < length buf" using l q by (simp_all add: line_ok_def)
  fix r t
  assume t: "q \<le> t \<and> t \<le> es \<and> (\<forall>i. q \<le> i \<and> i < t \<longrightarrow> \<not> strchr_hit whitespace (buf ! i) \<and> \<not> strchr_hit symbols (buf ! i)) \<and>
    (t < es \<longrightarrow> \<not> (\<not> strchr_hit whitespace (buf ! t) \<and> \<not> strchr_hit symbols (buf ! t)))"
  have "q \<noteq> t" using t q by (auto simp: wordc_def)
  moreover have "wordc (buf ! i)" if "q \<le> i \<and> i < t" for i using t that l by (auto simp: wordc_def line_ok_def)
  moreover have "\<not> wordc (buf ! t)" using t l by (cases "t < es") (auto simp: wordc_def line_ok_def)
  ultimately show "t \<le> es \<and> span_ok buf (q, t)" using t l by (auto simp: span_ok_def line_ok_def)
qed

lemma safe_switch:
  assumes l: "line_ok buf es" and q: "q \<le> es" "q < es \<longrightarrow> \<not> strchr_hit whitespace (buf ! q)"
  shows "safe (token_switch buf es (buf ! q)) (\<lambda>tok t. q \<le> t \<and> t \<le> es \<and> (q < es \<longrightarrow> q < t) \<and> (tok \<noteq> 0 \<longrightarrow> q < es) \<and>
    (tok = 0x61 \<longrightarrow> span_ok buf (q, t))) q"
proof -
  let ?c = "buf ! q"
  have z: "?c \<noteq> 0 \<longleftrightarrow> q < es" and le: "es < length buf" using q l by (auto simp: line_ok_def le_eq_less_or_eq)
  consider "?c = 0" | "?c \<in> {0x7C, 0x28, 0x29, 0x3B, 0x26, 0x3C}" | "?c = 0x3E" | "?c \<noteq> 0" "?c \<notin> {0x7C, 0x28, 0x29, 0x3B, 0x26, 0x3C}" "?c \<noteq> 0x3E"
    by blast
  then show ?thesis
  proof cases
    case 1
    then show ?thesis using q z by (auto simp: token_switch_def)
  next
    case 2
    then have "?c \<noteq> 0" "?c \<noteq> 0x61" by auto
    then show ?thesis using 2 z by (auto simp: token_switch_def)
  next
    case 3
    then have "q < es" using z by auto
    moreover have "Suc q < es" if c: "buf ! Suc q = 0x3E"
    proof -
      have "Suc q \<noteq> es" using c l by (auto simp: line_ok_def)
      then show ?thesis using \<open>q < es\<close> by simp
    qed
    ultimately show ?thesis using 3 le by (auto simp: token_switch_def)
  next
    case 4
    then have "q < es" "wordc ?c" using z q by (auto simp: wordc_def hit_symbols)
    then have w: "safe (skip_while (\<lambda>x. \<not> strchr_hit whitespace x \<and> \<not> strchr_hit symbols x) buf es) (\<lambda>_ t. t \<le> es \<and> span_ok buf (q, t)) q"
      by (rule safe_word [OF l])
    have "token_switch buf es ?c = bnd (skip_while (\<lambda>x. \<not> strchr_hit whitespace x \<and> \<not> strchr_hit symbols x) buf es) (\<lambda>_. ret 0x61)"
      using 4 by (simp add: token_switch_def)
    then show ?thesis using \<open>q < es\<close> by (auto intro!: safe_mono [OF w] simp: span_ok_def)
  qed
qed

lemma safe_gettoken:
  assumes l: "line_ok buf es" and s: "s \<le> es"
  shows "safe (gettoken buf es) (\<lambda>(tok, q, eq) t. s \<le> t \<and> t \<le> es \<and> (s < es \<and> \<not> strchr_hit whitespace (buf ! s) \<longrightarrow> s < t) \<and>
    (tok \<noteq> 0 \<longrightarrow> s < t) \<and> (tok = 0x61 \<longrightarrow> span_ok buf (q, eq))) s" (is "safe _ ?Q s")
  unfolding gettoken_def skip_ws_def
proof (rule safe_bindI [OF safe_skip [OF s]])
  show le: "es < length buf" using l by (simp add: line_ok_def)
  fix x q
  assume q: "s \<le> q \<and> q \<le> es \<and> (\<forall>i. s \<le> i \<and> i < q \<longrightarrow> strchr_hit whitespace (buf ! i)) \<and> (q < es \<longrightarrow> \<not> strchr_hit whitespace (buf ! q))"
  have sq: "s < es \<and> \<not> strchr_hit whitespace (buf ! s) \<Longrightarrow> s = q \<and> q < es" using q by (metis le_eq_less_or_eq le_trans)
  let ?tail = "\<lambda>tok. bnd (gets (\<lambda>s. s)) (\<lambda>eq. bnd (skip_while (strchr_hit whitespace) buf es) (\<lambda>_. ret (tok, q, eq)))"
  have "safe (bnd (token_switch buf es (buf ! q)) ?tail) ?Q q"
  proof (rule safe_bindI [OF safe_switch [OF l]])
    show "q \<le> es" "q < es \<longrightarrow> \<not> strchr_hit whitespace (buf ! q)" using q by simp_all
    fix tok :: byte and t
    assume t: "q \<le> t \<and> t \<le> es \<and> (q < es \<longrightarrow> q < t) \<and> (tok \<noteq> 0 \<longrightarrow> q < es) \<and> (tok = 0x61 \<longrightarrow> span_ok buf (q, t))"
    then have w: "safe (skip_while (strchr_hit whitespace) buf es) (\<lambda>_ u. t \<le> u \<and> u \<le> es) t" using le by (intro safe_skip_le) auto
    show "safe (?tail tok) ?Q t" using t q sq by (auto intro!: safe_mono [OF w])
  qed
  then show "safe (bnd (gets (\<lambda>s. s)) (\<lambda>q. bnd (rdb buf) (\<lambda>c. bnd (token_switch buf es c) (\<lambda>tok.
     bnd (gets (\<lambda>s. s)) (\<lambda>eq. bnd (skip_while (strchr_hit whitespace) buf es) (\<lambda>_. ret (tok, q, eq))))))) ?Q q"
    using q le by simp
qed

text \<open>What the parser keeps of a command: its strings are words of the line, and it has room for the arguments.\<close>

fun argc_of :: "'w scmd \<Rightarrow> nat" where
  "argc_of (ExecCmd argv) = length argv"
| "argc_of (RedirCmd c f m fd) = argc_of c"
| "argc_of _ = 0"

fun args_fit :: "'w scmd \<Rightarrow> bool" where
  "args_fit (ExecCmd argv) \<longleftrightarrow> length argv < MAXARGS"
| "args_fit (RedirCmd c f m fd) \<longleftrightarrow> args_fit c"
| "args_fit (PipeCmd l r) \<longleftrightarrow> args_fit l \<and> args_fit r"
| "args_fit (ListCmd l r) \<longleftrightarrow> args_fit l \<and> args_fit r"
| "args_fit (BackCmd c) \<longleftrightarrow> args_fit c"

definition cmd_ok :: "byte list \<Rightarrow> span scmd \<Rightarrow> bool" where
  "cmd_ok buf c \<longleftrightarrow> (\<forall>w \<in> set_scmd c. span_ok buf w) \<and> args_fit c"

lemma cmd_ok_simps [simp]:
  "cmd_ok buf (ExecCmd []) " "cmd_ok buf (RedirCmd c w m fd) \<longleftrightarrow> cmd_ok buf c \<and> span_ok buf w"
  "cmd_ok buf (PipeCmd c d) \<longleftrightarrow> cmd_ok buf c \<and> cmd_ok buf d" "cmd_ok buf (ListCmd c d) \<longleftrightarrow> cmd_ok buf c \<and> cmd_ok buf d"
  "cmd_ok buf (BackCmd c) \<longleftrightarrow> cmd_ok buf c"
  by (auto simp: cmd_ok_def)

lemma argc_add: "args_fit c \<Longrightarrow> Suc (argc_of c) < MAXARGS \<Longrightarrow> args_fit (add_arg c w)"
  by (induction c) auto

lemma set_add: "set_scmd (add_arg c w) \<subseteq> insert w (set_scmd c)"
  by (induction c) auto

fun is_exec :: "'w scmd \<Rightarrow> bool" where
  "is_exec (ExecCmd argv) = True"
| "is_exec (RedirCmd c f m fd) = is_exec c"
| "is_exec _ = False"

lemma argc_of_add: "is_exec c \<Longrightarrow> argc_of (add_arg c w) = Suc (argc_of c) \<and> is_exec (add_arg c w)"
  by (induction c) auto

lemma cmd_ok_add: "cmd_ok buf c \<Longrightarrow> span_ok buf w \<Longrightarrow> Suc (argc_of c) < MAXARGS \<Longrightarrow> cmd_ok buf (add_arg c w)"
  using set_add [of c w] argc_add [of c w] by (auto simp: cmd_ok_def)

lemma redir_ok: "cmd_ok buf c \<Longrightarrow> span_ok buf w \<Longrightarrow> cmd_ok buf (redir_switch tok c w)"
  "argc_of (redir_switch tok c w) = argc_of c" "is_exec (redir_switch tok c w) = is_exec c"
  by (simp_all add: redir_switch_def)

text \<open>The two lexer calls as rules for what follows them.\<close>

lemma peekI:
  assumes l: "line_ok buf es" and s: "s \<le> es"
    and yes: "\<And>t. s \<le> t \<Longrightarrow> t < es \<Longrightarrow> \<not> strchr_hit whitespace (buf ! t) \<Longrightarrow> strchr_hit toks (buf ! t) \<Longrightarrow> safe (k True) Q t"
    and no: "\<And>t. s \<le> t \<Longrightarrow> t \<le> es \<Longrightarrow> safe (k False) Q t"
  shows "safe (bnd (peek buf es toks) k) Q s"
proof (rule safe_bindI [OF safe_peek [OF l s]])
  fix b t
  assume "s \<le> t \<and> t \<le> es \<and> (b \<longrightarrow> t < es \<and> strchr_hit toks (buf ! t)) \<and>
    (\<not> b \<and> t < es \<longrightarrow> \<not> strchr_hit toks (buf ! t)) \<and> (t < es \<longrightarrow> \<not> strchr_hit whitespace (buf ! t))"
  then show "safe (k b) Q t" using yes no by (cases b) auto
qed

lemma tokenI:
  assumes l: "line_ok buf es" and s: "s \<le> es"
    and k: "\<And>tok q eq t. s \<le> t \<Longrightarrow> t \<le> es \<Longrightarrow> (s < es \<Longrightarrow> \<not> strchr_hit whitespace (buf ! s) \<Longrightarrow> s < t) \<Longrightarrow> (tok \<noteq> 0 \<Longrightarrow> s < t) \<Longrightarrow>
      (tok = 0x61 \<Longrightarrow> span_ok buf (q, eq)) \<Longrightarrow> safe (k (tok, q, eq)) Q t"
  shows "safe (bnd (gettoken buf es) k) Q s"
  by (rule safe_bindI [OF safe_gettoken [OF l s]], clarify, rule k) auto

lemma safe_parseredirs:
  assumes l: "line_ok buf es" and "s \<le> es" "es - s < fuel" "cmd_ok buf cmd"
  shows "safe (parseredirs fuel cmd buf es) (\<lambda>c t. s \<le> t \<and> t \<le> es \<and> cmd_ok buf c \<and> argc_of c = argc_of cmd \<and> is_exec c = is_exec cmd) s"
  using assms(2-)
proof (induction fuel arbitrary: s cmd)
  case 0
  then show ?case by simp
next
  case (Suc fuel)
  have step: "safe (parseredirs fuel (redir_switch tok cmd (q, eq)) buf es) (\<lambda>c t. s \<le> t \<and> t \<le> es \<and> cmd_ok buf c \<and> argc_of c = argc_of cmd \<and> is_exec c = is_exec cmd) v"
    if "span_ok buf (q, eq)" "s < v" "v \<le> es" for tok q eq v
    using Suc.prems that by (intro safe_mono [OF Suc.IH]) (auto simp: redir_ok)
  show ?case unfolding parseredirs.simps
    by (rule peekI [OF l Suc.prems(1)], simp only: not_True_eq_False if_False split_conv,
        rule tokenI [OF l], simp, simp only: split_conv, rule tokenI [OF l], simp, use step Suc.prems in auto)
qed

lemma safe_parseargs:
  assumes l: "line_ok buf es" and "s \<le> es" "es - s < fuel" "cmd_ok buf r" "is_exec r" "argc_of r = argc"
  shows "safe (parseargs fuel r argc buf es) (\<lambda>c t. s \<le> t \<and> t \<le> es \<and> cmd_ok buf c) s"
  using assms(2-)
proof (induction fuel arbitrary: s r argc)
  case 0
  then show ?case by simp
next
  case (Suc fuel)
  have step: "safe (bnd (parseredirs fuel (add_arg r (q, eq)) buf es) (\<lambda>r'. parseargs fuel r' (argc + 1) buf es)) (\<lambda>c t. s \<le> t \<and> t \<le> es \<and> cmd_ok buf c) v"
    if "span_ok buf (q, eq)" "s < v" "v \<le> es" "\<not> argc + 1 \<ge> MAXARGS" for q eq v
  proof (rule safe_bindI [OF safe_parseredirs [OF l]])
    show "v \<le> es" "es - v < fuel" "cmd_ok buf (add_arg r (q, eq))" using that Suc.prems cmd_ok_add [of buf r "(q, eq)"] by auto
    fix r' t
    assume "v \<le> t \<and> t \<le> es \<and> cmd_ok buf r' \<and> argc_of r' = argc_of (add_arg r (q, eq)) \<and> is_exec r' = is_exec (add_arg r (q, eq))"
    then show "safe (parseargs fuel r' (argc + 1) buf es) (\<lambda>c t. s \<le> t \<and> t \<le> es \<and> cmd_ok buf c) t"
      using that Suc.prems argc_of_add [of r "(q, eq)"] by (intro safe_mono [OF Suc.IH]) auto
  qed
  show ?case unfolding parseargs.simps
    by (rule peekI [OF l Suc.prems(1)], use Suc.prems in simp, simp only: if_False, rule tokenI [OF l], simp, use step Suc.prems in auto)
qed

lemma safe_parseback:
  assumes l: "line_ok buf es" and "s \<le> es" "es - s < fuel" "cmd_ok buf cmd"
  shows "safe (parseback fuel cmd buf es) (\<lambda>c t. s \<le> t \<and> t \<le> es \<and> cmd_ok buf c) s"
  using assms(2-)
proof (induction fuel arbitrary: s cmd)
  case 0
  then show ?case by simp
next
  case (Suc fuel)
  have step: "safe (parseback fuel (BackCmd cmd) buf es) (\<lambda>c t. s \<le> t \<and> t \<le> es \<and> cmd_ok buf c) v"
    if "s < v" "v \<le> es" for v
    using Suc.prems that by (intro safe_mono [OF Suc.IH]) auto
  show ?case unfolding parseback.simps
    by (rule peekI [OF l Suc.prems(1)], simp only: not_True_eq_False if_False, rule tokenI [OF l], simp, use step Suc.prems in auto)
qed

definition good :: "byte list \<Rightarrow> nat \<Rightarrow> nat \<Rightarrow> span scmd \<Rightarrow> nat \<Rightarrow> bool" where
  "good buf es s c t \<longleftrightarrow> s \<le> t \<and> t \<le> es \<and> cmd_ok buf c"

lemma safe_line_step:
  assumes l: "line_ok buf es" and s: "s \<le> es" "4 * (es - s) + 4 \<le> Suc fuel"
    and line: "\<And>t. t \<le> es \<Longrightarrow> 4 * (es - t) + 4 \<le> fuel \<Longrightarrow> safe (parseline fuel buf es) (good buf es t) t"
    and pipe: "\<And>t. t \<le> es \<Longrightarrow> 4 * (es - t) + 3 \<le> fuel \<Longrightarrow> safe (parsepipe fuel buf es) (good buf es t) t"
  shows "safe (parseline (Suc fuel) buf es) (good buf es s) s"
proof -
  have rest: "safe (bnd (peek buf es [0x3B]) (\<lambda>semi. if semi then bnd (gettoken buf es) (\<lambda>_. bnd (parseline fuel buf es) (\<lambda>rest. ret (ListCmd cmd rest))) else ret cmd)) (good buf es s) t"
    if t: "good buf es s cmd t" for cmd t
  proof (rule peekI [OF l])
    show "t \<le> es" using t by (simp add: good_def)
    fix u
    assume u: "t \<le> u" "u < es" "\<not> strchr_hit whitespace (buf ! u)"
    have "safe (bnd (parseline fuel buf es) (\<lambda>rest. ret (ListCmd cmd rest))) (good buf es s) v" if v: "u < v" "v \<le> es" for v
      by (rule safe_bindI [OF line]) (use t u v s in \<open>auto simp: good_def\<close>)
    then show "safe (if True then bnd (gettoken buf es) (\<lambda>_. bnd (parseline fuel buf es) (\<lambda>rest. ret (ListCmd cmd rest))) else ret cmd) (good buf es s) u"
      unfolding if_True by (intro tokenI [OF l]) (use u in auto)
  next
    fix u
    assume "t \<le> u" "u \<le> es"
    then show "safe (if False then bnd (gettoken buf es) (\<lambda>_. bnd (parseline fuel buf es) (\<lambda>rest. ret (ListCmd cmd rest))) else ret cmd) (good buf es s) u"
      using t by (simp add: good_def)
  qed
  show ?thesis unfolding parseline.simps
  proof (rule safe_bindI [OF pipe])
    show "s \<le> es" "4 * (es - s) + 3 \<le> fuel" using s by simp_all
    fix cmd t
    assume t: "good buf es s cmd t"
    show "safe (bnd (parseback fuel cmd buf es) (\<lambda>cmd. bnd (peek buf es [0x3B]) (\<lambda>semi. if semi then bnd (gettoken buf es) (\<lambda>_. bnd (parseline fuel buf es) (\<lambda>rest. ret (ListCmd cmd rest))) else ret cmd))) (good buf es s) t"
    proof (rule safe_bindI [OF safe_parseback [OF l]])
      show "t \<le> es" "es - t < fuel" "cmd_ok buf cmd" using t s by (auto simp: good_def)
    qed (rule rest, use t in \<open>auto simp: good_def\<close>)
  qed
qed

lemma safe_pipe_step:
  assumes l: "line_ok buf es" and s: "s \<le> es" "4 * (es - s) + 3 \<le> Suc fuel"
    and pipe: "\<And>t. t \<le> es \<Longrightarrow> 4 * (es - t) + 3 \<le> fuel \<Longrightarrow> safe (parsepipe fuel buf es) (good buf es t) t"
    and exec: "\<And>t. t \<le> es \<Longrightarrow> 4 * (es - t) + 2 \<le> fuel \<Longrightarrow> safe (parseexec fuel buf es) (good buf es t) t"
  shows "safe (parsepipe (Suc fuel) buf es) (good buf es s) s"
  unfolding parsepipe.simps
proof (rule safe_bindI [OF exec])
  show "s \<le> es" "4 * (es - s) + 2 \<le> fuel" using s by simp_all
  fix cmd t
  assume t: "good buf es s cmd t"
  have step: "safe (bnd (parsepipe fuel buf es) (\<lambda>rest. ret (PipeCmd cmd rest))) (good buf es s) v" if v: "t < v" "v \<le> es" for v
    by (rule safe_bindI [OF pipe]) (use t v s in \<open>auto simp: good_def\<close>)
  show "safe (bnd (peek buf es [0x7C]) (\<lambda>bar. if bar then bnd (gettoken buf es) (\<lambda>_. bnd (parsepipe fuel buf es) (\<lambda>rest. ret (PipeCmd cmd rest))) else ret cmd)) (good buf es s) t"
    by (rule peekI [OF l], use t in \<open>simp add: good_def\<close>, simp only: if_True, rule tokenI [OF l], simp,
        use step t in \<open>auto simp: good_def\<close>)
qed

lemma safe_block_step:
  assumes l: "line_ok buf es" and s: "s \<le> es" "4 * (es - s) + 1 \<le> Suc fuel"
    and line: "\<And>t. t \<le> es \<Longrightarrow> 4 * (es - t) + 4 \<le> fuel \<Longrightarrow> safe (parseline fuel buf es) (good buf es t) t"
  shows "safe (parseblock (Suc fuel) buf es) (good buf es s) s"
proof -
  have redirs: "safe (parseredirs fuel cmd buf es) (good buf es s) v" if "s < v" "v \<le> es" "cmd_ok buf cmd" for cmd v
    using that s by (intro safe_mono [OF safe_parseredirs [OF l]]) (auto simp: good_def)
  have close: "safe (bnd (peek buf es [0x29]) (\<lambda>cls. if \<not> cls then panic ''syntax - missing )'' else bnd (gettoken buf es) (\<lambda>_. parseredirs fuel cmd buf es))) (good buf es s) v"
    if "s < v" "v \<le> es" "cmd_ok buf cmd" for cmd v
    by (rule peekI [OF l that(2)], simp only: not_True_eq_False if_False, rule tokenI [OF l], simp, use redirs that in auto)
  have body: "safe (bnd (parseline fuel buf es) (\<lambda>cmd. bnd (peek buf es [0x29]) (\<lambda>cls. if \<not> cls then panic ''syntax - missing )'' else bnd (gettoken buf es) (\<lambda>_. parseredirs fuel cmd buf es)))) (good buf es s) v"
    if v: "s < v" "v \<le> es" for v
  proof (rule safe_bindI [OF line [OF v(2)]])
    show "4 * (es - v) + 4 \<le> fuel" using v s by simp
  qed (rule close, use v in \<open>auto simp: good_def\<close>)
  show ?thesis unfolding parseblock.simps
    by (rule peekI [OF l s(1)], simp only: not_True_eq_False if_False, rule tokenI [OF l], simp, use body in auto)
qed

lemma safe_exec_step:
  assumes l: "line_ok buf es" and s: "s \<le> es" "4 * (es - s) + 2 \<le> Suc fuel"
    and block: "\<And>t. t \<le> es \<Longrightarrow> 4 * (es - t) + 1 \<le> fuel \<Longrightarrow> safe (parseblock fuel buf es) (good buf es t) t"
  shows "safe (parseexec (Suc fuel) buf es) (good buf es s) s"
  unfolding parseexec.simps
proof (rule peekI [OF l s(1)])
  fix t
  assume t: "s \<le> t" "t < es"
  then have "safe (parseblock fuel buf es) (good buf es s) t" using s by (intro safe_mono [OF block]) (auto simp: good_def)
  then show "safe (if True then parseblock fuel buf es else bnd (parseredirs fuel (ExecCmd []) buf es) (\<lambda>r. parseargs fuel r 0 buf es)) (good buf es s) t" by simp
next
  fix t
  assume t: "s \<le> t" "t \<le> es"
  have "safe (bnd (parseredirs fuel (ExecCmd []) buf es) (\<lambda>r. parseargs fuel r 0 buf es)) (good buf es s) t"
  proof (rule safe_bindI [OF safe_parseredirs [OF l t(2)]])
    show "es - t < fuel" "cmd_ok buf (ExecCmd [])" using s t by simp_all
    fix r u
    assume "t \<le> u \<and> u \<le> es \<and> cmd_ok buf r \<and> argc_of r = argc_of (ExecCmd [] :: span scmd) \<and> is_exec r = is_exec (ExecCmd [] :: span scmd)"
    then show "safe (parseargs fuel r 0 buf es) (good buf es s) u"
      using s t by (intro safe_mono [OF safe_parseargs [OF l]]) (auto simp: good_def)
  qed
  then show "safe (if False then parseblock fuel buf es else bnd (parseredirs fuel (ExecCmd []) buf es) (\<lambda>r. parseargs fuel r 0 buf es)) (good buf es s) t" by simp
qed

lemma safe_parsers:
  assumes l: "line_ok buf es"
  shows "s \<le> es \<Longrightarrow> 4 * (es - s) + 4 \<le> fuel \<Longrightarrow> safe (parseline fuel buf es) (good buf es s) s"
    "s \<le> es \<Longrightarrow> 4 * (es - s) + 3 \<le> fuel \<Longrightarrow> safe (parsepipe fuel buf es) (good buf es s) s"
    "s \<le> es \<Longrightarrow> 4 * (es - s) + 1 \<le> fuel \<Longrightarrow> safe (parseblock fuel buf es) (good buf es s) s"
    "s \<le> es \<Longrightarrow> 4 * (es - s) + 2 \<le> fuel \<Longrightarrow> safe (parseexec fuel buf es) (good buf es s) s"
proof (induction fuel arbitrary: s)
  case 0
  { case 1 then show ?case by simp next case 2 then show ?case by simp next case 3 then show ?case by simp next case 4 then show ?case by simp }
next
  case (Suc fuel)
  { case 1 then show ?case using Suc.IH by (intro safe_line_step [OF l]) auto
  next case 2 then show ?case using Suc.IH by (intro safe_pipe_step [OF l]) auto
  next case 3 then show ?case using Suc.IH by (intro safe_block_step [OF l]) auto
  next case 4 then show ?case using Suc.IH by (intro safe_exec_step [OF l]) auto }
qed

section \<open>Ending the strings\<close>

definition ends :: "span scmd \<Rightarrow> nat set" where
  "ends c = snd ` set_scmd c"

text \<open>Clearing positions that are not part of a word keeps the words.\<close>

definition cleared :: "byte list \<Rightarrow> nat set \<Rightarrow> byte list \<Rightarrow> bool" where
  "cleared buf E buf' \<longleftrightarrow> length buf' = length buf \<and> (\<forall>i < length buf. buf' ! i = (if i \<in> E then 0 else buf ! i))"

lemma cleared_refl: "cleared buf {} buf"
  by (simp add: cleared_def)

lemma cleared_step: "cleared buf E b \<Longrightarrow> e < length buf \<Longrightarrow> cleared buf (insert e E) (b[e := 0])"
  by (auto simp: cleared_def nth_list_update)

lemma nulterminate_cleared:
  assumes "\<forall>w \<in> set_scmd c. snd w < length buf" "cleared buf E b"
  shows "\<exists>b'. nulterminate c b = Some b' \<and> cleared buf (E \<union> ends c) b'"
  using assms
proof (induction c arbitrary: E b)
  case (ExecCmd argv)
  have "\<exists>b'. fold (\<lambda>(q, eq) b. case b of None \<Rightarrow> None | Some bs \<Rightarrow> if eq < length bs then Some (bs[eq := 0]) else None) argv (Some b) = Some b' \<and>
    cleared buf (E \<union> snd ` set argv) b'" using ExecCmd.prems
  proof (induction argv arbitrary: E b)
    case Nil
    then show ?case by simp
  next
    case (Cons w argv)
    obtain q e where w: "w = (q, e)" by (cases w)
    have "e < length b" "e < length buf" using Cons.prems w by (auto simp: cleared_def)
    moreover obtain b' where "fold (\<lambda>(q, eq) b. case b of None \<Rightarrow> None | Some bs \<Rightarrow> if eq < length bs then Some (bs[eq := 0]) else None) argv (Some (b[e := 0])) = Some b'"
      "cleared buf (insert e E \<union> snd ` set argv) b'" using Cons.IH [of "insert e E" "b[e := 0]"] Cons.prems cleared_step [of buf E b e] calculation by auto
    ultimately show ?case using w by auto
  qed
  then show ?case by (simp add: ends_def)
next
  case (RedirCmd c w m fd)
  obtain q e where w: "w = (q, e)" by (cases w)
  obtain b' where b': "nulterminate c b = Some b'" "cleared buf (E \<union> ends c) b'" using RedirCmd.IH [of E b] RedirCmd.prems by auto
  have e: "e < length buf" "e < length b'" using RedirCmd.prems b'(2) w by (auto simp: cleared_def)
  have "E \<union> ends (RedirCmd c w m fd) = insert e (E \<union> ends c)" using w by (auto simp: ends_def)
  then show ?case using b' e w cleared_step [OF b'(2) e(1)] by simp
next
  case (PipeCmd c d)
  obtain b' where b': "nulterminate c b = Some b'" "cleared buf (E \<union> ends c) b'" using PipeCmd.IH(1) [of E b] PipeCmd.prems by auto
  obtain b'' where b'': "nulterminate d b' = Some b''" "cleared buf (E \<union> ends c \<union> ends d) b''" using PipeCmd.IH(2) [OF _ b'(2)] PipeCmd.prems by auto
  have "E \<union> ends (PipeCmd c d) = E \<union> ends c \<union> ends d" by (auto simp: ends_def)
  then show ?case using b' b'' by simp
next
  case (ListCmd c d)
  obtain b' where b': "nulterminate c b = Some b'" "cleared buf (E \<union> ends c) b'" using ListCmd.IH(1) [of E b] ListCmd.prems by auto
  obtain b'' where b'': "nulterminate d b' = Some b''" "cleared buf (E \<union> ends c \<union> ends d) b''" using ListCmd.IH(2) [OF _ b'(2)] ListCmd.prems by auto
  have "E \<union> ends (ListCmd c d) = E \<union> ends c \<union> ends d" by (auto simp: ends_def)
  then show ?case using b' b'' by simp
next
  case (BackCmd c)
  then show ?case by (simp add: ends_def)
qed

text \<open>The string of a span, before the parser has ended it and after.\<close>

definition span_text :: "byte list \<Rightarrow> span \<Rightarrow> byte list" where
  "span_text buf w = take (snd w - fst w) (drop (fst w) buf)"

lemma cstr_cleared:
  assumes ok: "\<forall>w \<in> set_scmd c. span_ok buf w" and b: "cleared buf (ends c) buf'" and w: "w \<in> set_scmd c"
  shows "cstr (drop (fst w) buf') = span_text buf w"
proof -
  obtain q e where qe: "w = (q, e)" by (cases w)
  have sp: "q < e" "e < length buf" "\<And>i. q \<le> i \<Longrightarrow> i < e \<Longrightarrow> wordc (buf ! i)" using ok w qe by (auto simp: span_ok_def)
  have ne: "i \<notin> ends c" if "q \<le> i" "i < e" for i
  proof
    assume "i \<in> ends c"
    then obtain v where "v \<in> set_scmd c" "i = snd v" by (auto simp: ends_def)
    then have "\<not> wordc (buf ! i)" using ok by (auto simp: span_ok_def)
    then show False using sp(3) that by blast
  qed
  have len: "length buf' = length buf" using b by (simp add: cleared_def)
  have "take (e - q) (drop q buf') = span_text buf w"
    by (rule nth_equalityI) (use b sp ne len qe in \<open>auto simp: span_text_def cleared_def\<close>)
  moreover have "buf' ! e = 0" using b sp(2) w qe by (auto simp: cleared_def ends_def image_iff intro!: bexI [of _ w])
  then have "drop q buf' = take (e - q) (drop q buf') @ 0 # drop (Suc e) buf'"
  proof -
    have "drop e buf' = 0 # drop (Suc e) buf'" using \<open>buf' ! e = 0\<close> sp(2) len by (metis Cons_nth_drop_Suc)
    moreover have "drop q buf' = take (e - q) (drop q buf') @ drop e buf'" using sp(1) append_take_drop_id [of "e - q" "drop q buf'"] by simp
    ultimately show ?thesis by simp
  qed
  moreover have "0 \<notin> set (span_text buf w)"
  proof -
    have "wordc x" if "x \<in> set (span_text buf w)" for x
      using that sp qe by (auto simp: span_text_def in_set_conv_nth)
    then show ?thesis by (auto simp: wordc_def)
  qed
  moreover have "cstr (t @ 0 # r) = t" if "0 \<notin> set t" for t r using that by (induction t) auto
  ultimately show ?thesis using qe by (metis fst_conv)
qed

lemma u_strlen_line: "0 \<notin> set l \<Longrightarrow> u_strlen_loop (l @ 0 # z) n = Some (n + of_nat (length l))"
  by (induction l arbitrary: n) (auto simp: add.assoc)

lemma line_ok_line: "0 \<notin> set l \<Longrightarrow> line_ok (l @ 0 # z) (length l)"
  by (auto simp: line_ok_def nth_append in_set_conv_nth)

lemma parsecmd_line:
  assumes z: "0 \<notin> set l" and len: "length l < 2 ^ 32"
  shows "parsecmd (l @ 0 # z) s = (let buf = l @ 0 # z; es = length l in
    bnd (parseline (parse_fuel es) buf es) (\<lambda>cmd.
          bnd (peek buf es []) (\<lambda>_.
          bnd (gets (\<lambda>s. s)) (\<lambda>s.
          if s \<noteq> es then panic ''syntax'' else
          case nulterminate cmd buf of None \<Rightarrow> fault | Some buf' \<Rightarrow> ret (cmd, buf')))) 0)"
proof -
  have "u_strlen (l @ 0 # z) = Some (of_nat (length l))" using u_strlen_line [OF z, of z 0] by (simp add: u_strlen_def)
  moreover have "unat (of_nat (length l) :: uint) = length l" using len by (simp add: unat_of_nat take_bit_eq_mod)
  ultimately show ?thesis by (simp add: parsecmd_def Let_def bnd_def [of "modify _"] modify_def)
qed

section \<open>Property\<close>

text \<open>
  C8. On every line \<open>parsecmd\<close> ends, with a command or with one of its \<open>panic\<close> calls. It never reads or writes outside
  the buffer, every \<open>execcmd\<close> has room for the null pointer after its arguments, and every string of the
  command is the word of the line it was made from, ended by a zero byte that destroys no other word.
\<close>

theorem parsecmd_safe:
  assumes z: "0 \<notin> set l" and len: "length l < 2 ^ 32"
  shows "case parsecmd (l @ 0 # z) s of
      Done (c, buf) t \<Rightarrow> length buf = length (l @ 0 # z) \<and> args_fit c \<and>
        (\<forall>(q, e) \<in> set_scmd c. q < e \<and> e \<le> length l \<and> cstr (drop q buf) = take (e - q) (drop q l))
    | Panic _ \<Rightarrow> True
    | _ \<Rightarrow> False"
proof -
  let ?b = "l @ 0 # z"
  let ?es = "length l"
  have ok: "line_ok ?b ?es" by (rule line_ok_line [OF z])
  have sf: "safe (parsecmd ?b) (\<lambda>(c, buf) t. cmd_ok ?b c \<and> cleared ?b (ends c) buf) s"
  proof -
    have "safe (bnd (parseline (parse_fuel ?es) ?b ?es) (\<lambda>cmd. bnd (peek ?b ?es []) (\<lambda>_. bnd (gets (\<lambda>s. s)) (\<lambda>s.
          if s \<noteq> ?es then panic ''syntax'' else
          case nulterminate cmd ?b of None \<Rightarrow> fault | Some buf' \<Rightarrow> ret (cmd, buf'))))) (\<lambda>(c, buf) t. cmd_ok ?b c \<and> cleared ?b (ends c) buf) 0"
    proof (rule safe_bindI [OF safe_parsers(1) [OF ok]])
      show "0 \<le> ?es" "4 * (?es - 0) + 4 \<le> parse_fuel ?es" by (simp_all add: parse_fuel_def)
      fix cmd t
      assume "good ?b ?es 0 cmd t"
      then have g: "t \<le> ?es" "cmd_ok ?b cmd" by (simp_all add: good_def)
      have "\<forall>w \<in> set_scmd cmd. snd w < length ?b" using g(2) by (auto simp: cmd_ok_def span_ok_def)
      from nulterminate_cleared [OF this cleared_refl] obtain b' where b': "nulterminate cmd ?b = Some b'" "cleared ?b (ends cmd) b'" by auto
      show "safe (bnd (peek ?b ?es []) (\<lambda>_. bnd (gets (\<lambda>s. s)) (\<lambda>s. if s \<noteq> ?es then panic ''syntax'' else
          case nulterminate cmd ?b of None \<Rightarrow> fault | Some buf' \<Rightarrow> ret (cmd, buf')))) (\<lambda>(c, buf) t. cmd_ok ?b c \<and> cleared ?b (ends c) buf) t"
        by (rule peekI [OF ok g(1)]) (use g b' in auto)
    qed
    then show ?thesis unfolding safe_def parsecmd_line [OF z len] Let_def .
  qed
  have im: "length buf = length ?b \<and> args_fit c \<and> (\<forall>(q, e) \<in> set_scmd c. q < e \<and> e \<le> ?es \<and> cstr (drop q buf) = take (e - q) (drop q l))"
    if c: "cmd_ok ?b c" and b: "cleared ?b (ends c) buf" for c buf
  proof -
    have sp: "\<forall>w \<in> set_scmd c. span_ok ?b w" using c by (simp add: cmd_ok_def)
    have "q < e \<and> e \<le> ?es \<and> cstr (drop q buf) = take (e - q) (drop q l)" if w: "(q, e) \<in> set_scmd c" for q e
    proof -
      have qe: "q < e" "\<forall>i < e. ?b ! i \<noteq> 0" using sp w by (auto simp: span_ok_def)
      have "e \<le> ?es" using qe(2) by (metis not_le nth_append_length)
      then show ?thesis using qe(1) cstr_cleared [OF sp b w] by (simp add: span_text_def)
    qed
    then show ?thesis using c b by (auto simp: cmd_ok_def cleared_def)
  qed
  show ?thesis
  proof (cases "parsecmd ?b s")
    case (Done r t)
    obtain c buf where r: "r = (c, buf)" by (cases r)
    then have "cmd_ok ?b c" "cleared ?b (ends c) buf" using sf Done by (simp_all add: safe_def)
    from im [OF this] show ?thesis using Done r by simp
  qed (use sf in \<open>simp_all add: safe_def\<close>)
qed

theorem parsecmd_safe_witness:
  "case parsecmd ([0x6C, 0x73, 0x3E] @ [0]) 0 of Done _ _ \<Rightarrow> True | Panic _ \<Rightarrow> True | _ \<Rightarrow> False"
  using parsecmd_safe [of "[0x6C, 0x73, 0x3E]" "[]" 0] by (auto split: outcome.splits)

end
