(* ===== verification/User_ShPrint.thy ===== *)
theory User_ShPrint
  imports User_Sh
begin

unbundle bit_operations_syntax

text \<open>
  The grammar of the shell (\<^verbatim>\<open>user/sh.c\<close>): commands are printed with parentheses where the grammar needs them, and the
  parser reads every printed command back. The first section relates positions in the line to the tokens that
  follow; then each parsing function is matched with the printer of its level.
\<close>

section \<open>Printing a command\<close>

datatype tok = Word "byte list" | Sym byte | App

fun tok_bytes :: "tok \<Rightarrow> byte list" where
  "tok_bytes (Word w) = w"
| "tok_bytes (Sym c) = [c]"
| "tok_bytes App = [0x3E, 0x3E]"

fun tok_code :: "tok \<Rightarrow> byte" where
  "tok_code (Word w) = 0x61"
| "tok_code (Sym c) = c"
| "tok_code App = 0x2B"

fun tok_ok :: "tok \<Rightarrow> bool" where
  "tok_ok (Word w) \<longleftrightarrow> w \<noteq> [] \<and> (\<forall>x \<in> set w. wordc x)"
| "tok_ok (Sym c) \<longleftrightarrow> c \<in> {0x3C, 0x7C, 0x3E, 0x26, 0x3B, 0x28, 0x29}"
| "tok_ok App = True"

definition render :: "tok list \<Rightarrow> byte list" where
  "render ts = concat (map (\<lambda>t. tok_bytes t @ [0x20]) ts)"

lemma render_simps [simp]: "render [] = []" "render (t # ts) = tok_bytes t @ 0x20 # render ts" "render (ts @ us) = render ts @ render us"
  by (simp_all add: render_def)

text \<open>The rest of the line after position \<open>s\<close> is the tokens \<open>ts\<close>, after some blanks.\<close>

definition yields :: "byte list \<Rightarrow> nat \<Rightarrow> tok list \<Rightarrow> nat \<Rightarrow> bool" where
  "yields buf es ts s \<longleftrightarrow> (\<exists>n z. drop s buf = replicate n 0x20 @ render ts @ 0 # z \<and> s + n + length (render ts) = es) \<and> (\<forall>t \<in> set ts. tok_ok t)"

definition starts :: "byte list \<Rightarrow> tok list \<Rightarrow> bool" where
  "starts cs ts \<longleftrightarrow> (case ts of [] \<Rightarrow> False | t # _ \<Rightarrow> hd (tok_bytes t) \<in> set cs)"

lemma skip_exact:
  assumes "drop s buf = xs @ r" "\<forall>x \<in> set xs. P x" "s + length xs \<le> es" "s + length xs < es \<longrightarrow> r \<noteq> [] \<and> \<not> P (hd r)"
  shows "skip_while P buf es s = Done () (s + length xs)"
  using assms
proof (induction xs arbitrary: s)
  case Nil
  show ?case
  proof (cases "s < es")
    case True
    then have "r \<noteq> []" "\<not> P (hd r)" using Nil.prems(4) by simp_all
    then have "s < length buf" "buf ! s = hd r" using Nil.prems(1) by (auto simp: hd_drop_conv_nth)
    then show ?thesis using True \<open>\<not> P (hd r)\<close> by (subst skip_while.simps) simp
  qed (subst skip_while.simps, simp)
next
  case (Cons x xs)
  have s: "s < length buf" using Cons.prems(1) by (metis append_Cons drop_eq_Nil2 leI list.distinct(1))
  then have "buf ! s = x" "drop (s + 1) buf = xs @ r" using Cons.prems(1) by (simp_all add: Cons_nth_drop_Suc [symmetric])
  then show ?case using s Cons.IH [of "s + 1"] Cons.prems by (subst skip_while.simps) simp
qed

lemma tok_bytes_hd: "tok_ok t \<Longrightarrow> tok_bytes t \<noteq> [] \<and> hd (tok_bytes t) \<noteq> 0 \<and> \<not> strchr_hit whitespace (hd (tok_bytes t))"
  by (cases t) (auto simp: wordc_def hit_whitespace)

lemma yields_skip:
  assumes "yields buf es ts s"
  shows "\<exists>t z. skip_ws buf es s = Done () t \<and> drop t buf = render ts @ 0 # z \<and> t + length (render ts) = es \<and> yields buf es ts t"
proof -
  obtain n z where n: "drop s buf = replicate n 0x20 @ render ts @ 0 # z" "s + n + length (render ts) = es" and ok: "\<forall>t \<in> set ts. tok_ok t"
    using assms by (auto simp: yields_def)
  have "skip_while (strchr_hit whitespace) buf es s = Done () (s + length (replicate n (0x20 :: byte)))"
  proof (rule skip_exact [OF n(1)])
    show "\<forall>x \<in> set (replicate n 0x20). strchr_hit whitespace x" by (simp add: hit_whitespace)
    show "s + length (replicate n (0x20 :: byte)) \<le> es" using n(2) by simp
    show "s + length (replicate n (0x20 :: byte)) < es \<longrightarrow> render ts @ 0 # z \<noteq> [] \<and> \<not> strchr_hit whitespace (hd (render ts @ 0 # z))"
      using n(2) ok tok_bytes_hd by (cases ts) auto
  qed
  moreover have "drop (s + n) buf = render ts @ 0 # z" using n(1) by (metis add.commute append_eq_conv_conj drop_drop length_replicate)
  ultimately show ?thesis using n(2) ok unfolding yields_def skip_ws_def
    by (intro exI [of _ "s + n"] exI [of _ z]) (auto intro!: exI [of _ 0])
qed

lemma rdb_drop: "drop t buf = c # r \<Longrightarrow> rdb buf t = Done c t"
  by (simp add: rdb_def) (metis drop_eq_Nil2 hd_drop_conv_nth leI list.distinct(1) list.sel(1))

lemma yields_peek:
  assumes "yields buf es ts s" "0 \<notin> set cs"
  shows "\<exists>t. peek buf es cs s = Done (starts cs ts) t \<and> yields buf es ts t"
proof -
  obtain t z where t: "skip_ws buf es s = Done () t" "drop t buf = render ts @ 0 # z" "yields buf es ts t" using yields_skip [OF assms(1)] by blast
  show ?thesis
  proof (cases ts)
    case Nil
    then have "rdb buf t = Done 0 t" using rdb_drop t(2) by simp
    then show ?thesis using t Nil by (simp add: peek_def bnd_def ret_def starts_def)
  next
    case (Cons k ts')
    then have "tok_ok k" using assms(1) by (simp add: yields_def)
    note h = tok_bytes_hd [OF this]
    then obtain c w where k: "tok_bytes k = c # w" by (cases "tok_bytes k") auto
    then have "rdb buf t = Done c t" using rdb_drop t(2) Cons by simp
    then show ?thesis using t Cons h k by (simp add: peek_def bnd_def ret_def starts_def strchr_hit_iff [OF assms(2)])
  qed
qed


lemma switch_token:
  assumes k: "tok_ok k" and q: "drop q buf = tok_bytes k @ 0x20 # r" and es: "q + length (tok_bytes k) < es"
  shows "token_switch buf es (hd (tok_bytes k)) q = Done (tok_code k) (q + length (tok_bytes k))"
proof (cases k)
  case (Word w)
  then have w: "w \<noteq> []" "\<forall>x \<in> set w. wordc x" using k by simp_all
  then have c: "wordc (hd w)" by simp
  let ?P = "\<lambda>x. \<not> strchr_hit whitespace x \<and> \<not> strchr_hit symbols x"
  have "skip_while ?P buf es q = Done () (q + length w)"
  proof (rule skip_exact)
    show "drop q buf = w @ 0x20 # r" using q Word by simp
    show "\<forall>x \<in> set w. ?P x" using w(2) by (auto simp: wordc_def)
  qed (use es Word in \<open>auto simp: hit_whitespace\<close>)
  then show ?thesis using c Word by (auto simp: token_switch_def bnd_def ret_def wordc_def hit_symbols)
next
  case (Sym c)
  have "drop (Suc q) buf = 0x20 # r" using q Sym by (metis append_Cons append_Nil drop_Suc list.sel(3) tl_drop tok_bytes.simps(2))
  then have "rdb buf (Suc q) = Done 0x20 (Suc q)" by (rule rdb_drop)
  then show ?thesis using k Sym by (auto simp: token_switch_def bnd_def ret_def modify_def)
next
  case App
  have "drop (Suc q) buf = 0x3E # 0x20 # r" using q App by (metis append_Cons drop_Suc list.sel(3) tl_drop tok_bytes.simps(3) append_Nil)
  then have "rdb buf (Suc q) = Done 0x3E (Suc q)" by (rule rdb_drop)
  then show ?thesis using App by (simp add: token_switch_def bnd_def ret_def modify_def)
qed

lemma yields_token:
  assumes "yields buf es (k # ts) s"
  shows "\<exists>q eq u. gettoken buf es s = Done (tok_code k, q, eq) u \<and> yields buf es ts u \<and> span_text buf (q, eq) = tok_bytes k"
proof -
  have k: "tok_ok k" "\<forall>t \<in> set ts. tok_ok t" using assms by (simp_all add: yields_def)
  obtain q z where q: "skip_ws buf es s = Done () q" "drop q buf = tok_bytes k @ 0x20 # render ts @ 0 # z" "q + length (tok_bytes k) + 1 + length (render ts) = es"
    using yields_skip [OF assms] by auto
  let ?e = "q + length (tok_bytes k)"
  obtain c w where c: "tok_bytes k = c # w" using tok_bytes_hd [OF k(1)] by (cases "tok_bytes k") auto
  have sw: "token_switch buf es c q = Done (tok_code k) ?e" using switch_token [OF k(1) q(2)] q(3) c by simp
  have "drop ?e buf = 0x20 # render ts @ 0 # z" using q(2) by (metis append_eq_conv_conj drop_drop add.commute)
  then have "yields buf es ts ?e" using q(3) k(2) unfolding yields_def by (intro conjI exI [of _ 1] exI [of _ z]) simp_all
  from yields_skip [OF this] obtain u where u: "skip_ws buf es ?e = Done () u" "yields buf es ts u" by blast
  have "rdb buf q = Done c q" using rdb_drop q(2) c by simp
  then have "gettoken buf es s = Done (tok_code k, q, ?e) u" using q(1) sw u(1) by (simp add: gettoken_def bnd_def gets_def ret_def)
  moreover have "span_text buf (q, ?e) = tok_bytes k" using q(2) by (simp add: span_text_def)
  ultimately show ?thesis using u(2) by blast
qed

lemma yields_end:
  assumes "yields buf es [] s"
  shows "\<exists>q eq u. gettoken buf es s = Done (0, q, eq) u \<and> yields buf es [] u"
proof -
  obtain q z where q: "skip_ws buf es s = Done () q" "drop q buf = 0 # z" "q = es" "yields buf es [] q" using yields_skip [OF assms] by auto
  obtain u where u: "skip_ws buf es q = Done () u" "yields buf es [] u" using yields_skip [OF q(4)] by blast
  have "rdb buf q = Done 0 q" using rdb_drop q(2) by simp
  then have "gettoken buf es s = Done (0, q, q) u" using q(1) u(1) by (simp add: gettoken_def token_switch_def bnd_def gets_def ret_def)
  then show ?thesis using u(2) by blast
qed

text \<open>The tree of strings that a command of spans stands for.\<close>

definition cmd_text :: "byte list \<Rightarrow> span scmd \<Rightarrow> byte list scmd" where
  "cmd_text buf = map_scmd (span_text buf)"

lemma cmd_text_simps [simp]:
  "cmd_text buf (ExecCmd ws) = ExecCmd (map (span_text buf) ws)"
  "cmd_text buf (RedirCmd c w m fd) = RedirCmd (cmd_text buf c) (span_text buf w) m fd"
  "cmd_text buf (PipeCmd c d) = PipeCmd (cmd_text buf c) (cmd_text buf d)"
  "cmd_text buf (ListCmd c d) = ListCmd (cmd_text buf c) (cmd_text buf d)"
  "cmd_text buf (BackCmd c) = BackCmd (cmd_text buf c)"
  by (simp_all add: cmd_text_def)

lemma cmd_text_add: "cmd_text buf (add_arg c w) = add_arg (cmd_text buf c) (span_text buf w)"
  by (induction c) simp_all

text \<open>Redirections: the token and the string of each, and the command they make.\<close>

type_synonym redir = "tok \<times> byte list"

fun redir_tok :: "uint \<Rightarrow> nat \<Rightarrow> tok" where
  "redir_tok mode fd = (if fd = 0 then Sym 0x3C else if mode AND O_TRUNC = 0 then App else Sym 0x3E)"

definition redir_toks :: "redir list \<Rightarrow> tok list" where
  "redir_toks rs = concat (map (\<lambda>(k, w). [k, Word w]) rs)"

definition wrap :: "'w scmd \<Rightarrow> (tok \<times> 'w) list \<Rightarrow> 'w scmd" where
  "wrap c rs = fold (\<lambda>(k, w) c. redir_switch (tok_code k) c w) rs c"

definition redir_kind :: "tok \<Rightarrow> bool" where
  "redir_kind k \<longleftrightarrow> k \<in> {Sym 0x3C, Sym 0x3E, App}"

lemma cmd_text_switch: "cmd_text buf (redir_switch k c w) = redir_switch k (cmd_text buf c) (span_text buf w)"
  by (simp add: redir_switch_def)

lemma parse_redirs:
  assumes "yields buf es (redir_toks rs @ ts) s" "\<forall>(k, w) \<in> set rs. redir_kind k" "\<not> starts [0x3C, 0x3E] ts" "length rs < fuel"
  shows "\<exists>d t. parseredirs fuel c buf es s = Done d t \<and> cmd_text buf d = wrap (cmd_text buf c) rs \<and> yields buf es ts t"
  using assms
proof (induction rs arbitrary: s c fuel)
  case Nil
  then obtain f where f: "fuel = Suc f" by (cases fuel) auto
  obtain t where "peek buf es [0x3C, 0x3E] s = Done (starts [0x3C, 0x3E] ts) t" "yields buf es ts t"
    using yields_peek [of buf es ts s "[0x3C, 0x3E]"] Nil.prems(1) by (auto simp: redir_toks_def)
  then show ?case using f Nil.prems(3) by (simp add: bnd_def ret_def wrap_def)
next
  case (Cons r rs)
  obtain k w where r: "r = (k, w)" by (cases r)
  obtain f where f: "fuel = Suc f" using Cons.prems(4) by (cases fuel) auto
  have kk: "redir_kind k" using Cons.prems(2) r by simp
  have y: "yields buf es (k # Word w # redir_toks rs @ ts) s" using Cons.prems(1) r by (simp add: redir_toks_def)
  have st: "starts [0x3C, 0x3E] (k # Word w # redir_toks rs @ ts)" using kk by (auto simp: starts_def redir_kind_def)
  obtain t where t: "peek buf es [0x3C, 0x3E] s = Done True t" "yields buf es (k # Word w # redir_toks rs @ ts) t"
    using yields_peek [OF y, of "[0x3C, 0x3E]"] st by auto
  obtain q eq u where u: "gettoken buf es t = Done (tok_code k, q, eq) u" "yields buf es (Word w # redir_toks rs @ ts) u"
    using yields_token [OF t(2)] by blast
  obtain q' eq' v where v: "gettoken buf es u = Done (0x61, q', eq') v" "yields buf es (redir_toks rs @ ts) v" "span_text buf (q', eq') = w"
    using yields_token [OF u(2)] by auto
  obtain d x where d: "parseredirs f (redir_switch (tok_code k) c (q', eq')) buf es v = Done d x"
    "cmd_text buf d = wrap (cmd_text buf (redir_switch (tok_code k) c (q', eq'))) rs" "yields buf es ts x"
    using Cons.IH [OF v(2), where c = "redir_switch (tok_code k) c (q', eq')" and fuel = f] Cons.prems f by auto
  then show ?case using f t(1) u(1) v r by (simp add: bnd_def wrap_def cmd_text_switch)
qed


definition add_args :: "'w scmd \<Rightarrow> 'w list \<Rightarrow> 'w scmd" where
  "add_args c ws = fold (\<lambda>w c. add_arg c w) ws c"

definition stop_exec :: "tok list \<Rightarrow> bool" where
  "stop_exec ts \<longleftrightarrow> ts = [] \<or> (\<exists>c r. ts = Sym c # r \<and> c \<in> {0x7C, 0x29, 0x26, 0x3B})"

lemma stop_starts: "stop_exec ts \<Longrightarrow> \<not> starts [0x3C, 0x3E] ts \<and> \<not> starts [0x28] ts"
  by (auto simp: stop_exec_def starts_def)

lemma word_starts: "tok_ok (Word w) \<Longrightarrow> set cs \<subseteq> set symbols \<Longrightarrow> \<not> starts cs (Word w # ts)"
proof -
  assume w: "tok_ok (Word w)" "set cs \<subseteq> set symbols"
  have z: "0 \<notin> set symbols" by (simp add: symbols_def)
  have "wordc (hd w)" using w by simp
  then have "hd w \<notin> set symbols" using strchr_hit_iff [OF z] by (auto simp: wordc_def)
  then show ?thesis using w by (auto simp: starts_def)
qed

lemma parse_args:
  assumes "yields buf es (map Word ws @ redir_toks rs @ ts) s" "\<forall>(k, w) \<in> set rs. redir_kind k" "stop_exec ts" "ws = [] \<longrightarrow> rs = []"
    "argc + length ws < MAXARGS" "length ws + length rs < fuel"
  shows "\<exists>d t. parseargs fuel c argc buf es s = Done d t \<and> cmd_text buf d = wrap (add_args (cmd_text buf c) ws) rs \<and> yields buf es ts t"
  using assms
proof (induction ws arbitrary: s c argc fuel rs)
  case Nil
  then obtain f where f: "fuel = Suc f" by (cases fuel) auto
  have y: "yields buf es ts s" and rs: "rs = []" using Nil.prems by (simp_all add: redir_toks_def)
  obtain t where t: "peek buf es [0x7C, 0x29, 0x26, 0x3B] s = Done (starts [0x7C, 0x29, 0x26, 0x3B] ts) t" "yields buf es ts t"
    using yields_peek [OF y, of "[0x7C, 0x29, 0x26, 0x3B]"] by auto
  show ?case
  proof (cases "ts = []")
    case True
    then obtain q eq u where u: "gettoken buf es t = Done (0, q, eq) u" "yields buf es ts u" using yields_end t(2) by metis
    then show ?thesis using t True f rs by (simp add: bnd_def ret_def wrap_def add_args_def starts_def)
  next
    case False
    then have "starts [0x7C, 0x29, 0x26, 0x3B] ts" using Nil.prems(3) by (auto simp: stop_exec_def starts_def)
    then show ?thesis using t f rs by (simp add: bnd_def ret_def wrap_def add_args_def)
  qed
next
  case (Cons w ws)
  obtain f where f: "fuel = Suc f" using Cons.prems(6) by (cases fuel) auto
  let ?rest = "map Word ws @ redir_toks rs @ ts"
  have y: "yields buf es (Word w # ?rest) s" using Cons.prems(1) by simp
  then have ok: "tok_ok (Word w)" "\<forall>x \<in> set ws. tok_ok (Word x)" by (simp_all add: yields_def del: tok_ok.simps)
  have ns: "\<not> starts [0x7C, 0x29, 0x26, 0x3B] (Word w # ?rest)" by (rule word_starts [OF ok(1)]) (simp add: symbols_def)
  obtain t where t: "peek buf es [0x7C, 0x29, 0x26, 0x3B] s = Done False t" "yields buf es (Word w # ?rest) t"
    using yields_peek [OF y, of "[0x7C, 0x29, 0x26, 0x3B]"] ns by auto
  obtain q eq u where u: "gettoken buf es t = Done (0x61, q, eq) u" "yields buf es ?rest u" "span_text buf (q, eq) = w"
    using yields_token [OF t(2)] by auto
  let ?c = "add_arg c (q, eq)"
  define rs1 rs2 where "rs1 = (if ws = [] then rs else [])" and "rs2 = (if ws = [] then [] else rs)"
  have "\<not> starts [0x3C, 0x3E] (map Word ws @ redir_toks rs2 @ ts)"
    using stop_starts [OF Cons.prems(3)] word_starts [of _ "[0x3C, 0x3E]"] ok(2) by (cases ws) (auto simp: rs2_def redir_toks_def symbols_def)
  moreover have "yields buf es (redir_toks rs1 @ map Word ws @ redir_toks rs2 @ ts) u" using u(2) by (auto simp: rs1_def rs2_def redir_toks_def)
  moreover have "\<forall>(k, w) \<in> set rs1. redir_kind k" "length rs1 < f" using Cons.prems(2,6) f by (auto simp: rs1_def)
  ultimately obtain d v where d: "parseredirs f ?c buf es u = Done d v" "cmd_text buf d = wrap (cmd_text buf ?c) rs1"
    "yields buf es (map Word ws @ redir_toks rs2 @ ts) v" using parse_redirs [of buf es rs1 "map Word ws @ redir_toks rs2 @ ts" u f ?c] by blast
  have p: "\<forall>(k, w) \<in> set rs2. redir_kind k" "ws = [] \<longrightarrow> rs2 = []" "argc + 1 + length ws < MAXARGS" "length ws + length rs2 < f"
    using Cons.prems f by (auto simp: rs2_def)
  obtain e x where e: "parseargs f d (argc + 1) buf es v = Done e x" "cmd_text buf e = wrap (add_args (cmd_text buf d) ws) rs2" "yields buf es ts x"
    using Cons.IH [OF d(3) p(1) Cons.prems(3) p(2-4), of d] by blast
  have "cmd_text buf e = wrap (add_args (cmd_text buf c) (w # ws)) rs"
    using e(2) d(2) u(3) by (cases "ws = []") (simp_all add: rs1_def rs2_def wrap_def add_args_def cmd_text_add)
  then show ?case using f t(1) u(1) d(1) e(1,3) Cons.prems(5) by (simp add: bnd_def)
qed

section \<open>Reading a printed command back\<close>

function pr_line :: "byte list scmd \<Rightarrow> tok list" and pr_back :: "byte list scmd \<Rightarrow> tok list"
  and pr_pipe :: "byte list scmd \<Rightarrow> tok list" and pr_exec :: "byte list scmd \<Rightarrow> tok list" where
  "pr_line c = (case c of ListCmd a b \<Rightarrow> pr_back a @ Sym 0x3B # pr_line b | _ \<Rightarrow> pr_back c)"
| "pr_back c = (case c of BackCmd a \<Rightarrow> pr_back a @ [Sym 0x26] | _ \<Rightarrow> pr_pipe c)"
| "pr_pipe c = (case c of PipeCmd a b \<Rightarrow> pr_exec a @ Sym 0x7C # pr_pipe b | _ \<Rightarrow> pr_exec c)"
| "pr_exec c = (case c of
     ExecCmd ws \<Rightarrow> map Word ws
   | RedirCmd a w mode fd \<Rightarrow> pr_exec a @ [redir_tok mode fd, Word w]
   | PipeCmd a b \<Rightarrow> Sym 0x28 # pr_exec a @ Sym 0x7C # pr_pipe b @ [Sym 0x29]
   | ListCmd a b \<Rightarrow> Sym 0x28 # pr_back a @ Sym 0x3B # pr_line b @ [Sym 0x29]
   | BackCmd a \<Rightarrow> Sym 0x28 # pr_back a @ [Sym 0x26, Sym 0x29])"
  by pat_completeness auto
termination
  by (relation "measure (\<lambda>x. case x of Inl (Inl c) \<Rightarrow> 4 * size c + 3 | Inl (Inr c) \<Rightarrow> 4 * size c + 2 | Inr (Inl c) \<Rightarrow> 4 * size c + 1 | Inr (Inr c) \<Rightarrow> 4 * size c)") auto

declare pr_line.simps [simp del] pr_back.simps [simp del] pr_pipe.simps [simp del] pr_exec.simps [simp del]

fun base :: "'w scmd \<Rightarrow> 'w scmd" where
  "base (RedirCmd c w mode fd) = base c"
| "base c = c"

fun redirs :: "byte list scmd \<Rightarrow> redir list" where
  "redirs (RedirCmd c w mode fd) = redirs c @ [(redir_tok mode fd, w)]"
| "redirs c = []"

fun redirs_valid :: "'w scmd \<Rightarrow> bool" where
  "redirs_valid (ExecCmd ws) = True"
| "redirs_valid (RedirCmd c w mode fd) \<longleftrightarrow> redirs_valid c \<and>
     (mode = O_RDONLY \<and> fd = 0 \<or> mode = O_WRONLY OR O_CREATE OR O_TRUNC \<and> fd = 1 \<or> mode = O_WRONLY OR O_CREATE \<and> fd = 1)"
| "redirs_valid (PipeCmd c d) \<longleftrightarrow> redirs_valid c \<and> redirs_valid d"
| "redirs_valid (ListCmd c d) \<longleftrightarrow> redirs_valid c \<and> redirs_valid d"
| "redirs_valid (BackCmd c) \<longleftrightarrow> redirs_valid c"

definition wf_cmd :: "byte list scmd \<Rightarrow> bool" where
  "wf_cmd c \<longleftrightarrow> (\<forall>w \<in> set_scmd c. w \<noteq> [] \<and> (\<forall>x \<in> set w. wordc x)) \<and> args_fit c \<and> redirs_valid c"

lemma wf_cmd_sub:
  "wf_cmd (RedirCmd c w m fd) \<Longrightarrow> wf_cmd c" "wf_cmd (PipeCmd c d) \<Longrightarrow> wf_cmd c \<and> wf_cmd d"
  "wf_cmd (ListCmd c d) \<Longrightarrow> wf_cmd c \<and> wf_cmd d" "wf_cmd (BackCmd c) \<Longrightarrow> wf_cmd c"
  by (auto simp: wf_cmd_def)

lemma redir_tok_switch:
  assumes "mode = O_RDONLY \<and> fd = 0 \<or> mode = O_WRONLY OR O_CREATE OR O_TRUNC \<and> fd = 1 \<or> mode = O_WRONLY OR O_CREATE \<and> fd = 1"
  shows "redir_switch (tok_code (redir_tok mode fd)) c w = RedirCmd c w mode fd" "redir_kind (redir_tok mode fd)"
  using assms by (auto simp: redir_switch_def redir_kind_def)

lemma wrap_base: "redirs_valid c \<Longrightarrow> wrap (base c) (redirs c) = c"
proof (induction c)
  case (RedirCmd c w mode fd)
  then have "redir_switch (tok_code (redir_tok mode fd)) c w = RedirCmd c w mode fd" by (intro redir_tok_switch) simp
  then show ?case using RedirCmd by (simp add: wrap_def del: redir_tok.simps)
qed (simp_all add: wrap_def)

lemma redirs_kind: "redirs_valid c \<Longrightarrow> \<forall>(k, w) \<in> set (redirs c). redir_kind k"
proof (induction c)
  case (RedirCmd c w mode fd)
  then show ?case using redir_tok_switch(2) [of mode fd] by (auto simp del: redir_tok.simps)
qed simp_all

lemma wf_base: "wf_cmd c \<Longrightarrow> wf_cmd (base c)"
  by (induction c) (auto dest: wf_cmd_sub(1))

lemma pr_exec_base: "pr_exec c = pr_exec (base c) @ redir_toks (redirs c)"
proof (induction c)
  case (RedirCmd c w mode fd)
  then show ?case by (subst pr_exec.simps) (simp add: redir_toks_def)
qed (simp_all add: redir_toks_def)

lemma pr_exec_Exec: "pr_exec (ExecCmd ws) = map Word ws"
  by (simp add: pr_exec.simps)

definition is_block :: "'w scmd \<Rightarrow> bool" where
  "is_block c \<longleftrightarrow> (case c of ExecCmd _ \<Rightarrow> False | RedirCmd _ _ _ _ \<Rightarrow> False | _ \<Rightarrow> True)"

lemma base_form: "is_block (base c) \<or> (\<exists>ws. base c = ExecCmd ws)"
  by (induction c) (auto simp: is_block_def)

lemma pr_exec_block: "is_block c \<Longrightarrow> pr_exec c = Sym 0x28 # pr_line c @ [Sym 0x29]"
  by (cases c) (simp_all add: is_block_def pr_exec.simps [of "PipeCmd _ _"] pr_exec.simps [of "ListCmd _ _"] pr_exec.simps [of "BackCmd _"]
      pr_line.simps [of "PipeCmd _ _"] pr_line.simps [of "ListCmd _ _"] pr_line.simps [of "BackCmd _"]
      pr_back.simps [of "PipeCmd _ _"] pr_back.simps [of "BackCmd _"] pr_pipe.simps [of "PipeCmd _ _"])

definition stop_pipe :: "tok list \<Rightarrow> bool" where
  "stop_pipe ts \<longleftrightarrow> ts = [] \<or> (\<exists>c r. ts = Sym c # r \<and> c \<in> {0x29, 0x26, 0x3B})"

definition stop_line :: "tok list \<Rightarrow> bool" where
  "stop_line ts \<longleftrightarrow> ts = [] \<or> (\<exists>r. ts = Sym 0x29 # r)"

text \<open>Each parser reads the tokens of its printer back.\<close>

definition reads :: "(nat \<Rightarrow> (nat, span scmd) kmon) \<Rightarrow> byte list \<Rightarrow> nat \<Rightarrow> nat \<Rightarrow> tok list \<Rightarrow> (tok list \<Rightarrow> bool) \<Rightarrow> byte list scmd \<Rightarrow> bool" where
  "reads p buf es k toks stop c \<longleftrightarrow> (\<forall>s ts f. yields buf es (toks @ ts) s \<and> stop ts \<and> 4 * length toks + k \<le> f \<longrightarrow>
     (\<exists>d t. p f s = Done d t \<and> cmd_text buf d = c \<and> yields buf es ts t))"

abbreviation reads_line where "reads_line buf es c \<equiv> reads (\<lambda>f. parseline f buf es) buf es 4 (pr_line c) stop_line c"
abbreviation reads_pipe where "reads_pipe buf es c \<equiv> reads (\<lambda>f. parsepipe f buf es) buf es 3 (pr_pipe c) stop_pipe c"
abbreviation reads_exec where "reads_exec buf es c \<equiv> reads (\<lambda>f. parseexec f buf es) buf es 2 (pr_exec c) stop_exec c"

definition reads_back :: "byte list \<Rightarrow> nat \<Rightarrow> byte list scmd \<Rightarrow> bool" where
  "reads_back buf es c \<longleftrightarrow> (\<forall>s ts f. yields buf es (pr_back c @ ts) s \<and> stop_pipe ts \<and> 4 * length (pr_back c) + 3 \<le> f \<longrightarrow>
     (\<exists>d t g. bnd (parsepipe f buf es) (\<lambda>c. parseback f c buf es) s = parseback g d buf es t \<and> cmd_text buf d = c \<and>
       yields buf es ts t \<and> f \<le> g + length (pr_back c)))"

lemma length_redir_toks: "length (redir_toks rs) = 2 * length rs"
  by (induction rs) (auto simp: redir_toks_def)

lemma exec_simple:
  assumes wf: "wf_cmd c" and b: "base c = ExecCmd ws"
  shows "reads_exec buf es c"
  unfolding reads_def
proof (intro allI impI, elim conjE)
  fix s ts f
  assume y: "yields buf es (pr_exec c @ ts) s" and st: "stop_exec ts" and f: "4 * length (pr_exec c) + 2 \<le> f"
  obtain g where g: "f = Suc g" using f by (cases f) auto
  let ?rs = "redirs c"
  have toks: "pr_exec c = map Word ws @ redir_toks ?rs" using pr_exec_base [of c] b by (simp add: pr_exec_Exec)
  have y: "yields buf es (map Word ws @ redir_toks ?rs @ ts) s" using y toks by simp
  have rk: "\<forall>(k, w) \<in> set ?rs. redir_kind k" using wf redirs_kind by (auto simp: wf_cmd_def)
  have len: "length ws < MAXARGS" using wf_base [OF wf] b by (simp add: wf_cmd_def)
  have fl: "length ws + length ?rs < g" using f g toks by (simp add: length_redir_toks)
  have "\<not> starts [0x28] (map Word ws @ redir_toks ?rs @ ts)"
  proof (cases ws)
    case Nil
    then show ?thesis using rk stop_starts [OF st] by (cases ?rs) (auto simp: redir_toks_def starts_def redir_kind_def)
  next
    case (Cons w ws')
    then have "tok_ok (Word w)" using y by (simp add: yields_def)
    then show ?thesis using Cons word_starts [of w "[0x28]"] by (simp add: symbols_def)
  qed
  then obtain t where t: "peek buf es [0x28] s = Done False t" "yields buf es (map Word ws @ redir_toks ?rs @ ts) t"
    using yields_peek [OF y, of "[0x28]"] by auto
  define rs1 rs2 where "rs1 = (if ws = [] then ?rs else [])" and "rs2 = (if ws = [] then [] else ?rs)"
  have "yields buf es (redir_toks rs1 @ map Word ws @ redir_toks rs2 @ ts) t" using t(2) by (auto simp: rs1_def rs2_def redir_toks_def)
  moreover have "\<not> starts [0x3C, 0x3E] (map Word ws @ redir_toks rs2 @ ts)"
  proof (cases ws)
    case Nil
    then show ?thesis using stop_starts [OF st] by (simp add: rs2_def redir_toks_def)
  next
    case (Cons w ws')
    then have "tok_ok (Word w)" using y by (simp add: yields_def)
    then show ?thesis using Cons word_starts [of w "[0x3C, 0x3E]"] by (simp add: symbols_def)
  qed
  moreover have "\<forall>(k, w) \<in> set rs1. redir_kind k" "length rs1 < g" using rk fl by (auto simp: rs1_def)
  ultimately obtain d u where d: "parseredirs g (ExecCmd []) buf es t = Done d u" "cmd_text buf d = wrap (cmd_text buf (ExecCmd [])) rs1"
    "yields buf es (map Word ws @ redir_toks rs2 @ ts) u" using parse_redirs [of buf es rs1 "map Word ws @ redir_toks rs2 @ ts" t g "ExecCmd []"] by blast
  have p: "\<forall>(k, w) \<in> set rs2. redir_kind k" "ws = [] \<longrightarrow> rs2 = []" "0 + length ws < MAXARGS" "length ws + length rs2 < g"
    using rk fl len by (auto simp: rs2_def)
  obtain e v where e: "parseargs g d 0 buf es u = Done e v" "cmd_text buf e = wrap (add_args (cmd_text buf d) ws) rs2" "yields buf es ts v"
    using parse_args [OF d(3) p(1) st p(2-4), of d] by blast
  have "add_args (ExecCmd xs) ws = ExecCmd (xs @ ws)" for xs :: "byte list list" by (induction ws arbitrary: xs) (simp_all add: add_args_def)
  then have "cmd_text buf e = wrap (ExecCmd ws) ?rs" using e(2) d(2) by (cases "ws = []") (simp_all add: rs1_def rs2_def wrap_def add_args_def)
  then have "cmd_text buf e = c" using wrap_base [of c] b wf by (simp add: wf_cmd_def)
  then show "\<exists>d t. parseexec f buf es s = Done d t \<and> cmd_text buf d = c \<and> yields buf es ts t"
    using g t(1) d(1) e(1,3) by (simp add: bnd_def)
qed

lemma exec_block:
  assumes wf: "wf_cmd c" and b: "is_block (base c)" and line: "reads_line buf es (base c)"
  shows "reads_exec buf es c"
  unfolding reads_def
proof (intro allI impI, elim conjE)
  fix s ts f
  assume y: "yields buf es (pr_exec c @ ts) s" and st: "stop_exec ts" and f: "4 * length (pr_exec c) + 2 \<le> f"
  let ?rs = "redirs c"
  let ?in = "pr_line (base c)"
  have toks: "pr_exec c = Sym 0x28 # ?in @ Sym 0x29 # redir_toks ?rs" using pr_exec_base [of c] pr_exec_block [OF b] by simp
  obtain g where g: "f = Suc (Suc g)" "4 * length ?in + 4 \<le> g" "length ?rs < g"
  proof -
    have "4 * length ?in + 8 * length ?rs + 10 \<le> f" using f toks by (simp add: length_redir_toks)
    then show ?thesis using that [of "f - 2"] by simp
  qed
  let ?t1 = "?in @ Sym 0x29 # redir_toks ?rs @ ts"
  let ?t2 = "redir_toks ?rs @ ts"
  have y: "yields buf es (Sym 0x28 # ?t1) s" using y toks by simp
  have pk: "\<exists>t. peek buf es [0x28] s = Done True t \<and> yields buf es (Sym 0x28 # ?t1) t" if "yields buf es (Sym 0x28 # ?t1) s" for s
    using yields_peek [OF that, of "[0x28]"] by (auto simp: starts_def)
  obtain t where t: "peek buf es [0x28] s = Done True t" "yields buf es (Sym 0x28 # ?t1) t" using pk [OF y] by blast
  obtain u where u: "peek buf es [0x28] t = Done True u" "yields buf es (Sym 0x28 # ?t1) u" using pk [OF t(2)] by blast
  obtain q eq v where v: "gettoken buf es u = Done (0x28, q, eq) v" "yields buf es ?t1 v" using yields_token [OF u(2)] by auto
  have "stop_line (Sym 0x29 # ?t2)" by (simp add: stop_line_def)
  then obtain d w where d: "parseline g buf es v = Done d w" "cmd_text buf d = base c" "yields buf es (Sym 0x29 # ?t2) w"
    using line v(2) g(2) unfolding reads_def by blast
  obtain x where x: "peek buf es [0x29] w = Done True x" "yields buf es (Sym 0x29 # ?t2) x"
    using yields_peek [OF d(3), of "[0x29]"] by (auto simp: starts_def)
  obtain q' eq' z where z: "gettoken buf es x = Done (0x29, q', eq') z" "yields buf es ?t2 z" using yields_token [OF x(2)] by auto
  have rk: "\<forall>(k, w) \<in> set ?rs. redir_kind k" using wf redirs_kind by (auto simp: wf_cmd_def)
  obtain e r where e: "parseredirs g d buf es z = Done e r" "cmd_text buf e = wrap (cmd_text buf d) ?rs" "yields buf es ts r"
    using parse_redirs [OF z(2) rk _ g(3), of d] stop_starts [OF st] by blast
  have "cmd_text buf e = c" using e(2) d(2) wrap_base [of c] wf by (simp add: wf_cmd_def)
  then show "\<exists>d t. parseexec f buf es s = Done d t \<and> cmd_text buf d = c \<and> yields buf es ts t"
    using g(1) t(1) u(1) v(1) d(1) x(1) z(1) e(1,3) by (simp add: bnd_def)
qed


lemma exec_pipe:
  assumes "reads_exec buf es c" "pr_pipe c = pr_exec c"
  shows "reads_pipe buf es c"
  unfolding reads_def
proof (intro allI impI, elim conjE)
  fix s ts f
  assume y: "yields buf es (pr_pipe c @ ts) s" and st: "stop_pipe ts" and f: "4 * length (pr_pipe c) + 3 \<le> f"
  then obtain g where g: "f = Suc g" "4 * length (pr_exec c) + 2 \<le> g" using assms(2) by (cases f) auto
  have "stop_exec ts" using st by (auto simp: stop_pipe_def stop_exec_def)
  then obtain d t where d: "parseexec g buf es s = Done d t" "cmd_text buf d = c" "yields buf es ts t"
    using assms y g(2) unfolding reads_def by metis
  have "\<not> starts [0x7C] ts" using st by (auto simp: stop_pipe_def starts_def)
  then obtain u where "peek buf es [0x7C] t = Done False u" "yields buf es ts u" using yields_peek [OF d(3), of "[0x7C]"] by auto
  then show "\<exists>d t. parsepipe f buf es s = Done d t \<and> cmd_text buf d = c \<and> yields buf es ts t"
    using d g(1) by (simp add: bnd_def ret_def)
qed

lemma pipe_pipe:
  assumes "reads_exec buf es a" "reads_pipe buf es b"
  shows "reads_pipe buf es (PipeCmd a b)"
  unfolding reads_def
proof (intro allI impI, elim conjE)
  fix s ts f
  assume y: "yields buf es (pr_pipe (PipeCmd a b) @ ts) s" and st: "stop_pipe ts" and f: "4 * length (pr_pipe (PipeCmd a b)) + 3 \<le> f"
  have toks: "pr_pipe (PipeCmd a b) = pr_exec a @ Sym 0x7C # pr_pipe b" by (simp add: pr_pipe.simps [of "PipeCmd a b"])
  obtain g where g: "f = Suc g" "4 * length (pr_exec a) + 2 \<le> g" "4 * length (pr_pipe b) + 3 \<le> g" using f toks by (cases f) auto
  let ?ts = "Sym 0x7C # pr_pipe b @ ts"
  have "stop_exec ?ts" by (simp add: stop_exec_def)
  then obtain d t where d: "parseexec g buf es s = Done d t" "cmd_text buf d = a" "yields buf es ?ts t"
    using assms(1) y g(2) toks unfolding reads_def by (metis append.assoc append_Cons)
  obtain u where u: "peek buf es [0x7C] t = Done True u" "yields buf es ?ts u" using yields_peek [OF d(3), of "[0x7C]"] by (auto simp: starts_def)
  obtain q eq v where v: "gettoken buf es u = Done (0x7C, q, eq) v" "yields buf es (pr_pipe b @ ts) v" using yields_token [OF u(2)] by auto
  obtain e w where e: "parsepipe g buf es v = Done e w" "cmd_text buf e = b" "yields buf es ts w"
    using assms(2) v(2) st g(3) unfolding reads_def by blast
  then show "\<exists>d t. parsepipe f buf es s = Done d t \<and> cmd_text buf d = PipeCmd a b \<and> yields buf es ts t"
    using d g(1) u(1) v(1) by (simp add: bnd_def ret_def)
qed

lemma pipe_back:
  assumes "reads_pipe buf es c" "pr_back c = pr_pipe c"
  shows "reads_back buf es c"
  unfolding reads_back_def
proof (intro allI impI, elim conjE)
  fix s ts f
  assume "yields buf es (pr_back c @ ts) s" "stop_pipe ts" "4 * length (pr_back c) + 3 \<le> f"
  then obtain d t where "parsepipe f buf es s = Done d t" "cmd_text buf d = c" "yields buf es ts t"
    using assms unfolding reads_def by metis
  then show "\<exists>d t g. bnd (parsepipe f buf es) (\<lambda>c. parseback f c buf es) s = parseback g d buf es t \<and> cmd_text buf d = c \<and>
       yields buf es ts t \<and> f \<le> g + length (pr_back c)"
    by (intro exI [of _ d] exI [of _ t] exI [of _ f]) (simp add: bnd_def)
qed

lemma back_back:
  assumes "reads_back buf es a"
  shows "reads_back buf es (BackCmd a)"
  unfolding reads_back_def
proof (intro allI impI, elim conjE)
  fix s ts f
  assume y: "yields buf es (pr_back (BackCmd a) @ ts) s" and st: "stop_pipe ts" and f: "4 * length (pr_back (BackCmd a)) + 3 \<le> f"
  have toks: "pr_back (BackCmd a) = pr_back a @ [Sym 0x26]" by (simp add: pr_back.simps [of "BackCmd a"])
  have "yields buf es (pr_back a @ Sym 0x26 # ts) s" "stop_pipe (Sym 0x26 # ts)" "4 * length (pr_back a) + 3 \<le> f"
    using y f toks by (simp_all add: stop_pipe_def)
  then obtain d t g where d: "bnd (parsepipe f buf es) (\<lambda>c. parseback f c buf es) s = parseback g d buf es t" "cmd_text buf d = a"
    "yields buf es (Sym 0x26 # ts) t" "f \<le> g + length (pr_back a)" using assms unfolding reads_back_def by blast
  obtain h where h: "g = Suc h" using d(4) f toks by (cases g) auto
  obtain u where u: "peek buf es [0x26] t = Done True u" "yields buf es (Sym 0x26 # ts) u" using yields_peek [OF d(3), of "[0x26]"] by (auto simp: starts_def)
  obtain q eq v where v: "gettoken buf es u = Done (0x26, q, eq) v" "yields buf es ts v" using yields_token [OF u(2)] by auto
  have "parseback g d buf es t = parseback h (BackCmd d) buf es v" using h u(1) v(1) by (simp add: bnd_def)
  then show "\<exists>d t g. bnd (parsepipe f buf es) (\<lambda>c. parseback f c buf es) s = parseback g d buf es t \<and> cmd_text buf d = BackCmd a \<and>
       yields buf es ts t \<and> f \<le> g + length (pr_back (BackCmd a))"
    using d v(2) h toks by (intro exI [of _ "BackCmd d"] exI [of _ v] exI [of _ h]) simp
qed

text \<open>The pipeline with its ampersands, as \<open>parseline\<close> reads it.\<close>

lemma back_done:
  assumes "reads_back buf es c" "yields buf es (pr_back c @ ts) s" "stop_pipe ts" "\<not> starts [0x26] ts" "4 * length (pr_back c) + 3 \<le> f"
  shows "\<exists>d t. bnd (parsepipe f buf es) (\<lambda>c. parseback f c buf es) s = Done d t \<and> cmd_text buf d = c \<and> yields buf es ts t"
proof -
  obtain d t g where d: "bnd (parsepipe f buf es) (\<lambda>c. parseback f c buf es) s = parseback g d buf es t" "cmd_text buf d = c"
    "yields buf es ts t" "f \<le> g + length (pr_back c)" using assms(1,2,3,5) unfolding reads_back_def by blast
  obtain h where h: "g = Suc h" using d(4) assms(5) by (cases g) auto
  obtain u where "peek buf es [0x26] t = Done False u" "yields buf es ts u" using yields_peek [OF d(3), of "[0x26]"] assms(4) by auto
  then show ?thesis using d h by (simp add: bnd_def ret_def)
qed

lemma parseline_back: "parseline (Suc f) buf es =
   bnd (bnd (parsepipe f buf es) (\<lambda>c. parseback f c buf es)) (\<lambda>cmd.
     bnd (peek buf es [0x3B]) (\<lambda>semi.
     if semi then bnd (gettoken buf es) (\<lambda>_. bnd (parseline f buf es) (\<lambda>rest. ret (ListCmd cmd rest)))
     else ret cmd))"
  by (simp add: bnd_assoc)

lemma back_line:
  assumes "reads_back buf es c" "pr_line c = pr_back c"
  shows "reads_line buf es c"
  unfolding reads_def
proof (intro allI impI, elim conjE)
  fix s ts f
  assume y: "yields buf es (pr_line c @ ts) s" and st: "stop_line ts" and f: "4 * length (pr_line c) + 4 \<le> f"
  then obtain g where g: "f = Suc g" "4 * length (pr_back c) + 3 \<le> g" using assms(2) by (cases f) auto
  have st': "stop_pipe ts" "\<not> starts [0x26] ts" "\<not> starts [0x3B] ts" using st by (auto simp: stop_line_def stop_pipe_def starts_def)
  obtain d t where d: "bnd (parsepipe g buf es) (\<lambda>c. parseback g c buf es) s = Done d t" "cmd_text buf d = c" "yields buf es ts t"
    using back_done [OF assms(1) _ st'(1,2) g(2)] y assms(2) by metis
  obtain u where "peek buf es [0x3B] t = Done False u" "yields buf es ts u" using yields_peek [OF d(3), of "[0x3B]"] st'(3) by auto
  then show "\<exists>d t. parseline f buf es s = Done d t \<and> cmd_text buf d = c \<and> yields buf es ts t"
    unfolding g(1) parseline_back using d by (simp add: bnd_def [of "bnd _ _"]) (simp add: bnd_def ret_def)
qed

lemma list_line:
  assumes "reads_back buf es a" "reads_line buf es b"
  shows "reads_line buf es (ListCmd a b)"
  unfolding reads_def
proof (intro allI impI, elim conjE)
  fix s ts f
  assume y: "yields buf es (pr_line (ListCmd a b) @ ts) s" and st: "stop_line ts" and f: "4 * length (pr_line (ListCmd a b)) + 4 \<le> f"
  have toks: "pr_line (ListCmd a b) = pr_back a @ Sym 0x3B # pr_line b" by (simp add: pr_line.simps [of "ListCmd a b"])
  obtain g where g: "f = Suc g" "4 * length (pr_back a) + 3 \<le> g" "4 * length (pr_line b) + 4 \<le> g" using f toks by (cases f) auto
  let ?ts = "Sym 0x3B # pr_line b @ ts"
  have y: "yields buf es (pr_back a @ ?ts) s" using y toks by simp
  have st': "stop_pipe ?ts" "\<not> starts [0x26] ?ts" by (auto simp: stop_pipe_def starts_def)
  obtain d t where d: "bnd (parsepipe g buf es) (\<lambda>c. parseback g c buf es) s = Done d t" "cmd_text buf d = a" "yields buf es ?ts t"
    using back_done [OF assms(1) y st' g(2)] by blast
  obtain u where u: "peek buf es [0x3B] t = Done True u" "yields buf es ?ts u" using yields_peek [OF d(3), of "[0x3B]"] by (auto simp: starts_def)
  obtain q eq v where v: "gettoken buf es u = Done (0x3B, q, eq) v" "yields buf es (pr_line b @ ts) v" using yields_token [OF u(2)] by auto
  obtain e w where e: "parseline g buf es v = Done e w" "cmd_text buf e = b" "yields buf es ts w"
    using assms(2) v(2) st g(3) unfolding reads_def by blast
  show "\<exists>d t. parseline f buf es s = Done d t \<and> cmd_text buf d = ListCmd a b \<and> yields buf es ts t"
    unfolding g(1) parseline_back using d e u(1) v(1) by (simp add: bnd_def [of "bnd _ _"])
qed

lemma size_base: "size (base c) \<le> size c"
  by (induction c) auto

lemma printers_agree:
  "pr_line c = (case c of ListCmd a b \<Rightarrow> pr_line c | _ \<Rightarrow> pr_back c)"
  "pr_back c = (case c of BackCmd a \<Rightarrow> pr_back c | _ \<Rightarrow> pr_pipe c)"
  "pr_pipe c = (case c of PipeCmd a b \<Rightarrow> pr_pipe c | _ \<Rightarrow> pr_exec c)"
  by (cases c; simp add: pr_line.simps pr_back.simps pr_pipe.simps)+

lemma all_read:
  assumes "wf_cmd c"
  shows "reads_line buf es c \<and> reads_back buf es c \<and> reads_pipe buf es c \<and> reads_exec buf es c"
  using assms
proof (induction "size c" arbitrary: c rule: less_induct)
  case less
  show ?case
  proof (cases c)
    case (ExecCmd ws)
    then have e: "reads_exec buf es c" using less.prems by (intro exec_simple) auto
    have p: "reads_pipe buf es c" by (rule exec_pipe [OF e]) (use ExecCmd printers_agree(3) [of c] in simp)
    have b: "reads_back buf es c" by (rule pipe_back [OF p]) (use ExecCmd printers_agree(2) [of c] in simp)
    have "reads_line buf es c" by (rule back_line [OF b]) (use ExecCmd printers_agree(1) [of c] in simp)
    then show ?thesis using e p b by blast
  next
    case (RedirCmd a w mode fd)
    have e: "reads_exec buf es c"
    proof (cases "is_block (base c)")
      case True
      have "size (base c) < size c" using size_base [of a] RedirCmd by simp
      then have "reads_line buf es (base c)" using less.hyps wf_base [OF less.prems] by blast
      then show ?thesis by (rule exec_block [OF less.prems True])
    next
      case False
      then obtain ws where "base c = ExecCmd ws" using base_form [of c] by blast
      then show ?thesis by (rule exec_simple [OF less.prems])
    qed
    have p: "reads_pipe buf es c" by (rule exec_pipe [OF e]) (use RedirCmd printers_agree(3) [of c] in simp)
    have b: "reads_back buf es c" by (rule pipe_back [OF p]) (use RedirCmd printers_agree(2) [of c] in simp)
    have "reads_line buf es c" by (rule back_line [OF b]) (use RedirCmd printers_agree(1) [of c] in simp)
    then show ?thesis using e p b by blast
  next
    case (PipeCmd x y)
    have wf: "wf_cmd x" "wf_cmd y" using wf_cmd_sub(2) [of x y] less.prems PipeCmd by simp_all
    have sz: "size x < size c" "size y < size c" using PipeCmd by simp_all
    have "reads_exec buf es x" "reads_pipe buf es y" using less.hyps [OF sz(1)] less.hyps [OF sz(2)] wf by blast+
    then have p: "reads_pipe buf es c" unfolding PipeCmd by (rule pipe_pipe)
    have b: "reads_back buf es c" by (rule pipe_back [OF p]) (use PipeCmd printers_agree(2) [of c] in simp)
    have l: "reads_line buf es c" by (rule back_line [OF b]) (use PipeCmd printers_agree(1) [of c] in simp)
    then have "reads_exec buf es c" using less.prems PipeCmd by (intro exec_block) (auto simp: is_block_def)
    then show ?thesis using p b l by blast
  next
    case (ListCmd x y)
    have wf: "wf_cmd x" "wf_cmd y" using wf_cmd_sub(3) [of x y] less.prems ListCmd by simp_all
    have sz: "size x < size c" "size y < size c" using ListCmd by simp_all
    have "reads_back buf es x" "reads_line buf es y" using less.hyps [OF sz(1)] less.hyps [OF sz(2)] wf by blast+
    then have l: "reads_line buf es c" unfolding ListCmd by (rule list_line)
    then have e: "reads_exec buf es c" using less.prems ListCmd by (intro exec_block) (auto simp: is_block_def)
    have p: "reads_pipe buf es c" by (rule exec_pipe [OF e]) (use ListCmd printers_agree(3) [of c] in simp)
    have "reads_back buf es c" by (rule pipe_back [OF p]) (use ListCmd printers_agree(2) [of c] in simp)
    then show ?thesis using p e l by blast
  next
    case (BackCmd x)
    have wf: "wf_cmd x" using wf_cmd_sub(4) [of x] less.prems BackCmd by simp
    have sz: "size x < size c" using BackCmd by simp
    have "reads_back buf es x" using less.hyps [OF sz] wf by blast
    then have b: "reads_back buf es c" unfolding BackCmd by (rule back_back)
    have l: "reads_line buf es c" by (rule back_line [OF b]) (use BackCmd printers_agree(1) [of c] in simp)
    then have e: "reads_exec buf es c" using less.prems BackCmd by (intro exec_block) (auto simp: is_block_def)
    have "reads_pipe buf es c" by (rule exec_pipe [OF e]) (use BackCmd printers_agree(3) [of c] in simp)
    then show ?thesis using e b l by blast
  qed
qed

definition print_cmd :: "byte list scmd \<Rightarrow> byte list" where
  "print_cmd c = render (pr_line c)"

lemma redir_tok_ok: "tok_ok (redir_tok m fd)"
  by simp

lemma pr_ok:
  assumes "\<forall>w \<in> set_scmd c. tok_ok (Word w)"
  shows "(\<forall>k \<in> set (pr_line c). tok_ok k) \<and> (\<forall>k \<in> set (pr_back c). tok_ok k) \<and> (\<forall>k \<in> set (pr_pipe c). tok_ok k) \<and> (\<forall>k \<in> set (pr_exec c). tok_ok k)"
  using assms
proof (induction c)
  case (ExecCmd ws)
  then show ?case by (simp add: pr_line.simps pr_back.simps pr_pipe.simps pr_exec.simps)
next
  case (RedirCmd c w m fd)
  then show ?case using redir_tok_ok by (simp add: pr_line.simps [of "RedirCmd _ _ _ _"] pr_back.simps [of "RedirCmd _ _ _ _"] pr_pipe.simps [of "RedirCmd _ _ _ _"] pr_exec.simps [of "RedirCmd _ _ _ _"] ball_Un)
next
  case (PipeCmd a b)
  then show ?case by (simp add: pr_line.simps [of "PipeCmd _ _"] pr_back.simps [of "PipeCmd _ _"] pr_pipe.simps [of "PipeCmd _ _"] pr_exec.simps [of "PipeCmd _ _"] ball_Un)
next
  case (ListCmd a b)
  then show ?case by (simp add: pr_line.simps [of "ListCmd _ _"] pr_back.simps [of "ListCmd _ _"] pr_pipe.simps [of "ListCmd _ _"] pr_exec.simps [of "ListCmd _ _"] ball_Un)
next
  case (BackCmd a)
  then show ?case by (simp add: pr_line.simps [of "BackCmd _"] pr_back.simps [of "BackCmd _"] pr_pipe.simps [of "BackCmd _"] pr_exec.simps [of "BackCmd _"] ball_Un)
qed

lemma render_nz: "\<forall>k \<in> set ts. tok_ok k \<Longrightarrow> 0 \<notin> set (render ts)"
proof (induction ts)
  case (Cons k ts)
  then show ?case by (cases k) (auto simp: wordc_def)
qed simp

lemma length_render: "\<forall>k \<in> set ts. tok_ok k \<Longrightarrow> length ts \<le> length (render ts)"
  by (induction ts) auto

section \<open>Property\<close>

text \<open>
  C7. The parser reads every printed command back: sequences, background commands, pipelines, redirections and
  nested blocks come out with the structure they had, and the strings in the cleared buffer are the words.
\<close>

theorem parse_print_roundtrip:
  assumes wf: "wf_cmd c" and len: "length (print_cmd c) < 2 ^ 32"
  shows "\<exists>d buf t. parsecmd (print_cmd c @ 0 # z) s = Done (d, buf) t \<and> map_scmd (\<lambda>(q, e). cstr (drop q buf)) d = c"
proof -
  let ?l = "print_cmd c"
  let ?b = "?l @ 0 # z"
  let ?es = "length ?l"
  have toks: "\<forall>k \<in> set (pr_line c). tok_ok k" using wf pr_ok [of c] by (simp add: wf_cmd_def)
  have z: "0 \<notin> set ?l" using render_nz [OF toks] by (simp add: print_cmd_def)
  have ok: "line_ok ?b ?es" by (rule line_ok_line [OF z])
  have y: "yields ?b ?es (pr_line c @ []) 0" using toks unfolding yields_def print_cmd_def by (intro conjI exI [of _ 0] exI [of _ z]) simp_all
  have "length (pr_line c) \<le> ?es" using length_render [OF toks] by (simp add: print_cmd_def)
  then have f: "4 * length (pr_line c) + 4 \<le> parse_fuel ?es" by (simp add: parse_fuel_def)
  obtain d t where d: "parseline (parse_fuel ?es) ?b ?es 0 = Done d t" "cmd_text ?b d = c" "yields ?b ?es [] t"
    using all_read [OF wf, of ?b ?es] y f unfolding reads_def stop_line_def by blast
  obtain u where u: "peek ?b ?es [] t = Done False u" "u = ?es"
  proof -
    obtain u x where u: "skip_ws ?b ?es t = Done () u" "drop u ?b = 0 # x" "u = ?es" using yields_skip [OF d(3)] by auto
    have "rdb ?b u = Done 0 u" by (rule rdb_drop [OF u(2)])
    then show ?thesis using that [of u] u by (simp add: peek_def bnd_def ret_def)
  qed
  have g: "good ?b ?es 0 d t"
    using safe_parsers(1) [OF ok, of 0 "parse_fuel ?es"] d(1) by (simp add: parse_fuel_def safe_def)
  then have sp: "\<forall>w \<in> set_scmd d. span_ok ?b w" by (simp add: good_def cmd_ok_def)
  then have "\<forall>w \<in> set_scmd d. snd w < length ?b" by (auto simp: span_ok_def)
  from nulterminate_cleared [OF this cleared_refl] obtain b' where b': "nulterminate d ?b = Some b'" "cleared ?b (ends d) b'" by auto
  have "map_scmd (\<lambda>(q, e). cstr (drop q b')) d = cmd_text ?b d"
    unfolding cmd_text_def using cstr_cleared [OF sp b'(2)] by (intro scmd.map_cong0) auto
  moreover have "parsecmd ?b s = Done (d, b') u"
    unfolding parsecmd_line [OF z len] Let_def using d(1) u b'(1) by (simp add: bnd_def gets_def ret_def)
  ultimately show ?thesis using d(2) by auto
qed

theorem parse_print_roundtrip_witness:
  "\<exists>d buf t. parsecmd (print_cmd (ListCmd (PipeCmd (ExecCmd [[0x6C, 0x73]]) (RedirCmd (ExecCmd [[0x77, 0x63]]) [0x66] (O_WRONLY OR O_CREATE) 1)) (ExecCmd [])) @ [0]) 0 = Done (d, buf) t \<and>
     map_scmd (\<lambda>(q, e). cstr (drop q buf)) d = ListCmd (PipeCmd (ExecCmd [[0x6C, 0x73]]) (RedirCmd (ExecCmd [[0x77, 0x63]]) [0x66] (O_WRONLY OR O_CREATE) 1)) (ExecCmd [])"
proof (rule parse_print_roundtrip)
  show "wf_cmd (ListCmd (PipeCmd (ExecCmd [[0x6C, 0x73]]) (RedirCmd (ExecCmd [[0x77, 0x63]]) [0x66] (O_WRONLY OR O_CREATE) 1)) (ExecCmd []))"
    by (simp add: wf_cmd_def wordc_def hit_whitespace hit_symbols)
  show "length (print_cmd (ListCmd (PipeCmd (ExecCmd [[0x6C, 0x73]]) (RedirCmd (ExecCmd [[0x77, 0x63]]) [0x66] (O_WRONLY OR O_CREATE) 1)) (ExecCmd []))) < 2 ^ 32"
    by (simp add: print_cmd_def pr_line.simps pr_back.simps pr_pipe.simps pr_exec.simps)
qed

end
